(* ===== verification/Prelude.thy ===== *)
theory Prelude
  imports Main "HOL-Library.Word"
begin

text \<open>
  Shared vocabulary of the development: the outcome of a Rust call (\<open>res\<close>), actions that
  thread a state through fallible calls (\<open>act\<close>), unsigned 64-bit arithmetic with Rust's
  saturating operations, the string operations of the standard library the sources use, time
  and durations, and tables of rows with the effect of an SQL \<open>UPDATE \<dots> WHERE\<close>.

  Strings are HOL \<open>string\<close>s read as the UTF-8 bytes of a Rust \<open>String\<close>, so \<open>str::len\<close> is
  \<open>length\<close> and \<open>as_bytes\<close> is the identity. Durations are counted in nanoseconds (the
  resolution of \<open>std::time::Duration\<close>), points in time in nanoseconds since the Unix epoch.
\<close>

named_theorems act_simps \<open>how actions compute\<close>
named_theorems table_simps \<open>how table updates look through selections\<close>

section \<open>Outcomes of a call\<close>

text \<open>\<open>Ok\<close> and \<open>Err\<close> are Rust's \<open>Result\<close>; \<open>Panic\<close> is a call that unwinds instead of
  returning.\<close>

datatype ('e, 'a) res = Ok 'a | Err 'e | Panic

fun res_bind :: "('e, 'a) res \<Rightarrow> ('a \<Rightarrow> ('e, 'b) res) \<Rightarrow> ('e, 'b) res" where
  "res_bind (Ok a) f = f a"
| "res_bind (Err e) f = Err e"
| "res_bind Panic f = Panic"

fun map_err :: "('e \<Rightarrow> 'f) \<Rightarrow> ('e, 'a) res \<Rightarrow> ('f, 'a) res" where
  "map_err g (Ok a) = Ok a"
| "map_err g (Err e) = Err (g e)"
| "map_err g Panic = Panic"

fun of_sum :: "'e + 'a \<Rightarrow> ('e, 'a) res" where
  "of_sum (Inl e) = Err e"
| "of_sum (Inr a) = Ok a"

fun ok_or :: "'e \<Rightarrow> 'a option \<Rightarrow> ('e, 'a) res" where
  "ok_or e None = Err e"
| "ok_or e (Some a) = Ok a"

fun or_panic :: "'a option \<Rightarrow> ('e, 'a) res" where
  "or_panic None = Panic"
| "or_panic (Some a) = Ok a"

definition is_ok :: "('e, 'a) res \<Rightarrow> bool" where
  "is_ok r = (case r of Ok a \<Rightarrow> True | Err e \<Rightarrow> False | Panic \<Rightarrow> False)"

lemma is_ok_simps [simp]: "is_ok (Ok a)" "\<not> is_ok (Err e)" "\<not> is_ok Panic"
  by (simp_all add: is_ok_def)

lemma is_ok_iff: "is_ok r \<longleftrightarrow> (\<exists>a. r = Ok a)"
  by (cases r) simp_all

lemma res_bind_Ok_iff: "res_bind r f = Ok b \<longleftrightarrow> (\<exists>a. r = Ok a \<and> f a = Ok b)"
  by (cases r) simp_all

lemma res_bind_Panic_iff: "res_bind r f = Panic \<longleftrightarrow> r = Panic \<or> (\<exists>a. r = Ok a \<and> f a = Panic)"
  by (cases r) simp_all

lemma res_bind_Err_iff: "res_bind r f = Err e \<longleftrightarrow> r = Err e \<or> (\<exists>a. r = Ok a \<and> f a = Err e)"
  by (cases r) simp_all

lemma map_err_Err_iff: "map_err g r = Err e \<longleftrightarrow> (\<exists>e'. r = Err e' \<and> e = g e')"
  by (cases r) auto

lemma ok_or_Err_iff [simp]: "ok_or e x = Err e' \<longleftrightarrow> x = None \<and> e' = e"
  by (cases x) auto

lemma of_sum_Err_iff [simp]: "of_sum y = Err e \<longleftrightarrow> y = Inl e"
  by (cases y) auto

lemma no_panic [simp]: "ok_or e x \<noteq> Panic" "of_sum y \<noteq> Panic"
  by (cases x, simp, simp) (cases y, simp, simp)

lemma map_err_Ok_iff [simp]: "map_err g r = Ok a \<longleftrightarrow> r = Ok a"
  by (cases r) simp_all

lemma map_err_Panic_iff [simp]: "map_err g r = Panic \<longleftrightarrow> r = Panic"
  by (cases r) simp_all

lemma ok_or_Ok_iff [simp]: "ok_or e x = Ok a \<longleftrightarrow> x = Some a"
  by (cases x) simp_all

lemma or_panic_Ok_iff [simp]: "or_panic x = Ok a \<longleftrightarrow> x = Some a"
  by (cases x) simp_all

lemma of_sum_Ok_iff [simp]: "of_sum x = Ok a \<longleftrightarrow> x = Inr a"
  by (cases x) simp_all

section \<open>Actions: fallible calls that change a state\<close>

type_synonym ('s, 'e, 'a) act = "'s \<Rightarrow> ('e, 'a) res \<times> 's"

definition act_return :: "'a \<Rightarrow> ('s, 'e, 'a) act" where
  "act_return a s = (Ok a, s)"

definition act_fail :: "'e \<Rightarrow> ('s, 'e, 'a) act" where
  "act_fail e s = (Err e, s)"

definition act_lift :: "('e, 'a) res \<Rightarrow> ('s, 'e, 'a) act" where
  "act_lift r s = (r, s)"

definition act_bind :: "('s, 'e, 'a) act \<Rightarrow> ('a \<Rightarrow> ('s, 'e, 'b) act) \<Rightarrow> ('s, 'e, 'b) act" where
  "act_bind m f s =
     (case m s of
        (Ok a, s') \<Rightarrow> f a s'
      | (Err e, s') \<Rightarrow> (Err e, s')
      | (Panic, s') \<Rightarrow> (Panic, s'))"

text \<open>\<open>map_err\<close> on an action is Rust's \<open>.map_err(\<dots>)?\<close> and the \<open>From\<close> conversion of \<open>?\<close>;
  \<open>act_ok\<close> is a result that is dropped (\<open>.await.ok()\<close> or \<open>let _ = \<dots>\<close>).\<close>

definition act_map_err :: "('e \<Rightarrow> 'f) \<Rightarrow> ('s, 'e, 'a) act \<Rightarrow> ('s, 'f, 'a) act" where
  "act_map_err g m s = (case m s of (r, s') \<Rightarrow> (map_err g r, s'))"

definition act_ok :: "('s, 'e, 'a) act \<Rightarrow> ('s, 'f, unit) act" where
  "act_ok m s = (case m s of (r, s') \<Rightarrow> ((case r of Panic \<Rightarrow> Panic | _ \<Rightarrow> Ok ()), s'))"

lemma act_return_simp [simp, act_simps]: "act_return a s = (Ok a, s)"
  by (simp add: act_return_def)

lemma act_fail_simp [simp, act_simps]: "act_fail e s = (Err e, s)"
  by (simp add: act_fail_def)

lemma act_lift_simp [simp, act_simps]: "act_lift r s = (r, s)"
  by (simp add: act_lift_def)

lemma act_bind_eqs [act_simps]:
  "m s = (Ok a, s') \<Longrightarrow> act_bind m f s = f a s'"
  "m s = (Err e, s') \<Longrightarrow> act_bind m f s = (Err e, s')"
  "m s = (Panic, s') \<Longrightarrow> act_bind m f s = (Panic, s')"
  by (simp_all add: act_bind_def)

lemma act_bind_Ok_iff:
  "act_bind m f s = (Ok b, s'') \<longleftrightarrow> (\<exists>a s'. m s = (Ok a, s') \<and> f a s' = (Ok b, s''))"
  by (auto simp: act_bind_def split: prod.splits res.splits)

lemma act_bind_Ok_elim:
  assumes "act_bind m f s = (Ok b, s'')"
  obtains a s' where "m s = (Ok a, s')" "f a s' = (Ok b, s'')"
  using assms by (auto simp: act_bind_Ok_iff)

lemma act_map_err_Ok_iff [simp]:
  "act_map_err g m s = (Ok a, s') \<longleftrightarrow> m s = (Ok a, s')"
  by (auto simp: act_map_err_def split: prod.splits)

lemma act_map_err_eqs [act_simps]:
  "m s = (Ok a, s') \<Longrightarrow> act_map_err g m s = (Ok a, s')"
  "m s = (Err e, s') \<Longrightarrow> act_map_err g m s = (Err (g e), s')"
  "m s = (Panic, s') \<Longrightarrow> act_map_err g m s = (Panic, s')"
  by (simp_all add: act_map_err_def)

lemma act_ok_state [simp]: "snd (act_ok m s) = snd (m s)"
  by (simp add: act_ok_def split: prod.splits)

text \<open>A relation between the state before and after that is reflexive and transitive is kept
  by a sequence when both parts keep it: invariants and frame conditions pass through
  \<open>act_bind\<close> by this rule.\<close>

definition act_rel :: "('s \<Rightarrow> 's \<Rightarrow> bool) \<Rightarrow> ('s, 'e, 'a) act \<Rightarrow> bool" where
  "act_rel R m \<longleftrightarrow> (\<forall>s. R s (snd (m s)))"

lemma act_relI: "(\<And>s. R s (snd (m s))) \<Longrightarrow> act_rel R m"
  by (simp add: act_rel_def)

lemma act_relD: "act_rel R m \<Longrightarrow> m s = (r, s') \<Longrightarrow> R s s'"
  by (metis act_rel_def snd_conv)

lemma act_rel_pure:
  assumes "\<And>s. R s s"
  shows "act_rel R (act_return a)" "act_rel R (act_fail e)" "act_rel R (act_lift r)"
  using assms by (simp_all add: act_rel_def)

lemma act_rel_bind:
  assumes tr: "\<And>s t u. R s t \<Longrightarrow> R t u \<Longrightarrow> R s u"
    and m: "act_rel R m" and f: "\<And>a. act_rel R (f a)"
  shows "act_rel R (act_bind m f)"
proof (rule act_relI)
  fix s
  obtain r s' where ms: "m s = (r, s')" by (cases "m s")
  from act_relD [OF m ms] have R: "R s s'" .
  show "R s (snd (act_bind m f s))"
  proof (cases r)
    case (Ok a)
    have "R s' (snd (f a s'))" using f [of a] by (simp add: act_rel_def)
    with R ms Ok show ?thesis by (auto simp: act_bind_def intro: tr)
  qed (use R ms in \<open>auto simp: act_bind_def\<close>)
qed

lemma act_rel_map_err: "act_rel R m \<Longrightarrow> act_rel R (act_map_err g m)"
  by (auto simp: act_rel_def act_map_err_def split: prod.splits) (metis snd_conv)

lemma act_rel_ok: "act_rel R m \<Longrightarrow> act_rel R (act_ok m)"
  by (simp add: act_rel_def)

text \<open>\<open>act_valid P m Q E\<close>: from a state with \<open>P\<close>, a call that returns a value \<open>a\<close> ends in a state
  with \<open>Q a\<close>, and one that fails or panics (\<open>None\<close>) ends in a state with \<open>E\<close> of its error.\<close>

definition act_valid ::
    "('s \<Rightarrow> bool) \<Rightarrow> ('s, 'e, 'a) act \<Rightarrow> ('a \<Rightarrow> 's \<Rightarrow> bool) \<Rightarrow> ('e option \<Rightarrow> 's \<Rightarrow> bool) \<Rightarrow> bool" where
  "act_valid P m Q E \<longleftrightarrow>
     (\<forall>s. P s \<longrightarrow> (case m s of (Ok a, s') \<Rightarrow> Q a s' | (Err e, s') \<Rightarrow> E (Some e) s' | (Panic, s') \<Rightarrow> E None s'))"

lemma act_validI:
  "(\<And>s. P s \<Longrightarrow> case m s of (Ok a, s') \<Rightarrow> Q a s' | (Err e, s') \<Rightarrow> E (Some e) s' | (Panic, s') \<Rightarrow> E None s') \<Longrightarrow>
   act_valid P m Q E"
  by (simp add: act_valid_def)

lemma act_validD:
  assumes "act_valid P m Q E" and "P s"
  shows "m s = (Ok a, s') \<Longrightarrow> Q a s'" "m s = (Err e, s') \<Longrightarrow> E (Some e) s'" "m s = (Panic, s') \<Longrightarrow> E None s'"
  using assms by (auto simp: act_valid_def)

lemma act_valid_bind:
  assumes "act_valid P m Q E" and "\<And>a. act_valid (Q a) (f a) R E"
  shows "act_valid P (act_bind m f) R E"
proof (rule act_validI)
  fix s assume P: "P s"
  obtain r s' where m: "m s = (r, s')" by (cases "m s")
  show "case act_bind m f s of (Ok a, s') \<Rightarrow> R a s' | (Err e, s') \<Rightarrow> E (Some e) s' | (Panic, s') \<Rightarrow> E None s'"
  proof (cases r)
    case (Ok a)
    with act_validD(1) [OF assms(1) P] m have "Q a s'" by simp
    with assms(2) [of a] have "case f a s' of (Ok a, s') \<Rightarrow> R a s' | (Err e, s') \<Rightarrow> E (Some e) s' | (Panic, s') \<Rightarrow> E None s'"
      by (simp add: act_valid_def)
    with m Ok show ?thesis by (simp add: act_bind_def)
  qed (use act_validD(2,3) [OF assms(1) P] m in \<open>auto simp: act_bind_def\<close>)
qed

lemma act_valid_return: "(\<And>s. P s \<Longrightarrow> Q a s) \<Longrightarrow> act_valid P (act_return a) Q E"
  by (simp add: act_valid_def)

lemma act_valid_fail: "(\<And>s. P s \<Longrightarrow> E (Some e) s) \<Longrightarrow> act_valid P (act_fail e) Q E"
  by (simp add: act_valid_def)

lemma act_valid_lift:
  "(\<And>s a. r = Ok a \<Longrightarrow> P s \<Longrightarrow> Q a s) \<Longrightarrow> (\<And>s e. r = Err e \<Longrightarrow> P s \<Longrightarrow> E (Some e) s) \<Longrightarrow>
   (\<And>s. r = Panic \<Longrightarrow> P s \<Longrightarrow> E None s) \<Longrightarrow> act_valid P (act_lift r) Q E"
  by (cases r) (simp_all add: act_valid_def)

lemma act_valid_outcome:
  "act_valid P m Q E \<longleftrightarrow>
     (\<forall>s r s'. P s \<longrightarrow> m s = (r, s') \<longrightarrow> (case r of Ok a \<Rightarrow> Q a s' | Err e \<Rightarrow> E (Some e) s' | Panic \<Rightarrow> E None s'))"
  by (auto simp: act_valid_def split: res.splits prod.splits)

lemma act_valid_map_err:
  assumes "act_valid P m Q (\<lambda>e. E (map_option g e))"
  shows "act_valid P (act_map_err g m) Q E"
proof (rule act_validI)
  fix s assume "P s"
  moreover obtain r s' where "m s = (r, s')" by (cases "m s")
  ultimately show "case act_map_err g m s of (Ok a, s') \<Rightarrow> Q a s' | (Err e, s') \<Rightarrow> E (Some e) s' | (Panic, s') \<Rightarrow> E None s'"
    using assms by (cases r) (force simp: act_valid_outcome act_map_err_def)+
qed

lemma act_valid_ok:
  assumes "act_valid P m (\<lambda>a. Q ()) (\<lambda>e s. if e = None then E None s else Q () s)"
  shows "act_valid P (act_ok m) Q E"
proof (rule act_validI)
  fix s assume "P s"
  moreover obtain r s' where "m s = (r, s')" by (cases "m s")
  ultimately show "case act_ok m s of (Ok a, s') \<Rightarrow> Q a s' | (Err e, s') \<Rightarrow> E (Some e) s' | (Panic, s') \<Rightarrow> E None s'"
    using assms by (cases r) (force simp: act_valid_outcome act_ok_def)+
qed

lemma act_valid_weaken:
  assumes "act_valid P' m Q' E'" and "\<And>s. P s \<Longrightarrow> P' s" and "\<And>a s. Q' a s \<Longrightarrow> Q a s"
    and "\<And>e s. E' e s \<Longrightarrow> E e s"
  shows "act_valid P m Q E"
  unfolding act_valid_outcome
proof (intro allI impI)
  fix s r s' assume "P s" and "m s = (r, s')"
  with assms(1,2) have "case r of Ok a \<Rightarrow> Q' a s' | Err e \<Rightarrow> E' (Some e) s' | Panic \<Rightarrow> E' None s'"
    by (auto simp: act_valid_outcome)
  then show "case r of Ok a \<Rightarrow> Q a s' | Err e \<Rightarrow> E (Some e) s' | Panic \<Rightarrow> E None s'"
    using assms(3,4) by (cases r) auto
qed

lemma act_valid_ex:
  assumes "\<And>i. act_valid (P i) m Q E"
  shows "act_valid (\<lambda>s. \<exists>i. P i s) m Q E"
proof (rule act_validI)
  fix s assume "\<exists>i. P i s"
  then obtain i where "P i s" ..
  with assms [of i] show "case m s of (Ok a, s') \<Rightarrow> Q a s' | (Err e, s') \<Rightarrow> E (Some e) s' | (Panic, s') \<Rightarrow> E None s'"
    by (simp add: act_valid_def)
qed

lemma act_valid_when: "(c \<Longrightarrow> act_valid P m Q E) \<Longrightarrow> act_valid (\<lambda>s. P s \<and> c) m Q E"
  by (auto simp: act_valid_def)

text \<open>A condition that a call keeps whatever its outcome.\<close>

abbreviation act_keeps :: "('s \<Rightarrow> bool) \<Rightarrow> ('s, 'e, 'a) act \<Rightarrow> bool" where
  "act_keeps P m \<equiv> act_valid P m (\<lambda>_. P) (\<lambda>_. P)"

lemma act_keeps_bind:
  "act_keeps P m \<Longrightarrow> (\<And>a. act_valid P (f a) Q E) \<Longrightarrow> (\<And>e s. P s \<Longrightarrow> E e s) \<Longrightarrow>
   act_valid P (act_bind m f) Q E"
  by (rule act_valid_bind [where Q = "\<lambda>_. P"], erule act_valid_weaken) auto

lemma act_keeps_map_err: "act_keeps P m \<Longrightarrow> act_keeps P (act_map_err g m)"
  by (rule act_valid_map_err)

lemma act_keeps_ok: "act_keeps P m \<Longrightarrow> act_keeps P (act_ok m)"
  by (rule act_valid_ok) (erule act_valid_weaken, auto)

lemma act_keeps_pure: "act_keeps P (act_return a)" "act_keeps P (act_fail e)" "act_keeps P (act_lift r)"
  by (auto intro: act_valid_return act_valid_fail act_valid_lift)

lemma act_keepsD: "act_keeps P m \<Longrightarrow> P s \<Longrightarrow> m s = (r, s') \<Longrightarrow> P s'"
  by (cases r) (auto dest: act_validD)

section \<open>Unsigned 64-bit integers\<close>

type_synonym u64 = "64 word"

definition saturating_add :: "u64 \<Rightarrow> u64 \<Rightarrow> u64" where
  "saturating_add a b = (if unat a + unat b < 2 ^ 64 then a + b else - 1)"

definition saturating_sub :: "u64 \<Rightarrow> u64 \<Rightarrow> u64" where
  "saturating_sub a b = (if b \<le> a then a - b else 0)"

definition saturating_mul :: "u64 \<Rightarrow> u64 \<Rightarrow> u64" where
  "saturating_mul a b = (if unat a * unat b < 2 ^ 64 then a * b else - 1)"

lemma unat_max_u64: "unat (- 1 :: u64) = 2 ^ 64 - 1"
  by (simp add: unsigned_minus_1_eq_mask mask_eq_exp_minus_1)

lemma unat_saturating_add: "unat (saturating_add a b) = min (unat a + unat b) (2 ^ 64 - 1)"
  by (simp add: saturating_add_def unat_word_ariths unat_max_u64 min_def)

lemma unat_saturating_sub: "unat (saturating_sub a b) = unat a - unat b"
  by (simp add: saturating_sub_def unat_sub word_le_nat_alt)

lemma unat_saturating_mul: "unat (saturating_mul a b) = min (unat a * unat b) (2 ^ 64 - 1)"
  by (simp add: saturating_mul_def unat_word_ariths unat_max_u64 min_def)

lemma unat_u64_bound: "unat (w :: u64) < 2 ^ 64"
  using unsigned_less [of w] by simp


section \<open>Time\<close>

type_synonym duration = nat \<comment> \<open>\<open>std::time::Duration\<close>, in nanoseconds\<close>
type_synonym instant = nat \<comment> \<open>a reading of the clock, in nanoseconds since the epoch\<close>
type_synonym timestamp = int \<comment> \<open>\<open>DateTime<Utc>\<close> and \<open>TIMESTAMPTZ\<close>, in nanoseconds\<close>

definition NANOS_PER_SEC :: nat where
  "NANOS_PER_SEC = 1000000000"

definition from_secs :: "nat \<Rightarrow> duration" where
  "from_secs n = n * NANOS_PER_SEC"

text \<open>\<open>Duration::as_secs\<close>: whole seconds, a \<open>u64\<close>. The largest duration is
  \<open>u64::MAX\<close> seconds and 999999999 nanoseconds.\<close>

definition as_secs :: "duration \<Rightarrow> u64" where
  "as_secs d = word_of_nat (d div NANOS_PER_SEC)"

definition duration_max :: duration where
  "duration_max = 2 ^ 64 * NANOS_PER_SEC - 1"

lemma unat_as_secs: "d \<le> duration_max \<Longrightarrow> unat (as_secs d) = d div NANOS_PER_SEC"
  by (simp add: as_secs_def duration_max_def NANOS_PER_SEC_def unat_of_nat)

lemma uint_as_secs: "d \<le> duration_max \<Longrightarrow> uint (as_secs d) = int (d div NANOS_PER_SEC)"
  by (metis unat_as_secs uint_nat)

lemma as_secs_from_secs: "n < 2 ^ 64 \<Longrightarrow> unat (as_secs (from_secs n)) = n"
  by (simp add: as_secs_def from_secs_def NANOS_PER_SEC_def unat_of_nat)

section \<open>Strings\<close>

text \<open>\<open>str::split(c)\<close>: the pieces between the separators; the empty string has one piece.\<close>

fun split_on :: "char \<Rightarrow> string \<Rightarrow> string list" where
  "split_on c [] = [[]]"
| "split_on c (x # xs) =
     (if x = c then [] # split_on c xs
      else (case split_on c xs of [] \<Rightarrow> [[x]] | g # gs \<Rightarrow> (x # g) # gs))"

lemma split_on_not_Nil [simp]: "split_on c s \<noteq> []"
  by (induction s) (auto split: list.splits)

lemma split_on_no_sep: "c \<notin> set s \<Longrightarrow> split_on c s = [s]"
  by (induction s) auto

lemma split_on_append: "c \<notin> set s \<Longrightarrow> split_on c (s @ c # t) = s # split_on c t"
  by (induction s) auto

text \<open>\<open>str::strip_prefix\<close> and \<open>str::trim_end_matches(c)\<close>.\<close>

definition strip_prefix :: "string \<Rightarrow> string \<Rightarrow> string option" where
  "strip_prefix p s = (if take (length p) s = p then Some (drop (length p) s) else None)"

lemma strip_prefix_Some_iff: "strip_prefix p s = Some r \<longleftrightarrow> s = p @ r"
  by (auto simp: strip_prefix_def) (metis append_take_drop_id)

definition trim_end_matches :: "char \<Rightarrow> string \<Rightarrow> string" where
  "trim_end_matches c s = rev (dropWhile (\<lambda>x. x = c) (rev s))"

lemma trim_end_matches_last: "trim_end_matches c s = [] \<or> last (trim_end_matches c s) \<noteq> c"
proof (cases "dropWhile (\<lambda>x. x = c) (rev s) = []")
  case False
  from hd_dropWhile [OF this] False show ?thesis
    by (simp add: trim_end_matches_def last_rev)
qed (simp add: trim_end_matches_def)

lemma trim_end_matches_idem [simp]:
  "trim_end_matches c (trim_end_matches c s) = trim_end_matches c s"
  by (simp add: trim_end_matches_def)

text \<open>\<open>str::is_char_boundary\<close>, and the slice \<open>&s[a..b]\<close>, which panics outside the string and when it
  would cut a character.\<close>

definition is_char_boundary :: "string \<Rightarrow> nat \<Rightarrow> bool" where
  "is_char_boundary s i \<longleftrightarrow>
     i = length s \<or> i < length s \<and> \<not> (128 \<le> (of_char (s ! i) :: nat) \<and> (of_char (s ! i) :: nat) < 192)"

definition str_slice :: "nat \<Rightarrow> nat \<Rightarrow> string \<Rightarrow> ('e, string) res" where
  "str_slice a b s =
     (if a \<le> b \<and> is_char_boundary s a \<and> is_char_boundary s b then Ok (take (b - a) (drop a s)) else Panic)"

lemma str_slice_ascii:
  assumes "\<forall>c\<in>set s. (of_char c :: nat) < 128" and "a \<le> b" and "b \<le> length s"
  shows "str_slice a b s = Ok (take (b - a) (drop a s))"
proof -
  have "is_char_boundary s i" if "i \<le> length s" for i
  proof (cases "i = length s")
    case False
    with that have "(of_char (s ! i) :: nat) < 128" using assms(1) by simp
    with that False show ?thesis by (simp add: is_char_boundary_def)
  qed (simp add: is_char_boundary_def)
  with assms(2,3) show ?thesis by (simp add: str_slice_def)
qed

text \<open>The UTF-8 encodings of the characters with the Unicode property \<open>White_Space\<close>, which
  \<open>str::trim\<close> removes at both ends.\<close>

definition white_space :: "string list" where
  "white_space =
     [[CHR 0x09], [CHR 0x0A], [CHR 0x0B], [CHR 0x0C], [CHR 0x0D], [CHR 0x20],
      [CHR 0xC2, CHR 0x85], [CHR 0xC2, CHR 0xA0], [CHR 0xE1, CHR 0x9A, CHR 0x80],
      [CHR 0xE2, CHR 0x80, CHR 0x80], [CHR 0xE2, CHR 0x80, CHR 0x81],
      [CHR 0xE2, CHR 0x80, CHR 0x82], [CHR 0xE2, CHR 0x80, CHR 0x83],
      [CHR 0xE2, CHR 0x80, CHR 0x84], [CHR 0xE2, CHR 0x80, CHR 0x85],
      [CHR 0xE2, CHR 0x80, CHR 0x86], [CHR 0xE2, CHR 0x80, CHR 0x87],
      [CHR 0xE2, CHR 0x80, CHR 0x88], [CHR 0xE2, CHR 0x80, CHR 0x89],
      [CHR 0xE2, CHR 0x80, CHR 0x8A], [CHR 0xE2, CHR 0x80, CHR 0xA8],
      [CHR 0xE2, CHR 0x80, CHR 0xA9], [CHR 0xE2, CHR 0x80, CHR 0xAF],
      [CHR 0xE2, CHR 0x81, CHR 0x9F], [CHR 0xE3, CHR 0x80, CHR 0x80]]"

fun strip_any :: "string list \<Rightarrow> string \<Rightarrow> string option" where
  "strip_any [] s = None"
| "strip_any (p # ps) s =
     (case strip_prefix p s of None \<Rightarrow> strip_any ps s
      | Some r \<Rightarrow> if length r < length s then Some r else strip_any ps s)"

lemma strip_any_shorter: "strip_any ps s = Some r \<Longrightarrow> length r < length s"
  by (induction ps) (auto split: option.splits if_splits)

function trim_with :: "string list \<Rightarrow> string \<Rightarrow> string" where
  "trim_with ps s = (case strip_any ps s of None \<Rightarrow> s | Some r \<Rightarrow> trim_with ps r)"
  by pat_completeness auto
termination
  by (relation "measure (\<lambda>(ps, s). length s)") (auto dest: strip_any_shorter)

declare trim_with.simps [simp del]

definition trim :: "string \<Rightarrow> string" where
  "trim s = rev (trim_with (map rev white_space) (rev (trim_with white_space s)))"

lemma trim_with_done: "strip_any ps s = None \<Longrightarrow> trim_with ps s = s"
  by (simp add: trim_with.simps)

lemma strip_any_first:
  assumes "\<forall>p\<in>set ps. p \<noteq> [] \<and> hd p \<noteq> hd s" and "s \<noteq> []"
  shows "strip_any ps s = None"
  using assms
proof (induction ps)
  case (Cons p ps)
  have "strip_prefix p s = None"
  proof (rule ccontr)
    assume "strip_prefix p s \<noteq> None"
    then obtain r where "s = p @ r" by (auto simp: strip_prefix_Some_iff)
    with Cons.prems show False by (metis hd_append list.set_intros(1))
  qed
  with Cons show ?case by simp
qed simp

text \<open>ASCII classes and case, and the decimal rendering of an integer.\<close>

definition is_ascii_hexdigit :: "char \<Rightarrow> bool" where
  "is_ascii_hexdigit c \<longleftrightarrow>
     (let n = (of_char c :: nat) in
      48 \<le> n \<and> n \<le> 57 \<or> 65 \<le> n \<and> n \<le> 70 \<or> 97 \<le> n \<and> n \<le> 102)"

definition is_ascii :: "string \<Rightarrow> bool" where
  "is_ascii s \<longleftrightarrow> (\<forall>c\<in>set s. (of_char c :: nat) < 128)"

definition ascii_lower :: "char \<Rightarrow> char" where
  "ascii_lower c =
     (let n = (of_char c :: nat) in if 65 \<le> n \<and> n \<le> 90 then char_of (n + 32) else c)"

definition visible_ascii :: "char \<Rightarrow> bool" where
  "visible_ascii c \<longleftrightarrow> 32 < (of_char c :: nat) \<and> (of_char c :: nat) < 128"

lemma white_space_hd: "\<forall>p\<in>set white_space. p \<noteq> [] \<and> \<not> visible_ascii (hd p)"
  by (simp add: white_space_def visible_ascii_def)

lemma white_space_last: "\<forall>p\<in>set white_space. p \<noteq> [] \<and> \<not> visible_ascii (last p)"
  by (simp add: white_space_def visible_ascii_def)

lemma trim_no_space:
  assumes "\<forall>c\<in>set s. visible_ascii c"
  shows "trim s = s"
proof (cases "s = []")
  case True
  then show ?thesis by (simp add: trim_def white_space_def trim_with_done strip_prefix_def)
next
  case False
  with assms have vis: "visible_ascii (hd s)" "visible_ascii (hd (rev s))"
    by (simp_all add: hd_rev)
  have "\<forall>p\<in>set white_space. p \<noteq> [] \<and> hd p \<noteq> hd s"
    using white_space_hd vis(1) by metis
  moreover have "\<forall>p\<in>set (map rev white_space). p \<noteq> [] \<and> hd p \<noteq> hd (rev s)"
    using white_space_last vis(2) by (auto simp: hd_rev)
  ultimately show ?thesis
    using False by (simp add: trim_def trim_with_done strip_any_first del: set_map)
qed

text \<open>Blanks around a text are trimmed.\<close>

lemma trim_with_blanks:
  assumes "\<And>s. strip_any ps (CHR '' '' # s) = Some s" and "set a \<subseteq> {CHR '' ''}"
  shows "trim_with ps (a @ s) = trim_with ps s"
  using assms(2)
proof (induction a)
  case (Cons c a)
  then show ?case using assms(1) [of "a @ s"] by (simp add: trim_with.simps [of ps "CHR '' '' # a @ s"])
qed simp

lemma strip_blank:
  "strip_any white_space (CHR '' '' # s) = Some s" "strip_any (map rev white_space) (CHR '' '' # s) = Some s"
  by (simp_all add: white_space_def strip_prefix_def)

lemma trim_padded:
  assumes vis: "\<forall>c\<in>set s. visible_ascii c" and "s \<noteq> []" and "set a \<subseteq> {CHR '' ''}" and "set b \<subseteq> {CHR '' ''}"
  shows "trim (a @ s @ b) = s"
proof -
  have v: "visible_ascii (hd s)" "visible_ascii (hd (rev s))"
    using assms(1,2) by (simp_all add: hd_rev)
  have "\<forall>p\<in>set white_space. p \<noteq> [] \<and> hd p \<noteq> hd (s @ b)"
    using white_space_hd v(1) assms(2) by (metis hd_append)
  then have "trim_with white_space (a @ s @ b) = s @ b"
    using assms(2,3) by (simp add: trim_with_blanks strip_blank trim_with_done strip_any_first)
  moreover have "\<forall>p\<in>set (map rev white_space). p \<noteq> [] \<and> hd p \<noteq> hd (rev s)"
    using white_space_last v(2) by (auto simp: hd_rev)
  then have "trim_with (map rev white_space) (rev b @ rev s) = rev s"
    using assms(2,4) by (simp add: trim_with_blanks strip_blank trim_with_done strip_any_first del: set_map)
  ultimately show ?thesis by (simp add: trim_def)
qed

fun digits_of :: "nat \<Rightarrow> string" where
  "digits_of n = (if n < 10 then [char_of (48 + n)] else digits_of (n div 10) @ [char_of (48 + n mod 10)])"

declare digits_of.simps [simp del]

section \<open>Tables\<close>

text \<open>A table is the list of its rows, oldest first. \<open>update_where P f\<close> is
  \<open>UPDATE \<dots> SET f WHERE P\<close>.\<close>

definition update_where :: "('a \<Rightarrow> bool) \<Rightarrow> ('a \<Rightarrow> 'a) \<Rightarrow> 'a list \<Rightarrow> 'a list" where
  "update_where P f rows = map (\<lambda>r. if P r then f r else r) rows"

lemma update_where_Nil [simp]: "update_where P f [] = []"
  by (simp add: update_where_def)

lemma update_where_Cons [simp]:
  "update_where P f (r # rows) = (if P r then f r else r) # update_where P f rows"
  by (simp add: update_where_def)

lemma update_where_append [simp]:
  "update_where P f (xs @ ys) = update_where P f xs @ update_where P f ys"
  by (simp add: update_where_def)

lemma length_update_where [simp]: "length (update_where P f rows) = length rows"
  by (simp add: update_where_def)

lemma map_update_where [table_simps]:
  "(\<And>r. g (f r) = g r) \<Longrightarrow> map g (update_where P f rows) = map g rows"
  by (induction rows) auto

lemma set_update_where:
  "set (update_where P f rows) = f ` {r \<in> set rows. P r} \<union> {r \<in> set rows. \<not> P r}"
  by (auto simp: update_where_def)

lemma update_where_none: "(\<And>r. r \<in> set rows \<Longrightarrow> \<not> P r) \<Longrightarrow> update_where P f rows = rows"
  by (induction rows) auto

lemma filter_update_where_same:
  "(\<And>r. Q (f r) = Q r) \<Longrightarrow> (\<And>r. Q r \<Longrightarrow> P r \<Longrightarrow> f r = r) \<Longrightarrow>
   filter Q (update_where P f rows) = filter Q rows"
  by (induction rows) auto

lemma in_update_where:
  "r' \<in> set (update_where P f rows) \<longleftrightarrow> (\<exists>r\<in>set rows. r' = (if P r then f r else r))"
  by (auto simp: update_where_def)

lemma filter_update_where_empty:
  "(\<And>r. P r \<Longrightarrow> \<not> Q (f r)) \<Longrightarrow> (\<And>r. Q r \<Longrightarrow> P r) \<Longrightarrow> filter Q (update_where P f rows) = []"
  by (induction rows) auto

lemma find_SomeD: "find P xs = Some x \<Longrightarrow> x \<in> set xs \<and> P x"
  by (auto simp: find_Some_iff)

section \<open>State machines\<close>

text \<open>A machine with an invariant: what holds at the start and is kept by every step holds in
  every state that can be reached.\<close>

locale machine =
  fixes init :: "'s \<Rightarrow> bool"
    and step :: "'s \<Rightarrow> 's \<Rightarrow> bool"
    and inv :: "'s \<Rightarrow> bool"
  assumes init_inv: "init s \<Longrightarrow> inv s"
    and step_inv: "inv s \<Longrightarrow> step s t \<Longrightarrow> inv t"
begin

lemma steps_inv: "step\<^sup>*\<^sup>* s t \<Longrightarrow> inv s \<Longrightarrow> inv t"
  by (induction rule: rtranclp_induct) (auto intro: step_inv)

lemma reachable_inv: "init s \<Longrightarrow> step\<^sup>*\<^sup>* s t \<Longrightarrow> inv t"
  using steps_inv init_inv by blast

end

text \<open>A machine whose steps are steps of another one, seen through \<open>view\<close>.\<close>

locale simulation = machine init step inv
  for init :: "'s \<Rightarrow> bool" and step :: "'s \<Rightarrow> 's \<Rightarrow> bool" and inv :: "'s \<Rightarrow> bool" +
  fixes astep :: "'a \<Rightarrow> 'a \<Rightarrow> bool"
    and view :: "'s \<Rightarrow> 'a"
  assumes step_sim: "inv s \<Longrightarrow> step s t \<Longrightarrow> astep (view s) (view t)"
begin

lemma steps_sim: "step\<^sup>*\<^sup>* s t \<Longrightarrow> inv s \<Longrightarrow> astep\<^sup>*\<^sup>* (view s) (view t)"
proof (induction rule: rtranclp_induct)
  case (step t u)
  have "inv t" by (rule steps_inv [OF step.hyps(1) step.prems])
  with step show ?case by (auto intro: step_sim rtranclp.rtrancl_into_rtrancl)
qed simp

lemma reachable_sim: "init s \<Longrightarrow> step\<^sup>*\<^sup>* s t \<Longrightarrow> astep\<^sup>*\<^sup>* (view s) (view t)"
  using steps_sim init_inv by blast

end

end
