(* ===== verification/Libraries.thy ===== *)
theory Libraries
  imports Prelude
begin

text \<open>
  The code the repository calls but does not contain: the crates \<open>sha2\<close>, \<open>hex\<close>, \<open>base64ct\<close>,
  \<open>subtle\<close>, \<open>serde_json\<close>, \<open>jsonwebtoken\<close>, \<open>url\<close>, \<open>uuid\<close>, \<open>getrandom\<close>, \<open>argon2\<close>,
  \<open>totp_rs\<close>, \<open>chrono\<close>, \<open>http\<close>, \<open>lettre\<close>, \<open>cookie\<close>, the connection to PostgreSQL and the
  Unicode tables of the standard library. Each call is a field of the record \<open>lib\<close>, and the
  definitions of the other theories take such a record as an argument. The data types of those
  crates that the sources take apart are declared here with the members the sources use.

  A call that draws randomness, a call that can fail for reasons outside the program, and a
  round trip to the database take the number of the draw or of the call as an argument, so
  that each one has its own outcome.

  What the program relies on is stated as laws in locales, one per crate, which the
  properties assume by name. The theory \<open>Reference_Libs\<close> holds one concrete choice of every
  function, \<open>ref_lib\<close>, and interprets the locales on it.
\<close>

section \<open>Data of the crates\<close>

subsection \<open>JSON values (serde\_json)\<close>

text \<open>An object keeps its members in the order of the text, duplicates included; a number that
  is not an integer is kept as its text.\<close>

datatype json =
    JNull
  | JBool bool
  | JNum int
  | JFloat string
  | JStr string
  | JArr "json list"
  | JObj "(string \<times> json) list"

type_synonym members = "(string \<times> json) list"

text \<open>\<open>Value::get\<close> with a string index and \<open>Value::as_object\<close>. The members stand in the order of the
  text; of a repeated one \<open>Value\<close> keeps the last.\<close>

fun json_get :: "json \<Rightarrow> string \<Rightarrow> json option" where
  "json_get (JObj ms) k = map_of (rev ms) k"
| "json_get _ k = None"

fun as_object :: "json \<Rightarrow> members option" where
  "as_object (JObj ms) = Some ms"
| "as_object _ = None"

definition contains_key :: "members \<Rightarrow> string \<Rightarrow> bool" where
  "contains_key ms k \<longleftrightarrow> k \<in> set (map fst ms)"

subsection \<open>JSON Web Tokens (jsonwebtoken)\<close>

datatype algorithm =
  HS256 | HS384 | HS512 | ES256 | ES384 | RS256 | RS384 | RS512 | PS256 | PS384 | PS512 | EdDSA

instantiation algorithm :: enum
begin

definition enum_algorithm :: "algorithm list" where
  "enum_algorithm = [HS256, HS384, HS512, ES256, ES384, RS256, RS384, RS512, PS256, PS384, PS512, EdDSA]"

definition enum_all_algorithm :: "(algorithm \<Rightarrow> bool) \<Rightarrow> bool" where
  "enum_all_algorithm P = list_all P enum_class.enum"

definition enum_ex_algorithm :: "(algorithm \<Rightarrow> bool) \<Rightarrow> bool" where
  "enum_ex_algorithm P = list_ex P enum_class.enum"

instance
proof
  show all: "(UNIV :: algorithm set) = set enum_class.enum"
  proof (rule set_eqI)
    show "a \<in> UNIV \<longleftrightarrow> a \<in> set enum_class.enum" for a :: algorithm
      by (cases a) (simp_all add: enum_algorithm_def)
  qed
  show "distinct (enum_class.enum :: algorithm list)" by (simp add: enum_algorithm_def)
  show "enum_class.enum_all P = Ball (UNIV :: algorithm set) P" for P
    by (simp add: all enum_all_algorithm_def list_all_iff)
  show "enum_class.enum_ex P = Bex (UNIV :: algorithm set) P" for P
    by (simp add: all enum_ex_algorithm_def list_ex_iff)
qed

end

fun algorithm_debug :: "algorithm \<Rightarrow> string" where
  "algorithm_debug HS256 = ''HS256''"
| "algorithm_debug HS384 = ''HS384''"
| "algorithm_debug HS512 = ''HS512''"
| "algorithm_debug ES256 = ''ES256''"
| "algorithm_debug ES384 = ''ES384''"
| "algorithm_debug RS256 = ''RS256''"
| "algorithm_debug RS384 = ''RS384''"
| "algorithm_debug RS512 = ''RS512''"
| "algorithm_debug PS256 = ''PS256''"
| "algorithm_debug PS384 = ''PS384''"
| "algorithm_debug PS512 = ''PS512''"
| "algorithm_debug EdDSA = ''EdDSA''"

datatype key_operations =
    Sign | Verify | Encrypt | Decrypt | WrapKey | UnwrapKey | DeriveKey | DeriveBits
  | OtherOp string

datatype algorithm_parameters =
    EllipticCurve string
  | RSA string
  | OctetKey string
  | OctetKeyPair string

record jwk =
  key_operations :: "key_operations list option"
  jwk_algorithm :: algorithm_parameters

record jwt_header =
  header_typ :: "string option"
  alg :: algorithm
  jwk_member :: "jwk option"

datatype encoding_key = EncodingKey string
datatype decoding_key = DecodingKey string

datatype error_kind = ExpiredSignature | ImmatureSignature | OtherKind

datatype jwt_error = JwtError (jwt_error_kind: error_kind) (jwt_error_msg: string)

record validation =
  v_algorithm :: algorithm
  validate_exp :: bool
  validate_aud :: bool
  required_spec_claims :: "string list"
  leeway :: u64
  v_iss :: "string list option"
  v_aud :: "string list option"

subsection \<open>URLs, identifiers, one-time passwords, cookies\<close>

record url =
  scheme :: string
  host_str :: "string option"
  port :: "nat option"
  url_path :: string

type_synonym uuid = nat

text \<open>The values that a \<open>Debug\<close> implementation hands to \<open>debug_struct\<close>; the library renders them.\<close>

datatype debug_value =
    DText string | DPort "16 word" | DOpt "string option" | DTexts "string list" | DBool bool
  | DUuid uuid | DTime timestamp | DOptTime "timestamp option"

record totp =
  totp_algorithm :: string
  totp_digits :: nat
  totp_skew :: nat
  totp_step :: nat
  totp_key :: string
  totp_account_name :: string
  totp_issuer :: "string option"

datatype same_site_attr = CookieStrict | CookieLax | CookieNone

record cookie =
  c_name :: string
  c_value :: string
  c_path :: "string option"
  c_secure :: "bool option"
  c_http_only :: "bool option"
  c_same_site :: "same_site_attr option"
  c_max_age :: "int option"

subsection \<open>The database driver (sqlx)\<close>

text \<open>\<open>sqlx::Error::Database\<close> with the answer of \<open>is_unique_violation\<close>, or any other
  error; both carry the text of \<open>to_string\<close>.\<close>

datatype sqlx_error = DatabaseError bool string | OtherError string

fun sqlx_to_string :: "sqlx_error \<Rightarrow> string" where
  "sqlx_to_string (DatabaseError u m) = m"
| "sqlx_to_string (OtherError m) = m"

section \<open>The calls\<close>

record lib =
  sha256 :: "string \<Rightarrow> string"
  hex_encode :: "string \<Rightarrow> string"
  base64url_encode :: "string \<Rightarrow> string"
  base64url_decode :: "string \<Rightarrow> string option"
  ct_eq :: "string \<Rightarrow> string \<Rightarrow> bool"
  json_from_slice :: "string \<Rightarrow> json option"
  jwt_header_new :: "algorithm \<Rightarrow> jwt_header"
  decode_header :: "string \<Rightarrow> string + jwt_header"
  jwk_thumbprint :: "jwk \<Rightarrow> string option"
  decoding_key_from_jwk :: "jwk \<Rightarrow> string + decoding_key"
  encoding_key_from_secret :: "string \<Rightarrow> encoding_key"
  decoding_key_from_secret :: "string \<Rightarrow> decoding_key"
  validation_new :: "algorithm \<Rightarrow> validation"
  jwt_encode :: "jwt_header \<Rightarrow> members \<Rightarrow> encoding_key \<Rightarrow> string + string"
  jwt_decode ::
    "u64 \<Rightarrow> (members \<Rightarrow> string option) \<Rightarrow> string \<Rightarrow> decoding_key \<Rightarrow> validation \<Rightarrow> jwt_error + members"
  url_parse :: "string \<Rightarrow> url option"
  new_v4 :: "nat \<Rightarrow> uuid"
  uuid_to_string :: "uuid \<Rightarrow> string"
  getrandom :: "nat \<Rightarrow> nat \<Rightarrow> string + string"
  argon2_hash :: "nat \<Rightarrow> string \<Rightarrow> string + string"
  phc_parse :: "string \<Rightarrow> string option"
  argon2_verify :: "string \<Rightarrow> string \<Rightarrow> bool"
  spawn_blocking_fault :: "nat \<Rightarrow> string option"
  secret_try_from_base32 :: "string \<Rightarrow> string + string"
  secret_to_base32 :: "string \<Rightarrow> string"
  secret_generate :: "nat \<Rightarrow> string"
  totp_build_fault :: "totp \<Rightarrow> string option"
  totp_to_url :: "totp \<Rightarrow> string + string"
  totp_check :: "totp \<Rightarrow> string \<Rightarrow> nat \<Rightarrow> bool"
  chrono_plus_seconds :: "timestamp \<Rightarrow> int \<Rightarrow> timestamp option"
  header_value_ok :: "string \<Rightarrow> bool"
  header_to_str :: "string \<Rightarrow> string option"
  to_lowercase :: "string \<Rightarrow> string"
  cookie_encoded :: "cookie \<Rightarrow> string"
  cookie_split_parse :: "string \<Rightarrow> (string \<times> string) option list"
  db_fault :: "nat \<Rightarrow> sqlx_error option"
  pg_lower :: "string \<Rightarrow> string"
  pg_uuid :: "nat \<Rightarrow> uuid"

text \<open>
  \<open>jwt_decode L now de token key v\<close> is \<open>jsonwebtoken::decode::<T>\<close> at Unix time \<open>now\<close>:
  \<open>de\<close> stands for the \<open>Deserialize\<close> implementation of \<open>T\<close> (\<open>None\<close> when the payload has the
  shape of \<open>T\<close>, otherwise the message of the error), and a successful call returns the
  members of the payload, from which the typed value is built. \<open>decode_as\<close> is that typed call.
\<close>

definition de_error :: "('m \<Rightarrow> string + 'a) \<Rightarrow> 'm \<Rightarrow> string option" where
  "de_error de m = (case de m of Inl e \<Rightarrow> Some e | Inr a \<Rightarrow> None)"

definition decode_as ::
    "lib \<Rightarrow> u64 \<Rightarrow> (members \<Rightarrow> string + 'a) \<Rightarrow> string \<Rightarrow> decoding_key \<Rightarrow> validation \<Rightarrow> jwt_error + 'a" where
  "decode_as L now de token key v =
     (case jwt_decode L now (de_error de) token key v of
        Inl e \<Rightarrow> Inl e
      | Inr m \<Rightarrow> (case de m of Inl e \<Rightarrow> Inl (JwtError OtherKind e) | Inr a \<Rightarrow> Inr a))"

section \<open>Laws\<close>

text \<open>The comparison of \<open>subtle\<close> decides equality.\<close>

locale subtle_laws =
  fixes L :: lib
  assumes ct_eq_iff: "ct_eq L a b \<longleftrightarrow> a = b"

text \<open>A SHA-256 digest has 32 bytes, and base64 without padding writes four characters for
  three bytes.\<close>

locale digest_laws =
  fixes L :: lib
  assumes sha256_length: "length (sha256 L s) = 32"
    and base64url_length: "length (base64url_encode L s) = (4 * length s + 2) div 3"

text \<open>\<open>hex::encode\<close> writes two lower-case hexadecimal digits per byte.\<close>

locale hex_laws =
  fixes L :: lib
  assumes hex_length: "length (hex_encode L s) = 2 * length s"
    and hex_digits: "c \<in> set (hex_encode L s) \<Longrightarrow> is_ascii_hexdigit c \<and> ascii_lower c = c"

text \<open>\<open>getrandom::fill\<close> fills the whole buffer it is given.\<close>

locale getrandom_laws =
  fixes L :: lib
  assumes getrandom_length: "getrandom L i n = Inr bs \<Longrightarrow> length bs = n"

text \<open>Two random UUIDs of different draws are different.\<close>

locale uuid_laws =
  fixes L :: lib
  assumes new_v4_inj: "new_v4 L i = new_v4 L j \<Longrightarrow> i = j"

text \<open>Lower-casing ASCII text in Rust, and \<open>LOWER\<close> of PostgreSQL on text that is lower-case
  already.\<close>

locale lowercase_laws =
  fixes L :: lib
  assumes lower_ascii: "is_ascii s \<Longrightarrow> to_lowercase L s = map ascii_lower s"
    and pg_lower_lower: "pg_lower L (to_lowercase L s) = to_lowercase L s"

text \<open>Adding a number of seconds to a point in time is exact where it does not leave chrono's
  range (then the call panics).\<close>

locale chrono_laws =
  fixes L :: lib
  assumes plus_seconds: "chrono_plus_seconds L t n = Some t' \<Longrightarrow> t' = t + n * int NANOS_PER_SEC"

text \<open>A password verifies against the hash made of it, and such a hash is a PHC string.\<close>

locale argon2_laws =
  fixes L :: lib
  assumes hash_parses: "argon2_hash L i p = Inr h \<Longrightarrow> phc_parse L h = None"
    and hash_verifies: "argon2_hash L i p = Inr h \<Longrightarrow> argon2_verify L p h"

text \<open>A one-time password is accepted when it is the code of a time step that is at most the
  tolerated number of steps away; \<open>code_at\<close> is the code of a step. A secret survives its base32
  rendering.\<close>

locale totp_laws =
  fixes L :: lib and code_at :: "totp \<Rightarrow> nat \<Rightarrow> string"
  assumes check_window:
      "totp_check L t code now \<longleftrightarrow>
         (\<exists>k. now div totp_step t \<le> k + totp_skew t \<and> k \<le> now div totp_step t + totp_skew t \<and> code = code_at t k)"
    and base32_round_trip: "secret_try_from_base32 L (secret_to_base32 L s) = Inr s"

text \<open>
  jsonwebtoken: what the library encodes it decodes again with the matching key under a
  validation that accepts the algorithm. Before the typed value is built the signature is
  checked, after it \<open>exp\<close>, \<open>iss\<close> and \<open>aud\<close> of the payload. \<open>key_pair\<close> says which keys
  belong together. The check of \<open>exp\<close> is \<open>exp + leeway < now \<Longrightarrow> ExpiredSignature\<close>, without
  overflow.
\<close>

definition exp_ok :: "u64 \<Rightarrow> validation \<Rightarrow> members \<Rightarrow> bool" where
  "exp_ok now v m \<longleftrightarrow>
     (validate_exp v \<longrightarrow>
        (case map_of m ''exp'' of
           Some (JNum e) \<Rightarrow> int (unat now) \<le> e + int (unat (leeway v))
         | _ \<Rightarrow> False))"

definition iss_ok :: "validation \<Rightarrow> members \<Rightarrow> bool" where
  "iss_ok v m \<longleftrightarrow>
     (case v_iss v of None \<Rightarrow> True
      | Some allowed \<Rightarrow> (case map_of m ''iss'' of Some (JStr i) \<Rightarrow> i \<in> set allowed | _ \<Rightarrow> False))"

definition aud_ok :: "validation \<Rightarrow> members \<Rightarrow> bool" where
  "aud_ok v m \<longleftrightarrow>
     (validate_aud v \<longrightarrow>
        (case v_aud v of None \<Rightarrow> map_of m ''aud'' = None
         | Some allowed \<Rightarrow> (case map_of m ''aud'' of Some (JStr a) \<Rightarrow> a \<in> set allowed | _ \<Rightarrow> False)))"

locale jwt_laws =
  fixes L :: lib and key_pair :: "encoding_key \<Rightarrow> decoding_key \<Rightarrow> bool"
  assumes header_new_alg: "alg (jwt_header_new L a) = a"
    and validation_new_alg: "v_algorithm (validation_new L a) = a"
    and validation_new_aud: "validate_aud (validation_new L a)"
    and validation_new_required: "set (required_spec_claims (validation_new L a)) \<subseteq> {''exp''}"
    and secret_pair: "key_pair (encoding_key_from_secret L s) (decoding_key_from_secret L s)"
    and decode_encode_ok:
      "\<lbrakk> jwt_encode L h m ek = Inr t; key_pair ek dk; v_algorithm v = alg h; de m = None;
         set (required_spec_claims v) \<subseteq> set (map fst m);
         exp_ok now v m; iss_ok v m; aud_ok v m \<rbrakk> \<Longrightarrow> jwt_decode L now de t dk v = Inr m"
    and decode_encode_shape:
      "\<lbrakk> jwt_encode L h m ek = Inr t; jwt_decode L now de t dk v = Inr m' \<rbrakk> \<Longrightarrow> m' = m \<and> de m = None"
    and decode_encode_expired:
      "\<lbrakk> jwt_encode L h m ek = Inr t; key_pair ek dk; v_algorithm v = alg h; de m = None;
         set (required_spec_claims v) \<subseteq> set (map fst m); \<not> exp_ok now v m \<rbrakk> \<Longrightarrow>
         \<exists>msg. jwt_decode L now de t dk v = Inl (JwtError ExpiredSignature msg)"

end
