(* ===== verification/Errors.thy ===== *)
theory Errors
  imports Libraries
begin

text \<open>
  \<open>error.rs\<close>, \<open>store/error.rs\<close> and the error type of \<open>email.rs\<close>: the reasons for a rejection,
  their texts, the conversions that the operator \<open>?\<close> applies, and the HTTP responses they
  become. A response holds the status, the headers the library sets and the body.
\<close>

section \<open>Rejections of the DPoP layer\<close>

datatype dpop_error =
    MissingHeader
  | InvalidTyp string
  | InvalidAlgorithm string
  | InvalidSignature string
  | HtmMismatch (htm_expected: string) (htm_got: string)
  | HtuMismatch
  | JtiReplay
  | Expired
  | TokenNonceRequired string
  | ResourceNonceRequired string
  | Internal string

fun dpop_error_to_string :: "dpop_error \<Rightarrow> string" where
  "dpop_error_to_string MissingHeader = ''missing DPoP header''"
| "dpop_error_to_string (InvalidTyp t) = ''invalid typ: expected dpop+jwt, got '' @ t"
| "dpop_error_to_string (InvalidAlgorithm a) = ''symmetric or unsupported algorithm: '' @ a"
| "dpop_error_to_string (InvalidSignature m) = ''proof signature or structure invalid: '' @ m"
| "dpop_error_to_string (HtmMismatch e g) = ''htm mismatch: expected '' @ e @ '', got '' @ g"
| "dpop_error_to_string HtuMismatch = ''htu mismatch or invalid URI''"
| "dpop_error_to_string JtiReplay = ''jti replay detected''"
| "dpop_error_to_string Expired = ''proof expired (iat out of window)''"
| "dpop_error_to_string (TokenNonceRequired n) = ''nonce required on token endpoint''"
| "dpop_error_to_string (ResourceNonceRequired n) = ''nonce required on protected resource''"
| "dpop_error_to_string (Internal m) = ''internal error: '' @ m"

section \<open>Responses\<close>

datatype body = EmptyBody | Text string | JsonBody json

record response =
  status :: nat
  resp_headers :: "(string \<times> string) list"
  resp_body :: body

definition BAD_REQUEST :: nat where "BAD_REQUEST = 400"
definition UNAUTHORIZED :: nat where "UNAUTHORIZED = 401"
definition FORBIDDEN :: nat where "FORBIDDEN = 403"
definition CONFLICT :: nat where "CONFLICT = 409"
definition INTERNAL_SERVER_ERROR :: nat where "INTERNAL_SERVER_ERROR = 500"

lemmas status_defs = BAD_REQUEST_def UNAUTHORIZED_def FORBIDDEN_def CONFLICT_def
  INTERNAL_SERVER_ERROR_def

definition response_of :: "nat \<Rightarrow> body \<Rightarrow> response" where
  "response_of st b = \<lparr> status = st, resp_headers = [], resp_body = b \<rparr>"

text \<open>\<open>HeaderMap::insert\<close> replaces what the name had; names are in lower case, as \<open>http\<close>
  normalises them.\<close>

definition header_insert :: "string \<Rightarrow> string \<Rightarrow> response \<Rightarrow> response" where
  "header_insert k v r =
     r\<lparr>resp_headers := filter (\<lambda>(k', _). k' \<noteq> k) (resp_headers r) @ [(k, v)]\<rparr>"

definition resp_header :: "response \<Rightarrow> string \<Rightarrow> string option" where
  "resp_header r k = map_of (resp_headers r) k"

lemma map_of_filter_neq:
  "map_of (filter (\<lambda>(k', _). k' \<noteq> k) xs) j = (if j = k then None else map_of xs j)"
  by (induction xs) auto

lemma resp_header_insert [simp]:
  "resp_header (header_insert k v r) j = (if j = k then Some v else resp_header r j)"
  by (simp add: resp_header_def header_insert_def map_add_def map_of_filter_neq
      split: option.splits)

lemma header_insert_keeps [simp]:
  "status (header_insert k v r) = status r" "resp_body (header_insert k v r) = resp_body r"
  by (simp_all add: header_insert_def)

lemma response_of_simps [simp]:
  "status (response_of st b) = st" "resp_body (response_of st b) = b"
  "resp_header (response_of st b) k = None"
  by (simp_all add: response_of_def resp_header_def)

definition DPOP_NONCE :: string where "DPOP_NONCE = ''dpop-nonce''"
definition WWW_AUTHENTICATE :: string where "WWW_AUTHENTICATE = ''www-authenticate''"
definition ACCESS_CONTROL_EXPOSE_HEADERS :: string where
  "ACCESS_CONTROL_EXPOSE_HEADERS = ''access-control-expose-headers''"
definition EXPOSE_HEADERS :: string where "EXPOSE_HEADERS = ''DPoP-Nonce, WWW-Authenticate''"

definition dquote :: string where "dquote = [char_of (34 :: nat)]"

definition CHALLENGE_INVALID :: string where
  "CHALLENGE_INVALID = ''DPoP error='' @ dquote @ ''invalid_dpop_proof'' @ dquote"
definition CHALLENGE_NONCE :: string where
  "CHALLENGE_NONCE = ''DPoP error='' @ dquote @ ''use_dpop_nonce'' @ dquote"

lemmas header_name_defs = DPOP_NONCE_def WWW_AUTHENTICATE_def ACCESS_CONTROL_EXPOSE_HEADERS_def

definition insert_nonce :: "lib \<Rightarrow> response \<Rightarrow> string \<Rightarrow> response" where
  "insert_nonce L resp nonce =
     (if header_value_ok L nonce then header_insert DPOP_NONCE nonce resp else resp)"

definition expose :: "response \<Rightarrow> response" where
  "expose resp = header_insert ACCESS_CONTROL_EXPOSE_HEADERS EXPOSE_HEADERS resp"

text \<open>A JSON text with the given string members.\<close>

definition json_pair :: "string \<Rightarrow> string \<Rightarrow> string" where
  "json_pair k v = dquote @ k @ dquote @ '':'' @ dquote @ v @ dquote"

fun dpop_into_response :: "lib \<Rightarrow> dpop_error \<Rightarrow> response" where
  "dpop_into_response L (TokenNonceRequired nonce) =
     expose (insert_nonce L
       (response_of BAD_REQUEST
          (Text (''{'' @ json_pair ''error'' ''use_dpop_nonce'' @ '','' @
                 json_pair ''error_description'' ''DPoP proof requires a nonce'' @ ''}''))) nonce)"
| "dpop_into_response L (ResourceNonceRequired nonce) =
     expose (insert_nonce L
       (header_insert WWW_AUTHENTICATE CHALLENGE_NONCE (response_of UNAUTHORIZED EmptyBody)) nonce)"
| "dpop_into_response L (Internal m) =
     response_of INTERNAL_SERVER_ERROR (Text (''{'' @ json_pair ''error'' ''internal_error'' @ ''}''))"
| "dpop_into_response L e =
     expose (header_insert WWW_AUTHENTICATE CHALLENGE_INVALID (response_of UNAUTHORIZED EmptyBody))"

section \<open>Errors of the service\<close>

datatype service_error =
    Unauthorized
  | Conflict string
  | RegistrationDisabled
  | Validation string
  | ServiceInternal string

fun service_error_to_string :: "service_error \<Rightarrow> string" where
  "service_error_to_string Unauthorized = ''invalid credentials''"
| "service_error_to_string (Conflict m) = ''conflict: '' @ m"
| "service_error_to_string RegistrationDisabled = ''registration is disabled''"
| "service_error_to_string (Validation m) = ''validation failed: '' @ m"
| "service_error_to_string (ServiceInternal m) = ''internal error: '' @ m"

definition service_from_sqlx :: "sqlx_error \<Rightarrow> service_error" where
  "service_from_sqlx e = ServiceInternal (sqlx_to_string e)"

definition service_from_dpop :: "dpop_error \<Rightarrow> service_error" where
  "service_from_dpop e = ServiceInternal (dpop_error_to_string e)"

definition service_into_response :: "service_error \<Rightarrow> response" where
  "service_into_response e =
     (let (st, message) =
        (case e of
           Unauthorized \<Rightarrow> (UNAUTHORIZED, ''invalid credentials'')
         | Conflict msg \<Rightarrow> (CONFLICT, msg)
         | RegistrationDisabled \<Rightarrow> (FORBIDDEN, ''registration is disabled'')
         | Validation msg \<Rightarrow> (BAD_REQUEST, msg)
         | ServiceInternal msg \<Rightarrow> (INTERNAL_SERVER_ERROR, ''internal error''))
      in response_of st (JsonBody (JObj [(''error'', JStr message)])))"

section \<open>Errors of the mailer\<close>

datatype email_error = Build string | Send string | EmailInternal string

fun email_error_to_string :: "email_error \<Rightarrow> string" where
  "email_error_to_string (Build m) = ''failed to build email: '' @ m"
| "email_error_to_string (Send m) = ''failed to send email: '' @ m"
| "email_error_to_string (EmailInternal m) = ''internal error: '' @ m"

definition email_from_sqlx :: "sqlx_error \<Rightarrow> email_error" where
  "email_from_sqlx e = EmailInternal (sqlx_to_string e)"

section \<open>What the responses tell a client\<close>

text \<open>Every rejection of the DPoP layer becomes a response whose status is 400 for a nonce
  challenge of a token endpoint, 500 for an internal error and 401 otherwise; a nonce is
  handed out by the two nonce challenges only, and by those whenever it is a legal header
  value; a 401 always carries a DPoP challenge, which asks for a nonce exactly when the
  resource requires one; and no response shows the message of an internal error.\<close>

theorem dpop_response_contract:
  "(case e of
      TokenNonceRequired n \<Rightarrow>
        status (dpop_into_response L e) = 400 \<and>
        resp_header (dpop_into_response L e) DPOP_NONCE =
          (if header_value_ok L n then Some n else None)
    | ResourceNonceRequired n \<Rightarrow>
        status (dpop_into_response L e) = 401 \<and>
        resp_header (dpop_into_response L e) DPOP_NONCE =
          (if header_value_ok L n then Some n else None) \<and>
        resp_header (dpop_into_response L e) WWW_AUTHENTICATE = Some CHALLENGE_NONCE
    | Internal m \<Rightarrow>
        status (dpop_into_response L e) = 500 \<and>
        dpop_into_response L e = dpop_into_response L (Internal [])
    | _ \<Rightarrow>
        status (dpop_into_response L e) = 401 \<and>
        resp_header (dpop_into_response L e) DPOP_NONCE = None \<and>
        resp_header (dpop_into_response L e) WWW_AUTHENTICATE = Some CHALLENGE_INVALID)"
  by (cases e) (simp_all add: expose_def insert_nonce_def status_defs header_name_defs)

end
