(* ===== verification/Reference_Libs.thy ===== *)
theory Reference_Libs
  imports Libraries
begin

text \<open>
  One concrete choice of every function in \<open>lib\<close>, and the interpretation of the law locales on
  it. Hexadecimal and base64url are the real encodings; a token has the three dot-separated
  base64url pieces of a JWS, with a self-delimiting text in the place of JSON and the key in the
  place of the signature; the digest pads or cuts to 32 bytes. The round-trip lemmas below are
  what evaluates a concrete token.
\<close>

section \<open>Hexadecimal and base64url\<close>

definition hex_digit :: "nat \<Rightarrow> char" where
  "hex_digit n = ''0123456789abcdef'' ! n"

definition ref_hex_encode :: "string \<Rightarrow> string" where
  "ref_hex_encode s =
     concat (map (\<lambda>c. [hex_digit (of_char c div 16), hex_digit (of_char c mod 16)]) s)"

definition base64url_alphabet :: string where
  "base64url_alphabet = ''ABCDEFGHIJKLMNOPQRSTUVWXYZabcdefghijklmnopqrstuvwxyz0123456789-_''"

definition sextet :: "nat \<Rightarrow> char" where
  "sextet n = base64url_alphabet ! n"

fun index_in :: "'a \<Rightarrow> 'a list \<Rightarrow> nat option" where
  "index_in x [] = None"
| "index_in x (y # ys) = (if x = y then Some 0 else map_option Suc (index_in x ys))"

definition of_sextet :: "char \<Rightarrow> nat option" where
  "of_sextet c = index_in c base64url_alphabet"

fun ref_base64url_encode :: "string \<Rightarrow> string" where
  "ref_base64url_encode [] = []"
| "ref_base64url_encode [x] =
     (let a = of_char x in [sextet (a div 4), sextet (a mod 4 * 16)])"
| "ref_base64url_encode [x, y] =
     (let a = of_char x; b = of_char y
      in [sextet (a div 4), sextet (a mod 4 * 16 + b div 16), sextet (b mod 16 * 4)])"
| "ref_base64url_encode (x # y # z # r) =
     (let a = of_char x; b = of_char y; c = of_char z
      in sextet (a div 4) # sextet (a mod 4 * 16 + b div 16) # sextet (b mod 16 * 4 + c div 64) #
         sextet (c mod 64) # ref_base64url_encode r)"

fun join_sextets :: "nat list \<Rightarrow> string option" where
  "join_sextets [] = Some []"
| "join_sextets [p, q] = Some [char_of (p * 4 + q div 16)]"
| "join_sextets [p, q, r] = Some [char_of (p * 4 + q div 16), char_of (q mod 16 * 16 + r div 4)]"
| "join_sextets (p # q # r # t # rest) =
     map_option (\<lambda>s. char_of (p * 4 + q div 16) # char_of (q mod 16 * 16 + r div 4) #
                     char_of (r mod 4 * 64 + t) # s) (join_sextets rest)"
| "join_sextets _ = None"

definition ref_base64url_decode :: "string \<Rightarrow> string option" where
  "ref_base64url_decode s =
     Option.bind (those (map of_sextet s)) join_sextets"

lemma index_in_nth: "distinct xs \<Longrightarrow> i < length xs \<Longrightarrow> index_in (xs ! i) xs = Some i"
proof (induction xs arbitrary: i)
  case (Cons x xs)
  show ?case
  proof (cases i)
    case (Suc j)
    with Cons.prems have "x \<noteq> xs ! j" by auto
    with Suc Cons show ?thesis by auto
  qed simp
qed simp

lemma alphabet_facts:
  "length base64url_alphabet = 64" "distinct base64url_alphabet" "CHR ''.'' \<notin> set base64url_alphabet"
  by (simp_all add: base64url_alphabet_def)

lemma of_sextet_sextet [simp]: "n < 64 \<Longrightarrow> of_sextet (sextet n) = Some n"
  by (simp add: of_sextet_def sextet_def index_in_nth alphabet_facts)

lemma sextet_not_dot: "n < 64 \<Longrightarrow> sextet n \<noteq> CHR ''.''"
  using alphabet_facts(3) by (metis alphabet_facts(1) nth_mem sextet_def)

lemma of_char_less: "(of_char c :: nat) < 256"
  using of_char_mod_256 [of c, where 'a = nat] by (metis mod_less_divisor zero_less_numeral)

lemma sextet_bounds:
  "(of_char c :: nat) div 4 < 64" "(of_char c :: nat) mod 64 < 64"
  "of_char c mod 4 * 16 + (of_char d :: nat) div 16 < 64"
  "of_char c mod 16 * 4 + (of_char d :: nat) div 64 < 64"
  "(of_char c :: nat) mod 4 * 16 < 64" "(of_char c :: nat) mod 16 * 4 < 64"
  using of_char_less [of c] of_char_less [of d] by linarith+

lemma digit_split: "r < n \<Longrightarrow> (k * n + r) div n = k \<and> (k * n + r) mod n = (r :: nat)"
  by simp

lemma div_bounds: "b < 256 \<Longrightarrow> b div 16 < 16" "b < 256 \<Longrightarrow> b div 64 < 4" for b :: nat
  by (simp_all add: less_mult_imp_div_less)

lemma join_first: "b < 256 \<Longrightarrow> a div 4 * 4 + (a mod 4 * 16 + b div 16) div 16 = (a :: nat)"
  using digit_split [of "b div 16" 16 "a mod 4"] div_bounds(1) [of b] by simp

lemma join_second:
  "b < 256 \<Longrightarrow> c < 256 \<Longrightarrow>
   (a mod 4 * 16 + b div 16) mod 16 * 16 + (b mod 16 * 4 + c div 64) div 4 = (b :: nat)"
  using digit_split [of "b div 16" 16 "a mod 4"] div_bounds(1) [of b]
    digit_split [of "c div 64" 4 "b mod 16"] div_bounds(2) [of c] by simp

lemma join_third: "c < 256 \<Longrightarrow> (b mod 16 * 4 + c div 64) mod 4 * 64 + c mod 64 = (c :: nat)"
  using digit_split [of "c div 64" 4 "b mod 16"] div_bounds(2) [of c] by simp

lemma base64url_round_trip: "ref_base64url_decode (ref_base64url_encode s) = Some s"
proof (induction s rule: ref_base64url_encode.induct)
  case (2 x)
  show ?case using join_first [of 0 "of_char x"]
    by (simp add: ref_base64url_decode_def sextet_bounds Let_def)
next
  case (3 x y)
  show ?case using join_first [of "of_char y" "of_char x"] join_second [of "of_char y" 0 "of_char x"]
    by (simp add: ref_base64url_decode_def sextet_bounds of_char_less Let_def)
next
  case (4 x y z r)
  have dec: "ref_base64url_decode (w # v # u # t # s) =
      (case (of_sextet w, of_sextet v, of_sextet u, of_sextet t) of
         (Some a, Some b, Some c, Some d) \<Rightarrow>
           map_option (\<lambda>q. char_of (a * 4 + b div 16) # char_of (b mod 16 * 16 + c div 4) #
                     char_of (c mod 4 * 64 + d) # q) (ref_base64url_decode s)
       | _ \<Rightarrow> None)" for w v u t s
    by (cases "those (map of_sextet s)")
      (auto simp: ref_base64url_decode_def split: option.splits)
  show ?case
    using 4 join_first [of "of_char y" "of_char x"]
      join_second [of "of_char y" "of_char z" "of_char x"] join_third [of "of_char z" "of_char y"]
    by (simp add: dec sextet_bounds of_char_less Let_def)
qed (simp add: ref_base64url_decode_def)

lemma base64url_no_dot: "CHR ''.'' \<notin> set (ref_base64url_encode s)"
  by (induction s rule: ref_base64url_encode.induct)
    (simp_all add: sextet_not_dot [THEN not_sym] sextet_bounds Let_def)

lemma ref_base64url_length: "length (ref_base64url_encode s) = (4 * length s + 2) div 3"
  by (induction s rule: ref_base64url_encode.induct) (simp_all add: Let_def)

lemma ref_hex_length: "length (ref_hex_encode s) = 2 * length s"
  by (induction s) (simp_all add: ref_hex_encode_def)

lemma hex_digit_ok: "n < 16 \<Longrightarrow> is_ascii_hexdigit (hex_digit n) \<and> ascii_lower (hex_digit n) = hex_digit n"
proof -
  have "\<forall>c\<in>set ''0123456789abcdef''. is_ascii_hexdigit c \<and> ascii_lower c = c"
    by (simp add: is_ascii_hexdigit_def ascii_lower_def)
  moreover assume "n < 16"
  then have "hex_digit n \<in> set ''0123456789abcdef''"
    unfolding hex_digit_def by (intro nth_mem) simp
  ultimately show ?thesis by blast
qed

lemma ref_hex_digits: "c \<in> set (ref_hex_encode s) \<Longrightarrow> is_ascii_hexdigit c \<and> ascii_lower c = c"
proof -
  assume "c \<in> set (ref_hex_encode s)"
  then obtain d where "c = hex_digit (of_char d div 16) \<or> c = hex_digit (of_char d mod 16)"
    by (auto simp: ref_hex_encode_def)
  moreover have "(of_char d :: nat) div 16 < 16" "(of_char d :: nat) mod 16 < 16"
    using div_bounds(1) [OF of_char_less [of d]] by simp_all
  ultimately show ?thesis by (metis hex_digit_ok)
qed

section \<open>A self-delimiting text for JSON values\<close>

fun put_str :: "string \<Rightarrow> string" where
  "put_str [] = ''0''"
| "put_str (c # s) = CHR ''1'' # c # put_str s"

fun get_str :: "string \<Rightarrow> (string \<times> string) option" where
  "get_str [] = None"
| "get_str [m] = (if m = CHR ''0'' then Some ([], []) else None)"
| "get_str (m # c # r) =
     (if m = CHR ''0'' then Some ([], c # r)
      else map_option (\<lambda>(s, q). (c # s, q)) (get_str r))"

lemma get_put_str [simp]: "get_str (put_str s @ r) = Some (s, r)"
proof (induction s)
  case Nil
  then show ?case by (cases r) simp_all
qed simp

fun put_bits :: "nat \<Rightarrow> string" where
  "put_bits n = (if n = 0 then [] else (if odd n then CHR ''1'' else CHR ''0'') # put_bits (n div 2))"

declare put_bits.simps [simp del]

fun get_bits :: "string \<Rightarrow> nat" where
  "get_bits [] = 0"
| "get_bits (c # s) = (if c = CHR ''1'' then 1 else 0) + 2 * get_bits s"

lemma get_put_bits [simp]: "get_bits (put_bits n) = n"
proof (induction n rule: put_bits.induct)
  case (1 n)
  then show ?case by (cases "n = 0") (simp_all add: put_bits.simps [of n] put_bits.simps [of 0] odd_two_times_div_two_succ)
qed

definition put_int :: "int \<Rightarrow> string" where
  "put_int i = (if i < 0 then CHR ''1'' else CHR ''0'') # put_str (put_bits (nat \<bar>i\<bar>))"

fun get_int :: "string \<Rightarrow> (int \<times> string) option" where
  "get_int [] = None"
| "get_int (c # r) =
     map_option (\<lambda>(b, q). ((if c = CHR ''1'' then - int (get_bits b) else int (get_bits b)), q)) (get_str r)"

lemma get_put_int [simp]: "get_int (put_int i @ r) = Some (i, r)"
  by (simp add: put_int_def)

fun put_json :: "json \<Rightarrow> string" where
  "put_json JNull = ''n''"
| "put_json (JBool b) = (if b then ''t'' else ''f'')"
| "put_json (JNum i) = ''i'' @ put_int i"
| "put_json (JFloat t) = ''d'' @ put_str t"
| "put_json (JStr t) = ''s'' @ put_str t"
| "put_json (JArr xs) = ''a'' @ concat (map (\<lambda>x. ''1'' @ put_json x) xs) @ ''0''"
| "put_json (JObj ms) = ''o'' @ concat (map (\<lambda>(k, v). ''1'' @ put_str k @ put_json v) ms) @ ''0''"

fun get_json :: "nat \<Rightarrow> string \<Rightarrow> (json \<times> string) option"
  and get_list :: "nat \<Rightarrow> string \<Rightarrow> (json list \<times> string) option"
  and get_members :: "nat \<Rightarrow> string \<Rightarrow> (members \<times> string) option" where
  "get_json (Suc n) (t # r) =
     (if t = CHR ''n'' then Some (JNull, r)
      else if t = CHR ''t'' then Some (JBool True, r)
      else if t = CHR ''f'' then Some (JBool False, r)
      else if t = CHR ''i'' then map_option (\<lambda>(i, q). (JNum i, q)) (get_int r)
      else if t = CHR ''d'' then map_option (\<lambda>(i, q). (JFloat i, q)) (get_str r)
      else if t = CHR ''s'' then map_option (\<lambda>(i, q). (JStr i, q)) (get_str r)
      else if t = CHR ''a'' then map_option (\<lambda>(xs, q). (JArr xs, q)) (get_list n r)
      else if t = CHR ''o'' then map_option (\<lambda>(ms, q). (JObj ms, q)) (get_members n r)
      else None)"
| "get_json _ _ = None"
| "get_list (Suc n) (t # r) =
     (if t = CHR ''0'' then Some ([], r)
      else Option.bind (get_json n r) (\<lambda>(x, q). map_option (\<lambda>(xs, q'). (x # xs, q')) (get_list n q)))"
| "get_list _ _ = None"
| "get_members (Suc n) (t # r) =
     (if t = CHR ''0'' then Some ([], r)
      else Option.bind (get_str r) (\<lambda>(k, p).
           Option.bind (get_json n p) (\<lambda>(x, q).
           map_option (\<lambda>(ms, q'). ((k, x) # ms, q')) (get_members n q))))"
| "get_members _ _ = None"

lemma put_json_not_Nil: "0 < length (put_json j)"
  by (cases j) simp_all

lemma get_put_list:
  assumes "\<And>x n r. x \<in> set xs \<Longrightarrow> length (put_json x) \<le> n \<Longrightarrow> get_json n (put_json x @ r) = Some (x, r)"
    and "length (concat (map (\<lambda>x. ''1'' @ put_json x) xs)) < n"
  shows "get_list n (concat (map (\<lambda>x. ''1'' @ put_json x) xs) @ CHR ''0'' # r) = Some (xs, r)"
  using assms
proof (induction xs arbitrary: n)
  case Nil
  then show ?case by (cases n) simp_all
next
  case (Cons x xs)
  from Cons.prems(2) obtain k where n: "n = Suc k" by (cases n) simp_all
  with Cons.prems(2) have k: "length (put_json x) \<le> k" "length (concat (map (\<lambda>x. ''1'' @ put_json x) xs)) < k"
    by simp_all
  show ?case
    using Cons.IH [OF Cons.prems(1) k(2)] Cons.prems(1) [of x k] k(1) n by simp
qed

lemma get_put_members:
  assumes "\<And>kv n r. kv \<in> set ms \<Longrightarrow> length (put_json (snd kv)) \<le> n \<Longrightarrow>
             get_json n (put_json (snd kv) @ r) = Some (snd kv, r)"
    and "length (concat (map (\<lambda>(k, v). ''1'' @ put_str k @ put_json v) ms)) < n"
  shows "get_members n (concat (map (\<lambda>(k, v). ''1'' @ put_str k @ put_json v) ms) @ CHR ''0'' # r) = Some (ms, r)"
  using assms
proof (induction ms arbitrary: n)
  case Nil
  then show ?case by (cases n) simp_all
next
  case (Cons kv ms)
  obtain k v where kv: "kv = (k, v)" by (cases kv)
  from Cons.prems(2) obtain m where n: "n = Suc m" by (cases n) simp_all
  with Cons.prems(2) kv have m: "length (put_json v) \<le> m"
    "length (concat (map (\<lambda>(k, v). ''1'' @ put_str k @ put_json v) ms)) < m"
    by simp_all
  show ?case
    using Cons.IH [OF Cons.prems(1) m(2)] Cons.prems(1) [of kv m] m(1) n kv by simp
qed

lemma get_put_json: "length (put_json j) \<le> n \<Longrightarrow> get_json n (put_json j @ r) = Some (j, r)"
proof (induction j arbitrary: n r)
  case (JArr xs)
  then obtain k where n: "n = Suc k" by (cases n) simp_all
  with JArr.prems have "length (concat (map (\<lambda>x. ''1'' @ put_json x) xs)) < k" by simp
  from get_put_list [OF JArr.IH this] n show ?case by simp
next
  case (JObj ms)
  then obtain k where n: "n = Suc k" by (cases n) simp_all
  with JObj.prems have k: "length (concat (map (\<lambda>(k, v). ''1'' @ put_str k @ put_json v) ms)) < k" by simp
  have "get_json m (put_json (snd kv) @ q) = Some (snd kv, q)"
    if "kv \<in> set ms" "length (put_json (snd kv)) \<le> m" for kv m q
    using JObj.IH [of kv "snd kv" m q] that by (simp add: snds.simps)
  from get_put_members [OF this k] n show ?case by simp
qed (case_tac [!] n, simp_all split: if_splits)

definition ref_json_from_slice :: "string \<Rightarrow> json option" where
  "ref_json_from_slice s = (case get_json (length s) s of Some (j, []) \<Rightarrow> Some j | _ \<Rightarrow> None)"

lemma json_round_trip: "ref_json_from_slice (put_json j) = Some j"
  using get_put_json [of j "length (put_json j)" "[]"] by (simp add: ref_json_from_slice_def)

section \<open>Tokens\<close>

definition algorithm_of_name :: "string \<Rightarrow> algorithm option" where
  "algorithm_of_name s =
     map_of (map (\<lambda>a. (algorithm_debug a, a)) enum_class.enum) s"

lemma algorithm_of_name_debug [simp]: "algorithm_of_name (algorithm_debug a) = Some a"
  by (cases a) (simp_all add: algorithm_of_name_def enum_algorithm_def)

fun op_json :: "key_operations \<Rightarrow> json" where
  "op_json Sign = JStr ''sign''"
| "op_json Verify = JStr ''verify''"
| "op_json Encrypt = JStr ''encrypt''"
| "op_json Decrypt = JStr ''decrypt''"
| "op_json WrapKey = JStr ''wrapKey''"
| "op_json UnwrapKey = JStr ''unwrapKey''"
| "op_json DeriveKey = JStr ''deriveKey''"
| "op_json DeriveBits = JStr ''deriveBits''"
| "op_json (OtherOp s) = JArr [JStr s]"

fun op_of_json :: "json \<Rightarrow> key_operations option" where
  "op_of_json (JStr s) =
     map_of [(''sign'', Sign), (''verify'', Verify), (''encrypt'', Encrypt), (''decrypt'', Decrypt),
             (''wrapKey'', WrapKey), (''unwrapKey'', UnwrapKey), (''deriveKey'', DeriveKey),
             (''deriveBits'', DeriveBits)] s"
| "op_of_json (JArr [JStr s]) = Some (OtherOp s)"
| "op_of_json _ = None"

lemma op_of_json_op [simp]: "op_of_json (op_json x) = Some x"
  by (cases x) simp_all

lemma those_ops [simp]: "those (map (op_of_json \<circ> op_json) ops) = Some ops"
  by (induction ops) simp_all

fun parameters_members :: "algorithm_parameters \<Rightarrow> members" where
  "parameters_members (EllipticCurve s) = [(''kty'', JStr ''EC''), (''x'', JStr s)]"
| "parameters_members (RSA s) = [(''kty'', JStr ''RSA''), (''x'', JStr s)]"
| "parameters_members (OctetKey s) = [(''kty'', JStr ''oct''), (''x'', JStr s)]"
| "parameters_members (OctetKeyPair s) = [(''kty'', JStr ''OKP''), (''x'', JStr s)]"

definition jwk_json :: "jwk \<Rightarrow> json" where
  "jwk_json k =
     JObj (parameters_members (jwk_algorithm k) @
       (case key_operations k of None \<Rightarrow> [] | Some ops \<Rightarrow> [(''key_ops'', JArr (map op_json ops))]))"

definition parameters_of :: "json \<Rightarrow> algorithm_parameters option" where
  "parameters_of j =
     (case (json_get j ''kty'', json_get j ''x'') of
        (Some (JStr t), Some (JStr s)) \<Rightarrow>
          map_of [(''EC'', EllipticCurve s), (''RSA'', RSA s), (''oct'', OctetKey s),
                  (''OKP'', OctetKeyPair s)] t
      | _ \<Rightarrow> None)"

definition ops_of :: "json \<Rightarrow> key_operations list option option" where
  "ops_of j =
     (case json_get j ''key_ops'' of
        None \<Rightarrow> Some None
      | Some (JArr xs) \<Rightarrow> map_option Some (those (map op_of_json xs))
      | _ \<Rightarrow> None)"

definition jwk_of_json :: "json \<Rightarrow> jwk option" where
  "jwk_of_json j =
     (case (parameters_of j, ops_of j) of
        (Some p, Some ops) \<Rightarrow> Some \<lparr> key_operations = ops, jwk_algorithm = p \<rparr>
      | _ \<Rightarrow> None)"

lemma jwk_round_trip [simp]: "jwk_of_json (jwk_json k) = Some k"
  by (cases "jwk_algorithm k"; cases "key_operations k")
    (simp_all add: jwk_of_json_def jwk_json_def parameters_of_def ops_of_def)

definition header_json :: "jwt_header \<Rightarrow> json" where
  "header_json h =
     JObj ([(''alg'', JStr (algorithm_debug (alg h)))] @
       (case header_typ h of None \<Rightarrow> [] | Some t \<Rightarrow> [(''typ'', JStr t)]) @
       (case jwk_member h of None \<Rightarrow> [] | Some k \<Rightarrow> [(''jwk'', jwk_json k)]))"

definition header_of_json :: "json \<Rightarrow> jwt_header option" where
  "header_of_json j =
     (case json_get j ''alg'' of
        Some (JStr a) \<Rightarrow>
          Option.bind (algorithm_of_name a) (\<lambda>al.
          Option.bind (case json_get j ''typ'' of None \<Rightarrow> Some None | Some (JStr t) \<Rightarrow> Some (Some t)
                       | _ \<Rightarrow> None) (\<lambda>ty.
          Option.bind (case json_get j ''jwk'' of None \<Rightarrow> Some None
                       | Some k \<Rightarrow> map_option Some (jwk_of_json k)) (\<lambda>k.
          Some \<lparr> header_typ = ty, alg = al, jwk_member = k \<rparr>)))
      | _ \<Rightarrow> None)"

lemma header_round_trip [simp]: "header_of_json (header_json h) = Some h"
  by (cases "header_typ h"; cases "jwk_member h") (simp_all add: header_of_json_def header_json_def)

definition piece :: "string \<Rightarrow> string" where
  "piece s = ref_base64url_encode s"

fun ref_jwt_encode :: "jwt_header \<Rightarrow> members \<Rightarrow> encoding_key \<Rightarrow> string + string" where
  "ref_jwt_encode h m (EncodingKey k) =
     Inr (piece (put_json (header_json h)) @ ''.'' @ piece (put_json (JObj m)) @ ''.'' @ piece k)"

definition unpiece_json :: "string \<Rightarrow> json option" where
  "unpiece_json s = Option.bind (ref_base64url_decode s) ref_json_from_slice"

definition ref_jwt_parts :: "string \<Rightarrow> (jwt_header \<times> members \<times> string) option" where
  "ref_jwt_parts t =
     (case split_on CHR ''.'' t of
        [h, p, k] \<Rightarrow>
          Option.bind (Option.bind (unpiece_json h) header_of_json) (\<lambda>hd.
          Option.bind (Option.bind (unpiece_json p) as_object) (\<lambda>m.
          Option.bind (ref_base64url_decode k) (\<lambda>key. Some (hd, m, key))))
      | _ \<Rightarrow> None)"

lemma split_pieces:
  "split_on CHR ''.'' (piece a @ ''.'' @ piece b @ ''.'' @ piece c) = [piece a, piece b, piece c]"
  using base64url_no_dot by (simp add: piece_def split_on_append split_on_no_sep)

lemma unpiece_json_piece [simp]: "unpiece_json (piece (put_json j)) = Some j"
  by (simp add: unpiece_json_def piece_def base64url_round_trip json_round_trip)

lemma ref_jwt_parts_encode:
  assumes "ref_jwt_encode h m (EncodingKey k) = Inr t"
  shows "ref_jwt_parts t = Some (h, m, k)"
proof -
  from assms have t: "t = piece (put_json (header_json h)) @ ''.'' @ piece (put_json (JObj m)) @ ''.'' @ piece k"
    by simp
  show ?thesis unfolding t
    by (simp add: ref_jwt_parts_def split_pieces del: append_Cons put_json.simps)
      (simp add: piece_def base64url_round_trip)
qed

definition ref_decode_header :: "string \<Rightarrow> string + jwt_header" where
  "ref_decode_header t =
     (case ref_jwt_parts t of Some (h, _, _) \<Rightarrow> Inr h | None \<Rightarrow> Inl ''InvalidToken'')"

fun ref_jwt_decode ::
    "u64 \<Rightarrow> (members \<Rightarrow> string option) \<Rightarrow> string \<Rightarrow> decoding_key \<Rightarrow> validation \<Rightarrow> jwt_error + members" where
  "ref_jwt_decode now de t (DecodingKey dk) v =
     (case ref_jwt_parts t of
        None \<Rightarrow> Inl (JwtError OtherKind ''InvalidToken'')
      | Some (h, m, k) \<Rightarrow>
          if alg h \<noteq> v_algorithm v then Inl (JwtError OtherKind ''InvalidAlgorithm'')
          else if k \<noteq> dk then Inl (JwtError OtherKind ''InvalidSignature'')
          else (case de m of
            Some e \<Rightarrow> Inl (JwtError OtherKind e)
          | None \<Rightarrow>
              if \<not> set (required_spec_claims v) \<subseteq> set (map fst m)
              then Inl (JwtError OtherKind ''Missing required claim'')
              else if \<not> exp_ok now v m then Inl (JwtError ExpiredSignature ''ExpiredSignature'')
              else if \<not> iss_ok v m then Inl (JwtError OtherKind ''InvalidIssuer'')
              else if \<not> aud_ok v m then Inl (JwtError OtherKind ''InvalidAudience'')
              else Inr m))"

section \<open>The other calls\<close>

definition ref_sha256 :: "string \<Rightarrow> string" where
  "ref_sha256 s = take 32 (s @ replicate 32 CHR 0x00)"

definition ref_phc_prefix :: string where
  "ref_phc_prefix = ''$argon2id$''"

definition ref_jwk_thumbprint :: "jwk \<Rightarrow> string option" where
  "ref_jwk_thumbprint k =
     Some (ref_base64url_encode (ref_sha256
       (case jwk_algorithm k of EllipticCurve s \<Rightarrow> s | RSA s \<Rightarrow> s | OctetKey s \<Rightarrow> s | OctetKeyPair s \<Rightarrow> s)))"

definition ref_decoding_key_from_jwk :: "jwk \<Rightarrow> string + decoding_key" where
  "ref_decoding_key_from_jwk k =
     Inr (DecodingKey
       (case jwk_algorithm k of EllipticCurve s \<Rightarrow> s | RSA s \<Rightarrow> s | OctetKey s \<Rightarrow> s | OctetKeyPair s \<Rightarrow> s))"

definition take_until :: "char list \<Rightarrow> string \<Rightarrow> string" where
  "take_until cs s = takeWhile (\<lambda>c. c \<notin> set cs) s"

definition ref_url :: "string \<Rightarrow> string \<Rightarrow> url" where
  "ref_url sch rest =
     (let h = take_until ''/?#'' rest; p = take_until ''?#'' (drop (length h) rest)
      in \<lparr> scheme = sch, host_str = Some (map ascii_lower h), port = None,
           url_path = (if p = [] then ''/'' else p) \<rparr>)"

definition ref_url_parse :: "string \<Rightarrow> url option" where
  "ref_url_parse s =
     (case strip_prefix ''https://'' s of
        Some r \<Rightarrow> Some (ref_url ''https'' r)
      | None \<Rightarrow> map_option (ref_url ''http'') (strip_prefix ''http://'' s))"

definition ref_cookie_encoded :: "cookie \<Rightarrow> string" where
  "ref_cookie_encoded c =
     c_name c @ ''='' @ c_value c @
     (if c_http_only c = Some True then ''; HttpOnly'' else []) @
     (case c_same_site c of Some CookieStrict \<Rightarrow> ''; SameSite=Strict''
      | Some CookieLax \<Rightarrow> ''; SameSite=Lax'' | Some CookieNone \<Rightarrow> ''; SameSite=None'' | None \<Rightarrow> []) @
     (if c_secure c = Some True then ''; Secure'' else []) @
     (case c_path c of Some p \<Rightarrow> ''; Path='' @ p | None \<Rightarrow> []) @
     (case c_max_age c of Some n \<Rightarrow> ''; Max-Age='' @ digits_of (nat n) | None \<Rightarrow> [])"

definition ref_cookie_split_parse :: "string \<Rightarrow> (string \<times> string) option list" where
  "ref_cookie_split_parse s =
     map (\<lambda>p. let name = dropWhile (\<lambda>c. c = CHR '' '') (take_until ''='' p);
                  rest = drop (length (take_until ''='' p)) p
              in if rest = [] then None else Some (name, drop 1 rest)) (split_on CHR '';'' s)"

definition ref_chrono_max :: int where
  "ref_chrono_max = 8210266876800 * int NANOS_PER_SEC"

definition ref_totp_code :: "totp \<Rightarrow> nat \<Rightarrow> string" where
  "ref_totp_code t k = totp_key t @ digits_of k"

definition ref_lib :: lib where
  "ref_lib =
     \<lparr> sha256 = ref_sha256,
       hex_encode = ref_hex_encode,
       base64url_encode = ref_base64url_encode,
       base64url_decode = ref_base64url_decode,
       ct_eq = (=),
       json_from_slice = ref_json_from_slice,
       jwt_header_new = (\<lambda>a. \<lparr> header_typ = Some ''JWT'', alg = a, jwk_member = None \<rparr>),
       decode_header = ref_decode_header,
       jwk_thumbprint = ref_jwk_thumbprint,
       decoding_key_from_jwk = ref_decoding_key_from_jwk,
       encoding_key_from_secret = EncodingKey,
       decoding_key_from_secret = DecodingKey,
       validation_new = (\<lambda>a. \<lparr> v_algorithm = a, validate_exp = True, validate_aud = True,
          required_spec_claims = [''exp''], leeway = 60, v_iss = None, v_aud = None \<rparr>),
       jwt_encode = ref_jwt_encode,
       jwt_decode = ref_jwt_decode,
       url_parse = ref_url_parse,
       new_v4 = (\<lambda>i. i),
       uuid_to_string = digits_of,
       getrandom = (\<lambda>i n. Inr (replicate n (char_of i))),
       argon2_hash = (\<lambda>i p. Inr (ref_phc_prefix @ p)),
       phc_parse = (\<lambda>h. if strip_prefix ref_phc_prefix h = None then Some ''invalid PHC string'' else None),
       argon2_verify = (\<lambda>p h. strip_prefix ref_phc_prefix h = Some p),
       spawn_blocking_fault = (\<lambda>i. None),
       secret_try_from_base32 = Inr,
       secret_to_base32 = (\<lambda>s. s),
       secret_generate = (\<lambda>i. replicate 20 (char_of i)),
       totp_build_fault = (\<lambda>t. None),
       totp_to_url = (\<lambda>t. Inr (''otpauth://totp/'' @ totp_account_name t @ ''?secret='' @ totp_key t)),
       totp_check = (\<lambda>t code now. code \<in> ref_totp_code t ` set [now div totp_step t - totp_skew t ..< now div totp_step t + totp_skew t + 1]),
       chrono_plus_seconds = (\<lambda>t n. let u = t + n * int NANOS_PER_SEC
          in if - ref_chrono_max \<le> u \<and> u \<le> ref_chrono_max then Some u else None),
       header_value_ok = (\<lambda>s. \<forall>c\<in>set s. visible_ascii c),
       header_to_str = (\<lambda>s. if \<forall>c\<in>set s. visible_ascii c \<or> c = CHR '' '' then Some s else None),
       to_lowercase = map ascii_lower,
       cookie_encoded = ref_cookie_encoded,
       cookie_split_parse = ref_cookie_split_parse,
       db_fault = (\<lambda>i. None),
       pg_lower = map ascii_lower,
       pg_uuid = (\<lambda>i. i) \<rparr>"

lemma ref_lib_simps [simp]:
  "sha256 ref_lib = ref_sha256" "hex_encode ref_lib = ref_hex_encode"
  "base64url_encode ref_lib = ref_base64url_encode" "base64url_decode ref_lib = ref_base64url_decode"
  "ct_eq ref_lib = (=)" "json_from_slice ref_lib = ref_json_from_slice"
  "jwt_header_new ref_lib = (\<lambda>a. \<lparr> header_typ = Some ''JWT'', alg = a, jwk_member = None \<rparr>)"
  "decode_header ref_lib = ref_decode_header" "jwk_thumbprint ref_lib = ref_jwk_thumbprint"
  "decoding_key_from_jwk ref_lib = ref_decoding_key_from_jwk"
  "encoding_key_from_secret ref_lib = EncodingKey" "decoding_key_from_secret ref_lib = DecodingKey"
  "validation_new ref_lib = (\<lambda>a. \<lparr> v_algorithm = a, validate_exp = True, validate_aud = True,
          required_spec_claims = [''exp''], leeway = 60, v_iss = None, v_aud = None \<rparr>)"
  "jwt_encode ref_lib = ref_jwt_encode" "jwt_decode ref_lib = ref_jwt_decode"
  "url_parse ref_lib = ref_url_parse" "new_v4 ref_lib = (\<lambda>i. i)" "uuid_to_string ref_lib = digits_of"
  "getrandom ref_lib = (\<lambda>i n. Inr (replicate n (char_of i)))"
  "argon2_hash ref_lib = (\<lambda>i p. Inr (ref_phc_prefix @ p))"
  "phc_parse ref_lib = (\<lambda>h. if strip_prefix ref_phc_prefix h = None then Some ''invalid PHC string'' else None)"
  "argon2_verify ref_lib = (\<lambda>p h. strip_prefix ref_phc_prefix h = Some p)"
  "spawn_blocking_fault ref_lib = (\<lambda>i. None)" "secret_try_from_base32 ref_lib = Inr"
  "secret_to_base32 ref_lib = (\<lambda>s. s)" "secret_generate ref_lib = (\<lambda>i. replicate 20 (char_of i))"
  "totp_build_fault ref_lib = (\<lambda>t. None)"
  "totp_to_url ref_lib = (\<lambda>t. Inr (''otpauth://totp/'' @ totp_account_name t @ ''?secret='' @ totp_key t))"
  "totp_check ref_lib = (\<lambda>t code now. code \<in> ref_totp_code t ` set [now div totp_step t - totp_skew t ..< now div totp_step t + totp_skew t + 1])"
  "chrono_plus_seconds ref_lib = (\<lambda>t n. let u = t + n * int NANOS_PER_SEC
          in if - ref_chrono_max \<le> u \<and> u \<le> ref_chrono_max then Some u else None)"
  "header_value_ok ref_lib = (\<lambda>s. \<forall>c\<in>set s. visible_ascii c)"
  "header_to_str ref_lib = (\<lambda>s. if \<forall>c\<in>set s. visible_ascii c \<or> c = CHR '' '' then Some s else None)"
  "to_lowercase ref_lib = map ascii_lower"
  "cookie_encoded ref_lib = ref_cookie_encoded" "cookie_split_parse ref_lib = ref_cookie_split_parse"
  "db_fault ref_lib = (\<lambda>i. None)" "pg_lower ref_lib = map ascii_lower" "pg_uuid ref_lib = (\<lambda>i. i)"
  by (simp_all add: ref_lib_def)

section \<open>The laws hold\<close>

fun ref_key_pair :: "encoding_key \<Rightarrow> decoding_key \<Rightarrow> bool" where
  "ref_key_pair (EncodingKey s) (DecodingKey t) \<longleftrightarrow> s = t"

lemma ascii_lower_idem [simp]: "ascii_lower (ascii_lower c) = ascii_lower c"
  by (simp add: ascii_lower_def Let_def)

interpretation ref_subtle: subtle_laws ref_lib
  by unfold_locales simp

interpretation ref_digest: digest_laws ref_lib
  by unfold_locales (simp_all add: ref_sha256_def ref_base64url_length)

interpretation ref_hex: hex_laws ref_lib
  by unfold_locales (simp_all add: ref_hex_length ref_hex_digits)

interpretation ref_getrandom: getrandom_laws ref_lib
  by unfold_locales auto

interpretation ref_uuid: uuid_laws ref_lib
  by unfold_locales simp

interpretation ref_lowercase: lowercase_laws ref_lib
  by unfold_locales (simp_all add: comp_def)

interpretation ref_chrono: chrono_laws ref_lib
  by unfold_locales (auto simp: Let_def split: if_splits)

interpretation ref_argon2: argon2_laws ref_lib
  by unfold_locales (auto simp: strip_prefix_def)

interpretation ref_totp: totp_laws ref_lib ref_totp_code
proof
  have steps: "set [n - m ..< n + m + 1] = {k. n \<le> k + m \<and> k \<le> n + m}" for n m :: nat
    by auto
  show "totp_check ref_lib t code now \<longleftrightarrow>
     (\<exists>k. now div totp_step t \<le> k + totp_skew t \<and> k \<le> now div totp_step t + totp_skew t \<and> code = ref_totp_code t k)"
    for t code now
    unfolding ref_lib_simps steps by auto
qed simp

lemma ref_jwt_decode_encode:
  assumes "ref_jwt_encode h m ek = Inr t" and "ref_key_pair ek dk" and "v_algorithm v = alg h"
    and "de m = None" and "set (required_spec_claims v) \<subseteq> set (map fst m)"
  shows "ref_jwt_decode now de t dk v =
    (if \<not> exp_ok now v m then Inl (JwtError ExpiredSignature ''ExpiredSignature'')
     else if \<not> iss_ok v m then Inl (JwtError OtherKind ''InvalidIssuer'')
     else if \<not> aud_ok v m then Inl (JwtError OtherKind ''InvalidAudience'')
     else Inr m)"
proof -
  obtain s where ek: "ek = EncodingKey s" by (cases ek)
  with assms(2) have "dk = DecodingKey s" by (cases dk) simp
  moreover have "ref_jwt_parts t = Some (h, m, s)"
    using assms(1) unfolding ek by (rule ref_jwt_parts_encode)
  ultimately show ?thesis using assms(3-5) by simp
qed

interpretation ref_jwt: jwt_laws ref_lib ref_key_pair
proof
  fix h m ek t now de dk v m'
  assume e: "jwt_encode ref_lib h m ek = Inr t" and d: "jwt_decode ref_lib now de t dk v = Inr m'"
  obtain s s' where "ek = EncodingKey s" "dk = DecodingKey s'" by (cases ek; cases dk)
  moreover from this(1) e have "ref_jwt_parts t = Some (h, m, s)"
    by (intro ref_jwt_parts_encode) simp
  ultimately show "m' = m \<and> de m = None"
    using d by (auto split: if_splits option.splits)
qed (simp_all add: ref_jwt_decode_encode)

end
