(* ===== verification/Crypto.thy ===== *)
theory Crypto
  imports Errors Reference_Libs
begin

text \<open>
  \<open>crypto/dpop.rs\<close>, \<open>crypto/entropy.rs\<close> and \<open>crypto/password.rs\<close>: thumbprints, the hash of an
  access token, the hash under which a secret is stored, fresh secrets and passwords. The
  functions that draw randomness take the number of the draw.
\<close>

section \<open>Hashes\<close>

definition compute_jwk_thumbprint :: "lib \<Rightarrow> jwk \<Rightarrow> (dpop_error, string) res" where
  "compute_jwk_thumbprint L k =
     ok_or (InvalidSignature ''failed to compute JWK thumbprint'') (jwk_thumbprint L k)"

definition compute_ath :: "lib \<Rightarrow> string \<Rightarrow> string" where
  "compute_ath L access_token = base64url_encode L (sha256 L access_token)"

definition hash_token :: "lib \<Rightarrow> string \<Rightarrow> string" where
  "hash_token L secret = hex_encode L (sha256 L secret)"

definition identifier_hash :: "lib \<Rightarrow> string \<Rightarrow> string \<Rightarrow> string" where
  "identifier_hash L kind value =
     hash_token L (to_lowercase L kind @ '':'' @ to_lowercase L value)"

section \<open>Secrets\<close>

definition REFRESH_SECRET_LEN :: nat where
  "REFRESH_SECRET_LEN = 32"

definition new_refresh_secret :: "lib \<Rightarrow> nat \<Rightarrow> (dpop_error, string) res" where
  "new_refresh_secret L i =
     res_bind (map_err Internal (of_sum (getrandom L i REFRESH_SECRET_LEN))) (\<lambda>bytes.
     Ok (base64url_encode L bytes))"

section \<open>Passwords\<close>

definition hash_password :: "lib \<Rightarrow> nat \<Rightarrow> string \<Rightarrow> (service_error, string) res" where
  "hash_password L i password = map_err ServiceInternal (of_sum (argon2_hash L i password))"

text \<open>\<open>spawn_blocking(\<dots>).await\<close> fails with the text of the \<open>JoinError\<close> when the task is
  cancelled or panics; otherwise it hands over the result of the closure.\<close>

definition spawn_blocking :: "lib \<Rightarrow> nat \<Rightarrow> (service_error, 'a) res \<Rightarrow> (service_error, 'a) res" where
  "spawn_blocking L i r =
     (case spawn_blocking_fault L i of Some e \<Rightarrow> Err (ServiceInternal e) | None \<Rightarrow> r)"

definition hash_password_async :: "lib \<Rightarrow> nat \<Rightarrow> string \<Rightarrow> (service_error, string) res" where
  "hash_password_async L i password = spawn_blocking L i (hash_password L i password)"

definition verify_password :: "lib \<Rightarrow> string \<Rightarrow> string \<Rightarrow> (service_error, bool) res" where
  "verify_password L password hash =
     (case phc_parse L hash of
        Some e \<Rightarrow> Err (ServiceInternal e)
      | None \<Rightarrow> Ok (argon2_verify L password hash))"

definition verify_password_async :: "lib \<Rightarrow> nat \<Rightarrow> string \<Rightarrow> string \<Rightarrow> (service_error, bool) res" where
  "verify_password_async L i password hash = spawn_blocking L i (verify_password L password hash)"

section \<open>Lemmas\<close>

text \<open>What a hash and a secret look like, for libraries that keep the laws of digests, hexadecimal
  digits and the random source.\<close>

locale credential_laws = digest_laws L + hex_laws L + getrandom_laws L for L :: lib
begin

lemma hash_token_length: "length (hash_token L s) = 64"
  by (simp add: hash_token_def hex_length sha256_length)

lemma hash_token_digits: "c \<in> set (hash_token L s) \<Longrightarrow> is_ascii_hexdigit c \<and> ascii_lower c = c"
  by (auto simp: hash_token_def dest: hex_digits)

lemma new_refresh_secret_length: "new_refresh_secret L i = Ok s \<Longrightarrow> length s = 43"
  using getrandom_length [of i REFRESH_SECRET_LEN]
  by (auto simp: new_refresh_secret_def res_bind_Ok_iff REFRESH_SECRET_LEN_def base64url_length)

end

interpretation ref_credentials: credential_laws ref_lib
  by unfold_locales

lemma new_refresh_secret_no_panic: "new_refresh_secret L i \<noteq> Panic"
  by (cases "getrandom L i REFRESH_SECRET_LEN") (simp_all add: new_refresh_secret_def)

lemma password_round_trip:
  assumes "argon2_laws L" and "hash_password_async L i p = Ok h" and "spawn_blocking_fault L j = None"
  shows "verify_password_async L j p h = Ok True"
  using assms(2,3) argon2_laws.hash_parses [OF assms(1), of i p h]
    argon2_laws.hash_verifies [OF assms(1), of i p h]
  by (simp add: hash_password_async_def verify_password_async_def spawn_blocking_def
      hash_password_def verify_password_def split: option.splits)

text \<open>A kind with a colon moves the boundary between kind and value, so two different
  identifiers can have the same hash whatever the hash function is.\<close>

lemma identifier_hash_boundary:
  assumes "lowercase_laws L" and "is_ascii a" and "is_ascii b" and "is_ascii c"
  shows "identifier_hash L (a @ '':'' @ b) c = identifier_hash L a (b @ '':'' @ c)"
proof -
  have low: "is_ascii s \<Longrightarrow> to_lowercase L s = map ascii_lower s" for s
    by (rule lowercase_laws.lower_ascii [OF assms(1)])
  have "is_ascii (a @ '':'' @ b)" "is_ascii (b @ '':'' @ c)" "ascii_lower CHR '':'' = CHR '':''"
    using assms(2-4) by (auto simp: is_ascii_def ascii_lower_def)
  then show ?thesis using assms(2-4) by (simp add: identifier_hash_def low)
qed

end
