(* ===== verification/Config.thy ===== *)
theory Config
  imports Errors
begin

text \<open>
  \<open>config.rs\<close> and \<open>axum/cookie.rs\<close>: the signer of access tokens, the configuration record and
  its builder, and the cookie that carries a refresh token.
\<close>

section \<open>The signer\<close>

datatype token_signer =
    Symmetric encoding_key decoding_key
  | Asymmetric encoding_key decoding_key

definition signer_symmetric :: "lib \<Rightarrow> string \<Rightarrow> (dpop_error, token_signer) res" where
  "signer_symmetric L secret =
     (if length secret < 32
      then Err (Internal ''HS256 requires at least a 32-byte secret (256 bits of entropy)'')
      else Ok (Symmetric (encoding_key_from_secret L secret) (decoding_key_from_secret L secret)))"

definition signer_asymmetric :: "encoding_key \<Rightarrow> decoding_key \<Rightarrow> token_signer" where
  "signer_asymmetric ek dk = Asymmetric ek dk"

fun signer_algorithm :: "token_signer \<Rightarrow> algorithm" where
  "signer_algorithm (Symmetric ek dk) = HS256"
| "signer_algorithm (Asymmetric ek dk) = ES256"

fun signer_encoding_key :: "token_signer \<Rightarrow> encoding_key" where
  "signer_encoding_key (Symmetric key _) = key"
| "signer_encoding_key (Asymmetric key _) = key"

fun signer_decoding_key :: "token_signer \<Rightarrow> decoding_key" where
  "signer_decoding_key (Symmetric _ key) = key"
| "signer_decoding_key (Asymmetric _ key) = key"

section \<open>The configuration and its builder\<close>

datatype same_site = Strict | Lax | NoneSite

record cookie_config =
  cookie_name :: string
  cookie_path :: string
  cookie_secure :: bool
  cookie_http_only :: bool
  cookie_same_site :: same_site
  cookie_max_age :: duration

definition cookie_config_default :: cookie_config where
  "cookie_config_default =
     \<lparr> cookie_name = ''__Host-dpop_refresh'',
       cookie_path = ''/api/auth'',
       cookie_secure = True,
       cookie_http_only = True,
       cookie_same_site = Strict,
       cookie_max_age = from_secs (30 * 24 * 60 * 60) \<rparr>"

record dpop_config =
  public_url :: string
  issuer :: string
  audience :: string
  clock_skew :: duration
  nonce_required :: bool
  allowed_algs :: "algorithm list"
  signer :: token_signer
  access_token_ttl :: duration
  refresh_token_ttl :: duration
  grace_period :: duration
  allow_registration :: bool
  config_cookie :: cookie_config

record dpop_config_builder =
  b_public_url :: "string option"
  b_issuer :: "string option"
  b_audience :: "string option"
  b_clock_skew :: duration
  b_nonce_required :: bool
  b_allowed_algs :: "algorithm list"
  b_signer :: "token_signer option"
  b_access_token_ttl :: duration
  b_refresh_token_ttl :: duration
  b_grace_period :: duration
  b_allow_registration :: bool
  b_cookie :: cookie_config

definition config_builder :: dpop_config_builder where
  "config_builder =
     \<lparr> b_public_url = None,
       b_issuer = None,
       b_audience = None,
       b_clock_skew = from_secs 60,
       b_nonce_required = False,
       b_allowed_algs = [ES256, PS256],
       b_signer = None,
       b_access_token_ttl = from_secs 900,
       b_refresh_token_ttl = from_secs (30 * 24 * 60 * 60),
       b_grace_period = from_secs 5,
       b_allow_registration = True,
       b_cookie = cookie_config_default \<rparr>"

definition builder_public_url :: "string \<Rightarrow> dpop_config_builder \<Rightarrow> dpop_config_builder" where
  "builder_public_url value b = b\<lparr>b_public_url := Some value\<rparr>"

definition builder_issuer :: "string \<Rightarrow> dpop_config_builder \<Rightarrow> dpop_config_builder" where
  "builder_issuer value b = b\<lparr>b_issuer := Some value\<rparr>"

definition builder_audience :: "string \<Rightarrow> dpop_config_builder \<Rightarrow> dpop_config_builder" where
  "builder_audience value b = b\<lparr>b_audience := Some value\<rparr>"

definition builder_clock_skew :: "duration \<Rightarrow> dpop_config_builder \<Rightarrow> dpop_config_builder" where
  "builder_clock_skew value b = b\<lparr>b_clock_skew := value\<rparr>"

definition builder_nonce_required :: "bool \<Rightarrow> dpop_config_builder \<Rightarrow> dpop_config_builder" where
  "builder_nonce_required value b = b\<lparr>b_nonce_required := value\<rparr>"

definition builder_allowed_algs :: "algorithm list \<Rightarrow> dpop_config_builder \<Rightarrow> dpop_config_builder" where
  "builder_allowed_algs value b = b\<lparr>b_allowed_algs := value\<rparr>"

definition builder_signer :: "token_signer \<Rightarrow> dpop_config_builder \<Rightarrow> dpop_config_builder" where
  "builder_signer value b = b\<lparr>b_signer := Some value\<rparr>"

definition builder_access_token_ttl :: "duration \<Rightarrow> dpop_config_builder \<Rightarrow> dpop_config_builder" where
  "builder_access_token_ttl value b = b\<lparr>b_access_token_ttl := value\<rparr>"

definition builder_refresh_token_ttl :: "duration \<Rightarrow> dpop_config_builder \<Rightarrow> dpop_config_builder" where
  "builder_refresh_token_ttl value b = b\<lparr>b_refresh_token_ttl := value\<rparr>"

definition builder_grace_period :: "duration \<Rightarrow> dpop_config_builder \<Rightarrow> dpop_config_builder" where
  "builder_grace_period value b = b\<lparr>b_grace_period := value\<rparr>"

definition builder_allow_registration :: "bool \<Rightarrow> dpop_config_builder \<Rightarrow> dpop_config_builder" where
  "builder_allow_registration value b = b\<lparr>b_allow_registration := value\<rparr>"

definition builder_cookie :: "cookie_config \<Rightarrow> dpop_config_builder \<Rightarrow> dpop_config_builder" where
  "builder_cookie value b = b\<lparr>b_cookie := value\<rparr>"

definition builder_build :: "dpop_config_builder \<Rightarrow> (dpop_error, dpop_config) res" where
  "builder_build b =
     res_bind (ok_or (Internal ''public_url is required'') (b_public_url b)) (\<lambda>url.
     res_bind (ok_or (Internal ''signer is required'') (b_signer b)) (\<lambda>sgn.
     Ok \<lparr> public_url = url,
          issuer = (case b_issuer b of None \<Rightarrow> url | Some i \<Rightarrow> i),
          audience = (case b_audience b of None \<Rightarrow> url | Some a \<Rightarrow> a),
          clock_skew = b_clock_skew b,
          nonce_required = b_nonce_required b,
          allowed_algs = b_allowed_algs b,
          signer = sgn,
          access_token_ttl = b_access_token_ttl b,
          refresh_token_ttl = b_refresh_token_ttl b,
          grace_period = b_grace_period b,
          allow_registration = b_allow_registration b,
          config_cookie = b_cookie b \<rparr>))"

text \<open>\<open>from_env\<close> reads the process environment, here a lookup function.\<close>

definition config_from_env :: "lib \<Rightarrow> (string \<Rightarrow> string option) \<Rightarrow> (dpop_error, dpop_config) res" where
  "config_from_env L env =
     res_bind (ok_or (Internal ''DPOP_PUBLIC_URL is not set'') (env ''DPOP_PUBLIC_URL'')) (\<lambda>url.
     res_bind (ok_or (Internal ''JWT_SECRET is not set'') (env ''JWT_SECRET'')) (\<lambda>secret.
     res_bind (signer_symmetric L secret) (\<lambda>sgn.
     builder_build (builder_signer sgn (builder_public_url url config_builder)))))"

section \<open>The refresh-token cookie\<close>

definition i64_max :: int where
  "i64_max = 2 ^ 63 - 1"

text \<open>\<open>i64::try_from(secs).unwrap_or(i64::MAX)\<close>.\<close>

definition i64_try_from_or_max :: "u64 \<Rightarrow> int" where
  "i64_try_from_or_max w = (if uint w \<le> i64_max then uint w else i64_max)"

definition refresh_cookie :: "cookie_config \<Rightarrow> string \<Rightarrow> cookie" where
  "refresh_cookie cfg value =
     \<lparr> c_name = cookie_name cfg,
       c_value = value,
       c_path = Some (cookie_path cfg),
       c_secure = Some (cookie_secure cfg),
       c_http_only = Some (cookie_http_only cfg),
       c_same_site = Some (case cookie_same_site cfg of
                             Strict \<Rightarrow> CookieStrict
                           | Lax \<Rightarrow> CookieLax
                           | NoneSite \<Rightarrow> CookieNone),
       c_max_age = Some (i64_try_from_or_max (as_secs (cookie_max_age cfg))) \<rparr>"

definition refresh_token_cookie :: "lib \<Rightarrow> cookie_config \<Rightarrow> string \<Rightarrow> string" where
  "refresh_token_cookie L cfg value = cookie_encoded L (refresh_cookie cfg value)"

text \<open>\<open>split_parse\<close> yields one item per piece of the header, \<open>None\<close> for a piece that does
  not parse; the first cookie with the name wins.\<close>

definition read_cookie :: "lib \<Rightarrow> string \<Rightarrow> string \<Rightarrow> string option" where
  "read_cookie L cookie_header name =
     map_option snd (find (\<lambda>c. fst c = name) (List.map_filter id (cookie_split_parse L cookie_header)))"

section \<open>Properties\<close>

lemma builder_build_Ok_iff:
  "builder_build b = Ok cfg \<longleftrightarrow>
     (\<exists>url sgn. b_public_url b = Some url \<and> b_signer b = Some sgn \<and>
        cfg = \<lparr> public_url = url,
          issuer = (case b_issuer b of None \<Rightarrow> url | Some i \<Rightarrow> i),
          audience = (case b_audience b of None \<Rightarrow> url | Some a \<Rightarrow> a),
          clock_skew = b_clock_skew b, nonce_required = b_nonce_required b,
          allowed_algs = b_allowed_algs b, signer = sgn,
          access_token_ttl = b_access_token_ttl b, refresh_token_ttl = b_refresh_token_ttl b,
          grace_period = b_grace_period b, allow_registration = b_allow_registration b,
          config_cookie = b_cookie b \<rparr>)"
  by (auto simp: builder_build_def res_bind_Ok_iff)

text \<open>C30. A configuration read from the environment never signs with a secret of fewer than 32
  bytes, and it accepts only asymmetric proof algorithms: \<open>from_env\<close> succeeds exactly when
  both variables are set and the secret is long enough.\<close>

theorem from_env_contract:
  "(case config_from_env L env of
      Ok cfg \<Rightarrow> (\<exists>url secret. env ''DPOP_PUBLIC_URL'' = Some url \<and> env ''JWT_SECRET'' = Some secret \<and>
                 32 \<le> length secret \<and> public_url cfg = url \<and> issuer cfg = url \<and> audience cfg = url \<and>
                 signer_encoding_key (signer cfg) = encoding_key_from_secret L secret \<and>
                 signer_decoding_key (signer cfg) = decoding_key_from_secret L secret \<and>
                 signer_algorithm (signer cfg) = HS256 \<and> allowed_algs cfg = [ES256, PS256])
    | Err e \<Rightarrow> (\<exists>m. e = Internal m) \<and>
               (case (env ''DPOP_PUBLIC_URL'', env ''JWT_SECRET'') of
                  (Some url, Some secret) \<Rightarrow> length secret < 32
                | _ \<Rightarrow> True)
    | Panic \<Rightarrow> False)"
  by (cases "env ''DPOP_PUBLIC_URL''"; cases "env ''JWT_SECRET''")
    (auto simp: config_from_env_def signer_symmetric_def builder_build_def builder_signer_def
      builder_public_url_def config_builder_def)

text \<open>The default cookie carries the \<open>__Host-\<close> prefix, which user agents accept only with
  \<open>Path=/\<close>, together with another path.\<close>

theorem default_cookie_breaks_host_prefix:
  "take 7 (c_name (refresh_cookie cookie_config_default v)) = ''__Host-'' \<and>
   c_secure (refresh_cookie cookie_config_default v) = Some True \<and>
   c_path (refresh_cookie cookie_config_default v) \<noteq> Some ''/''"
  by (simp add: refresh_cookie_def cookie_config_default_def)

text \<open>The lifetime written into the cookie is the configured number of seconds, cut off at
  the largest \<open>i64\<close>, and so never negative.\<close>

theorem cookie_max_age_bounds:
  assumes "cookie_max_age cfg \<le> duration_max"
  shows "c_max_age (refresh_cookie cfg v) =
           Some (min (int (cookie_max_age cfg div NANOS_PER_SEC)) i64_max)"
  using uint_as_secs [OF assms]
  by (simp add: refresh_cookie_def i64_try_from_or_max_def min_def)

theorem cookie_max_age_bounds_witness:
  "cookie_max_age cookie_config_default \<le> duration_max \<and>
   c_max_age (refresh_cookie cookie_config_default ''secret'') = Some 2592000"
proof -
  have h: "cookie_max_age cookie_config_default \<le> duration_max"
    by (simp add: cookie_config_default_def duration_max_def from_secs_def NANOS_PER_SEC_def)
  show ?thesis
    using cookie_max_age_bounds [OF h, of "''secret''"] h
    by (simp add: cookie_config_default_def from_secs_def NANOS_PER_SEC_def i64_max_def)
qed

end
