(* ===== verification/Cache.thy ===== *)
theory Cache
  imports Prelude
begin

text \<open>
  The in-memory caches of \<open>cache/\<close>. The crate \<open>moka\<close> is not part of the repository: its
  operations are a record \<open>cache_ops\<close> that the definitions take as an argument, and what the
  program relies on is the locale \<open>moka\<close>. Its parameter \<open>entries\<close> shows the content of a
  cache, the time of each insertion included; an entry is visible until its time to live has
  passed, an insertion may drop entries, and drops no live one while the cache has room.

  \<open>ref_cache\<close> is an executable cache with these laws, and the locale is interpreted on it.
\<close>

section \<open>The interface of the cache crate\<close>

record ('c, 'k, 'v) cache_ops =
  cache_build :: "duration \<Rightarrow> nat \<Rightarrow> 'c"
  cache_get :: "instant \<Rightarrow> 'k \<Rightarrow> 'c \<Rightarrow> 'v option"
  cache_contains :: "instant \<Rightarrow> 'k \<Rightarrow> 'c \<Rightarrow> bool"
  cache_insert :: "instant \<Rightarrow> 'k \<Rightarrow> 'v \<Rightarrow> 'c \<Rightarrow> 'c"
  cache_or_insert :: "instant \<Rightarrow> 'k \<Rightarrow> 'v \<Rightarrow> 'c \<Rightarrow> bool \<times> 'c"

text \<open>\<open>cache_or_insert\<close> is \<open>cache.entry(k).or_insert(v)\<close> with the answer of \<open>is_fresh\<close>.\<close>

locale moka =
  fixes M :: "('c, 'k, 'v) cache_ops"
    and entries :: "'c \<Rightarrow> 'k \<Rightarrow> (instant \<times> 'v) option"
    and ttl :: "'c \<Rightarrow> duration"
    and capacity :: "'c \<Rightarrow> nat"
  assumes entries_build: "entries (cache_build M d n) = (\<lambda>k. None)"
    and ttl_build: "ttl (cache_build M d n) = d"
    and capacity_build: "capacity (cache_build M d n) = n"
    and entries_finite: "finite (dom (entries c))"
    and get_entries:
      "cache_get M now k c =
         (case entries c k of None \<Rightarrow> None | Some (t, v) \<Rightarrow> if now < t + ttl c then Some v else None)"
    and contains_get: "cache_contains M now k c \<longleftrightarrow> cache_get M now k c \<noteq> None"
    and insert_only: "entries (cache_insert M now k v c) \<subseteq>\<^sub>m (entries c)(k \<mapsto> (now, v))"
    and insert_room:
      "card (dom (entries c)) < capacity c \<Longrightarrow> entries (cache_insert M now k v c) k = Some (now, v)"
    and insert_keeps:
      "card (dom (entries c)) < capacity c \<Longrightarrow> k' \<noteq> k \<Longrightarrow> entries c k' = Some (t, v') \<Longrightarrow>
       now < t + ttl c \<Longrightarrow> entries (cache_insert M now k v c) k' = Some (t, v')"
    and insert_ttl: "ttl (cache_insert M now k v c) = ttl c"
    and insert_capacity: "capacity (cache_insert M now k v c) = capacity c"
    and or_insert:
      "cache_or_insert M now k v c =
         (if cache_get M now k c = None then (True, cache_insert M now k v c) else (False, c))"
begin

lemma get_build: "cache_get M now k (cache_build M d n) = None"
  by (simp add: get_entries entries_build)

lemma card_dom_insert:
  "card (dom (entries (cache_insert M now k v c))) \<le> Suc (card (dom (entries c)))"
proof -
  have "dom (entries (cache_insert M now k v c)) \<subseteq> insert k (dom (entries c))"
    using map_le_implies_dom_le [OF insert_only [of now k v c]] by simp
  then have "card (dom (entries (cache_insert M now k v c))) \<le> card (insert k (dom (entries c)))"
    by (simp add: card_mono entries_finite)
  also have "\<dots> \<le> Suc (card (dom (entries c)))"
    by (simp add: card_insert_if entries_finite)
  finally show ?thesis .
qed

lemma card_dom_or_insert:
  "card (dom (entries (snd (cache_or_insert M now k v c)))) \<le> Suc (card (dom (entries c)))"
  using card_dom_insert [of now k v c] by (simp add: or_insert)

lemma or_insert_ttl [simp]: "ttl (snd (cache_or_insert M now k v c)) = ttl c"
  by (simp add: or_insert insert_ttl)

lemma or_insert_capacity [simp]: "capacity (snd (cache_or_insert M now k v c)) = capacity c"
  by (simp add: or_insert insert_capacity)

text \<open>A key that was claimed stays claimed for the time to live.\<close>

lemma fresh_claims:
  assumes "cache_or_insert M now k v c = (True, c')" and "card (dom (entries c)) < capacity c"
  shows "entries c' k = Some (now, v)"
  using assms by (auto simp: or_insert insert_room split: if_splits)

lemma claimed_survives:
  assumes "entries c k = Some (t, v)" and "now < t + ttl c"
    and "card (dom (entries c)) < capacity c"
  shows "entries (snd (cache_or_insert M now k' v' c)) k = Some (t, v)"
  using assms insert_keeps [of c k k' t v now v']
  by (cases "k = k'") (auto simp: or_insert get_entries)

lemma claimed_not_fresh:
  assumes "entries c k = Some (t, v)" and "now < t + ttl c"
  shows "cache_or_insert M now k v' c = (False, c)"
  using assms by (simp add: or_insert get_entries)

lemma insert_visible:
  assumes "card (dom (entries c)) < capacity c" and "now \<le> now'" and "now' < now + ttl c"
  shows "cache_get M now' k (cache_insert M now k v c) = Some v"
  using assms by (simp add: get_entries insert_room insert_ttl)

lemma get_insert_other:
  assumes "k' \<noteq> k"
  shows "cache_get M now' k' (cache_insert M now k v c) \<in> {None, cache_get M now' k' c}"
  using insert_only [of now k v c] assms
  by (force simp: get_entries insert_ttl map_le_def dom_def split: option.splits)

end

section \<open>The caches of the library\<close>

definition CACHE_CAPACITY :: nat where
  "CACHE_CAPACITY = 100000"

definition create_jti_cache :: "('c, string, bool) cache_ops \<Rightarrow> duration \<Rightarrow> 'c" where
  "create_jti_cache M ttl = cache_build M ttl CACHE_CAPACITY"

definition NONCE_TTL :: duration where
  "NONCE_TTL = from_secs 300"

definition create_nonce_cache :: "('c, string, bool) cache_ops \<Rightarrow> 'c" where
  "create_nonce_cache M = cache_build M NONCE_TTL CACHE_CAPACITY"

definition TOTP_REPLAY_TTL :: duration where
  "TOTP_REPLAY_TTL = from_secs 90"

definition create_totp_replay_cache :: "('c, nat \<times> string, unit) cache_ops \<Rightarrow> 'c" where
  "create_totp_replay_cache M = cache_build M TOTP_REPLAY_TTL CACHE_CAPACITY"

section \<open>A reference cache\<close>

datatype ('k, 'v) ref_cache =
  RefCache (ref_ttl: duration) (ref_capacity: nat) (ref_entries: "('k \<times> instant \<times> 'v) list")

definition ref_lookup :: "('k, 'v) ref_cache \<Rightarrow> 'k \<Rightarrow> (instant \<times> 'v) option" where
  "ref_lookup c k = map_of (ref_entries c) k"

definition ref_get :: "instant \<Rightarrow> 'k \<Rightarrow> ('k, 'v) ref_cache \<Rightarrow> 'v option" where
  "ref_get now k c =
     (case ref_lookup c k of None \<Rightarrow> None
      | Some (t, v) \<Rightarrow> if now < t + ref_ttl c then Some v else None)"

text \<open>An insertion drops the old entry of the key and, when the cache is full, the oldest
  ones.\<close>

definition ref_insert :: "instant \<Rightarrow> 'k \<Rightarrow> 'v \<Rightarrow> ('k, 'v) ref_cache \<Rightarrow> ('k, 'v) ref_cache" where
  "ref_insert now k v c =
     (let others = filter (\<lambda>e. fst e \<noteq> k) (ref_entries c);
          kept = (if length (remdups (map fst others)) < ref_capacity c then others
                  else take (ref_capacity c - 1) others)
      in RefCache (ref_ttl c) (ref_capacity c) ((k, now, v) # kept))"

definition ref_or_insert :: "instant \<Rightarrow> 'k \<Rightarrow> 'v \<Rightarrow> ('k, 'v) ref_cache \<Rightarrow> bool \<times> ('k, 'v) ref_cache" where
  "ref_or_insert now k v c =
     (if ref_get now k c = None then (True, ref_insert now k v c) else (False, c))"

definition ref_ops :: "(('k, 'v) ref_cache, 'k, 'v) cache_ops" where
  "ref_ops =
     \<lparr> cache_build = (\<lambda>d n. RefCache d n []),
       cache_get = ref_get,
       cache_contains = (\<lambda>now k c. ref_get now k c \<noteq> None),
       cache_insert = ref_insert,
       cache_or_insert = ref_or_insert \<rparr>"

lemma map_of_others: "map_of (filter (\<lambda>e. fst e \<noteq> k) es) k' = (if k' = k then None else map_of es k')"
  by (induction es) auto

lemma map_of_take_le: "map_of (take n es) \<subseteq>\<^sub>m map_of es"
proof -
  have "map_of es = map_of (drop n es) ++ map_of (take n es)"
    by (metis append_take_drop_id map_of_append)
  then show ?thesis by (simp add: map_le_iff_map_add_commute map_add_assoc [symmetric])
qed

lemma card_others:
  "length (remdups (map fst (filter (\<lambda>e. fst e \<noteq> k) es))) \<le> card (dom (map_of es))"
proof -
  have "length (remdups (map fst (filter (\<lambda>e. fst e \<noteq> k) es))) = card (fst ` set (filter (\<lambda>e. fst e \<noteq> k) es))"
    by (simp add: length_remdups_card_conv)
  also have "\<dots> \<le> card (fst ` set es)"
    by (rule card_mono) auto
  finally show ?thesis by (simp add: dom_map_of_conv_image_fst)
qed

lemma ref_lookup_map_of: "ref_lookup c = map_of (ref_entries c)"
  by (simp add: fun_eq_iff ref_lookup_def)

lemma ref_insert_le: "ref_lookup (ref_insert now k v c) \<subseteq>\<^sub>m (ref_lookup c)(k \<mapsto> (now, v))"
proof -
  let ?others = "filter (\<lambda>e. fst e \<noteq> k) (ref_entries c)"
  have le: "map_of ?others \<subseteq>\<^sub>m map_of (ref_entries c)"
    by (auto simp: map_le_def map_of_others)
  have le': "map_of (take (ref_capacity c - 1) ?others) \<subseteq>\<^sub>m map_of (ref_entries c)"
    by (rule map_le_trans [OF map_of_take_le le])
  show ?thesis
    using map_le_upd [OF le, of k "Some (now, v)"] map_le_upd [OF le', of k "Some (now, v)"]
    by (simp add: ref_insert_def ref_lookup_map_of Let_def)
qed

lemma ref_insert_room:
  assumes "card (dom (ref_lookup c)) < ref_capacity c"
  shows "ref_lookup (ref_insert now k v c) = (ref_lookup c)(k \<mapsto> (now, v))"
  using assms card_others [of k "ref_entries c"]
  by (simp add: ref_insert_def ref_lookup_map_of Let_def) (simp add: map_of_others fun_eq_iff)

lemma ref_insert_fields [simp]:
  "ref_ttl (ref_insert now k v c) = ref_ttl c"
  "ref_capacity (ref_insert now k v c) = ref_capacity c"
  by (simp_all add: ref_insert_def Let_def)

interpretation ref_cache: moka ref_ops ref_lookup ref_ttl ref_capacity
proof
  show "finite (dom (ref_lookup c))" for c :: "('a, 'b) ref_cache"
    by (simp add: ref_lookup_map_of finite_dom_map_of)
qed (simp_all add: ref_ops_def ref_get_def ref_or_insert_def ref_insert_le ref_insert_room,
     simp_all add: ref_lookup_map_of fun_eq_iff)

end
