(* ===== verification/Store.thy ===== *)
theory Store
  imports Crypto Config Cache
begin

text \<open>
  The PostgreSQL store: \<open>store/models\<close>, the transactions of \<open>sqlx\<close>, and the repositories
  \<open>store/repo/users.rs\<close>, \<open>store/repo/identifiers.rs\<close> and \<open>store/repo/login_attempts.rs\<close>.

  A table is the list of its rows, a statement a function on the tables, with the constraints
  that the migrations declare (primary keys, unique indexes, foreign keys, lengths) as its error
  branches. \<open>world\<close> is everything the service can change: the tables, the transaction that is
  open on the connection in use, the caches of \<open>AuthService\<close>, and counters that number the calls
  to the database, the values its defaults draw and the random draws of the program.

  A failed statement leaves its transaction aborted; \<open>COMMIT\<close> of an aborted transaction is a
  rollback that reports success, as PostgreSQL does it. A \<open>COMMIT\<close> that fails has not
  committed. Timestamps keep their nanoseconds.
\<close>

section \<open>Rows\<close>

type_synonym ip_address = string

record user_row =
  u_id :: uuid
  u_public_id :: uuid
  u_password_hash :: string
  u_name :: string
  u_password_changed_at :: "timestamp option"
  u_totp_secret :: "string option"
  u_totp_enabled :: bool
  u_totp_enabled_at :: "timestamp option"
  u_totp_pending_secret :: "string option"
  u_totp_pending_at :: "timestamp option"
  u_last_login_at :: "timestamp option"
  u_created_at :: timestamp
  u_updated_at :: timestamp
  u_deleted_at :: "timestamp option"

record identifier_row =
  i_id :: uuid
  i_user_id :: uuid
  i_kind :: string
  i_value :: string
  i_is_primary :: bool
  i_verified_at :: "timestamp option"
  i_created_at :: timestamp
  i_updated_at :: timestamp
  i_deleted_at :: "timestamp option"

record refresh_token_row =
  r_id :: uuid
  r_user_id :: uuid
  r_token_hash :: string
  r_fam :: uuid
  r_dpop_jkt :: string
  r_user_agent :: "string option"
  r_expires_at :: timestamp
  r_revoked_at :: "timestamp option"
  r_created_at :: timestamp

record create_refresh_token_params =
  p_user_id :: uuid
  p_token_hash :: string
  p_fam :: uuid
  p_dpop_jkt :: string
  p_user_agent :: "string option"
  p_expires_at :: timestamp

record login_attempt_row =
  l_id :: uuid
  l_identifier_kind :: string
  l_identifier_value :: string
  l_ip_address :: ip_address
  l_success :: bool
  l_failure_reason :: "string option"
  l_created_at :: timestamp

record recovery_code_row =
  c_id :: uuid
  c_user_id :: uuid
  c_code_hash :: string
  c_used_at :: "timestamp option"
  c_created_at :: timestamp

record outbox_row =
  o_id :: uuid
  o_to_address :: string
  o_subject :: string
  o_body :: string
  o_attempts :: int
  o_max_attempts :: int
  o_last_error :: "string option"
  o_available_at :: timestamp
  o_locked_at :: "timestamp option"
  o_sent_at :: "timestamp option"
  o_created_at :: timestamp

record tables =
  users :: "user_row list"
  identifiers :: "identifier_row list"
  refresh_tokens :: "refresh_token_row list"
  login_attempts :: "login_attempt_row list"
  recovery_codes :: "recovery_code_row list"
  outbox :: "outbox_row list"

definition empty_tables :: tables where
  "empty_tables =
     \<lparr> users = [], identifiers = [], refresh_tokens = [], login_attempts = [], recovery_codes = [],
       outbox = [] \<rparr>"

subsection \<open>What a debug rendering of a row shows\<close>

definition REDACTED :: string where
  "REDACTED = ''[REDACTED]''"

definition user_row_debug :: "user_row \<Rightarrow> (string \<times> debug_value) list" where
  "user_row_debug u =
     [(''id'', DUuid (u_id u)), (''public_id'', DUuid (u_public_id u)), (''password_hash'', DText REDACTED),
      (''name'', DText (u_name u)), (''totp_enabled'', DBool (u_totp_enabled u))]"

definition refresh_token_row_debug :: "refresh_token_row \<Rightarrow> (string \<times> debug_value) list" where
  "refresh_token_row_debug r =
     [(''id'', DUuid (r_id r)), (''user_id'', DUuid (r_user_id r)), (''token_hash'', DText REDACTED),
      (''fam'', DUuid (r_fam r)), (''dpop_jkt'', DText (r_dpop_jkt r)), (''revoked_at'', DOptTime (r_revoked_at r))]"

definition identifier_row_debug :: "identifier_row \<Rightarrow> (string \<times> debug_value) list" where
  "identifier_row_debug i =
     [(''id'', DUuid (i_id i)), (''user_id'', DUuid (i_user_id i)), (''kind'', DText (i_kind i)),
      (''value'', DText (i_value i)), (''is_primary'', DBool (i_is_primary i)),
      (''verified_at'', DOptTime (i_verified_at i))]"

definition login_attempt_row_debug :: "login_attempt_row \<Rightarrow> (string \<times> debug_value) list" where
  "login_attempt_row_debug l =
     [(''id'', DUuid (l_id l)), (''identifier_kind'', DText (l_identifier_kind l)),
      (''identifier_value'', DText (l_identifier_value l)), (''ip_address'', DText (l_ip_address l)),
      (''success'', DBool (l_success l)), (''failure_reason'', DOpt (l_failure_reason l))]"

definition recovery_code_row_debug :: "recovery_code_row \<Rightarrow> (string \<times> debug_value) list" where
  "recovery_code_row_debug c =
     [(''id'', DUuid (c_id c)), (''user_id'', DUuid (c_user_id c)), (''code_hash'', DTexts [''REDACTED'']),
      (''used_at'', DOptTime (c_used_at c)), (''created_at'', DTime (c_created_at c))]"

text \<open>No rendering depends on a hash.\<close>

lemma debug_hides_hashes:
  "user_row_debug (u\<lparr>u_password_hash := h\<rparr>) = user_row_debug u"
  "refresh_token_row_debug (r\<lparr>r_token_hash := h\<rparr>) = refresh_token_row_debug r"
  "recovery_code_row_debug (c\<lparr>c_code_hash := h\<rparr>) = recovery_code_row_debug c"
  by (simp_all add: user_row_debug_def refresh_token_row_debug_def recovery_code_row_debug_def)

section \<open>The connection\<close>

datatype tx_state = Auto | InTx tables bool

record ('g, 'r) world =
  db :: tables
  tx :: tx_state
  session_settings :: "string \<rightharpoonup> string"
  tx_settings :: "(string \<times> string \<times> bool) list"
  calls :: nat
  pg_draws :: nat
  w_draws :: nat
  grace_cache :: 'g
  totp_replay_cache :: 'r

type_synonym ('g, 'r, 'e, 'a) sact = "(('g, 'r) world, 'e, 'a) act"

definition aborted_error :: sqlx_error where
  "aborted_error = DatabaseError False ''current transaction is aborted''"
definition unique_violation :: sqlx_error where
  "unique_violation = DatabaseError True ''duplicate key value violates unique constraint''"
definition foreign_key_violation :: sqlx_error where
  "foreign_key_violation = DatabaseError False ''insert violates foreign key constraint''"
definition too_long :: sqlx_error where
  "too_long = DatabaseError False ''value too long for type character varying''"
definition invalid_text :: sqlx_error where
  "invalid_text = DatabaseError False ''invalid byte sequence for encoding UTF8: 0x00''"

lemmas pg_error_defs = aborted_error_def unique_violation_def foreign_key_violation_def too_long_def
  invalid_text_def

text \<open>The length of a \<open>VARCHAR\<close> counts characters, that is the bytes that do not continue one.\<close>

definition char_count :: "string \<Rightarrow> nat" where
  "char_count s = length (filter (\<lambda>c. \<not> (128 \<le> (of_char c :: nat) \<and> (of_char c :: nat) < 192)) s)"

definition pg_text :: "string \<Rightarrow> bool" where
  "pg_text s \<longleftrightarrow> CHR 0x00 \<notin> set s"

fun mark_aborted :: "tx_state \<Rightarrow> tx_state" where
  "mark_aborted Auto = Auto"
| "mark_aborted (InTx snap _) = InTx snap True"

fun is_aborted :: "tx_state \<Rightarrow> bool" where
  "is_aborted (InTx _ b) = b"
| "is_aborted Auto = False"

text \<open>One round trip: it may fail for a reason of its own, it fails in an aborted transaction, and
  PostgreSQL rejects a text parameter with a zero byte. A statement reads the tables and the
  number of values its defaults have drawn.\<close>

type_synonym 'a statement = "tables \<Rightarrow> nat \<Rightarrow> (sqlx_error, 'a \<times> tables \<times> nat) res"

definition db_query :: "lib \<Rightarrow> string list \<Rightarrow> 'a statement \<Rightarrow> ('g, 'r, sqlx_error, 'a) sact" where
  "db_query L texts stmt w =
     (let w1 = w\<lparr>calls := calls w + 1\<rparr>; failed = w1\<lparr>tx := mark_aborted (tx w)\<rparr> in
      case db_fault L (calls w) of
        Some e \<Rightarrow> (Err e, failed)
      | None \<Rightarrow>
          if is_aborted (tx w) then (Err aborted_error, failed)
          else if \<not> list_all pg_text texts then (Err invalid_text, failed)
          else (case stmt (db w) (pg_draws w) of
                  Ok (a, d, n) \<Rightarrow> (Ok a, w1\<lparr>db := d, pg_draws := n\<rparr>)
                | Err e \<Rightarrow> (Err e, failed)
                | Panic \<Rightarrow> (Panic, failed)))"

definition db_read :: "lib \<Rightarrow> string list \<Rightarrow> (tables \<Rightarrow> 'a) \<Rightarrow> ('g, 'r, sqlx_error, 'a) sact" where
  "db_read L texts g = db_query L texts (\<lambda>d n. Ok (g d, d, n))"

definition db_exec :: "lib \<Rightarrow> string list \<Rightarrow> (tables \<Rightarrow> tables) \<Rightarrow> ('g, 'r, sqlx_error, unit) sact" where
  "db_exec L texts f = db_query L texts (\<lambda>d n. Ok ((), f d, n))"

definition acquire :: "lib \<Rightarrow> ('g, 'r, sqlx_error, unit) sact" where
  "acquire L = db_read L [] (\<lambda>_. ())"

definition begin_tx :: "lib \<Rightarrow> ('g, 'r, sqlx_error, unit) sact" where
  "begin_tx L =
     act_bind (db_read L [] (\<lambda>_. ())) (\<lambda>_ w. (Ok (), w\<lparr>tx := InTx (db w) False\<rparr>))"

definition drop_tx :: "('g, 'r) world \<Rightarrow> ('g, 'r) world" where
  "drop_tx w =
     (case tx w of Auto \<Rightarrow> w | InTx snap _ \<Rightarrow> w\<lparr>db := snap, tx := Auto, tx_settings := []\<rparr>)"

text \<open>A committed transaction leaves the settings it made for the session, not those it made local to
  itself.\<close>

definition kept_settings :: "(string \<times> string \<times> bool) list \<Rightarrow> (string \<rightharpoonup> string) \<Rightarrow> (string \<rightharpoonup> string)" where
  "kept_settings = fold (\<lambda>(name, value, is_local) m. if is_local then m else m(name \<mapsto> value))"

definition commit :: "lib \<Rightarrow> ('g, 'r, sqlx_error, unit) sact" where
  "commit L w =
     (let w1 = w\<lparr>calls := calls w + 1\<rparr> in
      case db_fault L (calls w) of
        Some e \<Rightarrow> (Err e, drop_tx w1)
      | None \<Rightarrow> (Ok (), if is_aborted (tx w) then drop_tx w1
                        else w1\<lparr>tx := Auto, session_settings := kept_settings (tx_settings w) (session_settings w),
                                tx_settings := []\<rparr>))"

text \<open>A transaction that is dropped on the way out of a function is rolled back.\<close>

definition with_tx :: "lib \<Rightarrow> ('g, 'r, service_error, 'a) sact \<Rightarrow> ('g, 'r, service_error, 'a) sact" where
  "with_tx L body =
     act_bind (act_map_err service_from_sqlx (begin_tx L)) (\<lambda>_ w.
       case body w of (r, w') \<Rightarrow> (r, drop_tx w'))"

section \<open>Users\<close>

definition create_user ::
    "lib \<Rightarrow> timestamp \<Rightarrow> string \<Rightarrow> string \<Rightarrow> timestamp option \<Rightarrow> ('g, 'r, sqlx_error, user_row) sact" where
  "create_user L now name password_hash password_changed_at =
     db_query L [password_hash, name] (\<lambda>d n.
       let row = \<lparr> u_id = pg_uuid L n, u_public_id = pg_uuid L (n + 1), u_password_hash = password_hash,
                   u_name = name, u_password_changed_at = password_changed_at, u_totp_secret = None,
                   u_totp_enabled = False, u_totp_enabled_at = None, u_totp_pending_secret = None,
                   u_totp_pending_at = None, u_last_login_at = None, u_created_at = now,
                   u_updated_at = now, u_deleted_at = None \<rparr>
       in if u_id row \<in> u_id ` set (users d) \<or> u_public_id row \<in> u_public_id ` set (users d)
          then Err unique_violation
          else Ok (row, d\<lparr>users := users d @ [row]\<rparr>, n + 2))"

definition find_user_by_id :: "lib \<Rightarrow> uuid \<Rightarrow> ('g, 'r, sqlx_error, user_row option) sact" where
  "find_user_by_id L uid =
     db_read L [] (\<lambda>d. find (\<lambda>u. u_id u = uid \<and> u_deleted_at u = None) (users d))"

definition find_user_by_public_id :: "lib \<Rightarrow> uuid \<Rightarrow> ('g, 'r, sqlx_error, user_row option) sact" where
  "find_user_by_public_id L public_id =
     db_read L [] (\<lambda>d. find (\<lambda>u. u_public_id u = public_id \<and> u_deleted_at u = None) (users d))"

text \<open>The trigger of the table sets \<open>updated_at\<close> on every update of a row.\<close>

definition update_users :: "timestamp \<Rightarrow> (user_row \<Rightarrow> bool) \<Rightarrow> (user_row \<Rightarrow> user_row) \<Rightarrow> tables \<Rightarrow> tables" where
  "update_users now P f d = d\<lparr>users := update_where P (\<lambda>u. (f u)\<lparr>u_updated_at := now\<rparr>) (users d)\<rparr>"

definition update_last_login_at :: "lib \<Rightarrow> timestamp \<Rightarrow> uuid \<Rightarrow> ('g, 'r, sqlx_error, unit) sact" where
  "update_last_login_at L now user_id =
     db_exec L [] (update_users now (\<lambda>u. u_id u = user_id) (\<lambda>u. u\<lparr>u_last_login_at := Some now\<rparr>))"

definition update_password :: "lib \<Rightarrow> timestamp \<Rightarrow> uuid \<Rightarrow> string \<Rightarrow> ('g, 'r, sqlx_error, unit) sact" where
  "update_password L now user_id password_hash =
     db_exec L [password_hash]
       (update_users now (\<lambda>u. u_id u = user_id \<and> u_deleted_at u = None)
         (\<lambda>u. u\<lparr>u_password_hash := password_hash, u_password_changed_at := Some now\<rparr>))"

section \<open>Identifiers\<close>

definition identifier_taken :: "lib \<Rightarrow> string \<Rightarrow> string \<Rightarrow> tables \<Rightarrow> bool" where
  "identifier_taken L kind value d \<longleftrightarrow>
     (\<exists>i\<in>set (identifiers d). i_deleted_at i = None \<and> i_kind i = kind \<and> pg_lower L (i_value i) = pg_lower L value)"

definition primary_taken :: "uuid \<Rightarrow> string \<Rightarrow> tables \<Rightarrow> bool" where
  "primary_taken user_id kind d \<longleftrightarrow>
     (\<exists>i\<in>set (identifiers d). i_deleted_at i = None \<and> i_is_primary i \<and> i_user_id i = user_id \<and> i_kind i = kind)"

definition create_identifier ::
    "lib \<Rightarrow> timestamp \<Rightarrow> uuid \<Rightarrow> string \<Rightarrow> string \<Rightarrow> bool \<Rightarrow> timestamp option \<Rightarrow>
     ('g, 'r, sqlx_error, identifier_row) sact" where
  "create_identifier L now user_id kind value is_primary verified_at =
     (let value = to_lowercase L value in
      db_query L [kind, value] (\<lambda>d n.
       let row = \<lparr> i_id = pg_uuid L n, i_user_id = user_id, i_kind = kind, i_value = value,
                   i_is_primary = is_primary, i_verified_at = verified_at, i_created_at = now,
                   i_updated_at = now, i_deleted_at = None \<rparr>
       in if 32 < char_count kind \<or> 255 < char_count value then Err too_long
          else if i_id row \<in> i_id ` set (identifiers d) \<or> identifier_taken L kind value d \<or>
                  is_primary \<and> primary_taken user_id kind d
          then Err unique_violation
          else if user_id \<notin> u_id ` set (users d) then Err foreign_key_violation
          else Ok (row, d\<lparr>identifiers := identifiers d @ [row]\<rparr>, n + 1)))"

text \<open>The join of users and identifiers that the lookup selects from.\<close>

definition user_by_identifier :: "lib \<Rightarrow> string \<Rightarrow> string \<Rightarrow> tables \<Rightarrow> user_row option" where
  "user_by_identifier L kind value d =
     find (\<lambda>u. u_deleted_at u = None \<and>
               (\<exists>i\<in>set (identifiers d). i_user_id i = u_id u \<and> i_kind i = kind \<and>
                  pg_lower L (i_value i) = value \<and> i_deleted_at i = None)) (users d)"

definition find_user_by_identifier ::
    "lib \<Rightarrow> string \<Rightarrow> string \<Rightarrow> ('g, 'r, sqlx_error, user_row option) sact" where
  "find_user_by_identifier L kind value =
     (let value = to_lowercase L value in
      db_read L [kind, value] (user_by_identifier L kind value))"

section \<open>Login attempts\<close>

definition record_login_attempt ::
    "lib \<Rightarrow> timestamp \<Rightarrow> string \<Rightarrow> string \<Rightarrow> ip_address \<Rightarrow> bool \<Rightarrow> string option \<Rightarrow>
     ('g, 'r, sqlx_error, unit) sact" where
  "record_login_attempt L now kind value ip success failure_reason =
     (let value = to_lowercase L value in
      db_query L ([kind, value] @ (case failure_reason of None \<Rightarrow> [] | Some s \<Rightarrow> [s])) (\<lambda>d n.
       let row = \<lparr> l_id = pg_uuid L n, l_identifier_kind = kind, l_identifier_value = value,
                   l_ip_address = ip, l_success = success, l_failure_reason = failure_reason,
                   l_created_at = now \<rparr>
       in if 32 < char_count kind \<or> 255 < char_count value then Err too_long
          else if l_id row \<in> l_id ` set (login_attempts d) then Err unique_violation
          else Ok ((), d\<lparr>login_attempts := login_attempts d @ [row]\<rparr>, n + 1)))"

definition count_recent_failed_attempts ::
    "lib \<Rightarrow> string \<Rightarrow> string \<Rightarrow> timestamp \<Rightarrow> ('g, 'r, sqlx_error, int) sact" where
  "count_recent_failed_attempts L kind value since =
     (let value = to_lowercase L value in
      db_read L [kind, value] (\<lambda>d.
        int (length (filter (\<lambda>l. l_identifier_kind l = kind \<and> pg_lower L (l_identifier_value l) = value \<and>
                                 \<not> l_success l \<and> since \<le> l_created_at l) (login_attempts d)))))"

section \<open>How statements run\<close>

lemma db_query_Ok_iff:
  "db_query L texts stmt w = (Ok a, w') \<longleftrightarrow>
     db_fault L (calls w) = None \<and> \<not> is_aborted (tx w) \<and> list_all pg_text texts \<and>
     (\<exists>d n. stmt (db w) (pg_draws w) = Ok (a, d, n) \<and>
            w' = w\<lparr>calls := calls w + 1, db := d, pg_draws := n\<rparr>)"
  by (auto simp: db_query_def Let_def split: option.splits res.splits if_splits)

lemma db_query_failed:
  assumes "db_query L texts stmt w = (r, w')" and "\<not> is_ok r"
  shows "w' = w\<lparr>calls := calls w + 1, tx := mark_aborted (tx w)\<rparr>"
  using assms by (auto simp: db_query_def Let_def split: option.splits res.splits if_splits)

lemma db_query_panic: "fst (db_query L texts stmt w) = Panic \<Longrightarrow> stmt (db w) (pg_draws w) = Panic"
  by (auto simp: db_query_def Let_def split: option.splits res.splits if_splits)

lemma db_query_valid:
  assumes ok: "\<And>w a d n. P w \<Longrightarrow> \<not> is_aborted (tx w) \<Longrightarrow> stmt (db w) (pg_draws w) = Ok (a, d, n) \<Longrightarrow>
        Q a (w\<lparr>calls := calls w + 1, db := d, pg_draws := n\<rparr>)"
    and err: "\<And>w e. P w \<Longrightarrow> E (Some e) (w\<lparr>calls := calls w + 1, tx := mark_aborted (tx w)\<rparr>)"
    and no_panic: "\<And>d n. stmt d n \<noteq> Panic"
  shows "act_valid P (db_query L texts stmt) Q E"
  unfolding act_valid_outcome
proof (intro allI impI)
  fix w r w' assume w: "P w" "db_query L texts stmt w = (r, w')"
  show "case r of Ok a \<Rightarrow> Q a w' | Err e \<Rightarrow> E (Some e) w' | Panic \<Rightarrow> E None w'"
  proof (cases r)
    case (Ok a)
    with w ok show ?thesis by (auto simp: db_query_Ok_iff)
  next
    case (Err e)
    with w err db_query_failed [OF w(2)] show ?thesis by simp
  next
    case Panic
    with w no_panic db_query_panic [of L texts stmt w] show ?thesis by auto
  qed
qed

text \<open>A condition on the tables that a statement keeps. \<open>T\<close> says which transaction is open: it
  must allow the transaction to be aborted.\<close>

definition holds :: "(tx_state \<Rightarrow> bool) \<Rightarrow> (tables \<Rightarrow> bool) \<Rightarrow> nat \<Rightarrow> ('g, 'r) world \<Rightarrow> bool" where
  "holds T I n w \<longleftrightarrow> T (tx w) \<and> n \<le> w_draws w \<and> I (db w)"

definition in_tx :: "tables \<Rightarrow> tx_state \<Rightarrow> bool" where
  "in_tx D t \<longleftrightarrow> (\<exists>b. t = InTx D b)"

definition no_tx :: "tx_state \<Rightarrow> bool" where
  "no_tx t \<longleftrightarrow> t = Auto"

definition abortable :: "(tx_state \<Rightarrow> bool) \<Rightarrow> bool" where
  "abortable T \<longleftrightarrow> (\<forall>t. T t \<longrightarrow> T (mark_aborted t))"

lemma abortable_intros [intro, simp]: "abortable (in_tx D)" "abortable no_tx"
  by (auto simp: abortable_def in_tx_def no_tx_def)

lemma no_tx_simps [simp]: "no_tx Auto" "\<not> no_tx (InTx D b)" "in_tx D (InTx D' b) \<longleftrightarrow> D' = D" "\<not> in_tx D Auto"
  by (auto simp: no_tx_def in_tx_def)

definition keeps :: "(tables \<Rightarrow> bool) \<Rightarrow> 'a statement \<Rightarrow> bool" where
  "keeps I stmt \<longleftrightarrow> (\<forall>d n. I d \<longrightarrow> (case stmt d n of Ok (a, d', n') \<Rightarrow> I d' | Err e \<Rightarrow> True | Panic \<Rightarrow> False))"

lemma db_query_keeps:
  assumes "abortable T" and "keeps I stmt"
  shows "act_valid (holds T I n) (db_query L texts stmt) (\<lambda>_. holds T I n) (\<lambda>_. holds T I n)"
  unfolding act_valid_outcome
proof (intro allI impI)
  fix w r w' assume w: "holds T I n w" "db_query L texts stmt w = (r, w')"
  show "case r of Ok a \<Rightarrow> holds T I n w' | Err e \<Rightarrow> holds T I n w' | Panic \<Rightarrow> holds T I n w'"
  proof (cases r)
    case (Ok a)
    with w obtain d k where st: "stmt (db w) (pg_draws w) = Ok (a, d, k)"
      "w' = w\<lparr>calls := calls w + 1, db := d, pg_draws := k\<rparr>"
      by (auto simp: db_query_Ok_iff)
    have "case stmt (db w) (pg_draws w) of Ok (a, d', n') \<Rightarrow> I d' | Err e \<Rightarrow> True | Panic \<Rightarrow> False"
      using assms(2) w(1) by (simp add: keeps_def holds_def)
    with st w(1) Ok show ?thesis by (simp add: holds_def)
  qed (use w assms db_query_failed [OF w(2)] in \<open>auto simp: holds_def abortable_def\<close>)
qed

lemma db_read_keeps:
  assumes "abortable T"
  shows "act_valid (holds T I n) (db_read L texts g) (\<lambda>_. holds T I n) (\<lambda>_. holds T I n)"
  unfolding db_read_def using assms by (intro db_query_keeps) (auto simp: keeps_def)

lemma db_exec_keeps:
  assumes "abortable T" and "\<And>d. I d \<Longrightarrow> I (f d)"
  shows "act_valid (holds T I n) (db_exec L texts f) (\<lambda>_. holds T I n) (\<lambda>_. holds T I n)"
  unfolding db_exec_def using assms by (intro db_query_keeps) (auto simp: keeps_def)

lemma drop_tx_in_tx: "in_tx D (tx w) \<Longrightarrow> drop_tx w = w\<lparr>db := D, tx := Auto, tx_settings := []\<rparr>"
  by (auto simp: in_tx_def drop_tx_def)

lemma drop_tx_Auto: "tx w = Auto \<Longrightarrow> drop_tx w = w"
  by (simp add: drop_tx_def)

lemma world_same:
  "tx w = Auto \<Longrightarrow> w\<lparr>calls := c, tx := Auto\<rparr> = w\<lparr>calls := c\<rparr>"
  "w\<lparr>calls := c, db := db w, pg_draws := pg_draws w\<rparr> = w\<lparr>calls := c\<rparr>"
  by (cases w, simp)+

text \<open>A transaction: what its body proves from the snapshot, and that it is rolled back unless it
  was committed.\<close>

lemma with_tx_valid:
  assumes body: "act_valid (\<lambda>w. P w \<and> tx w = InTx D False \<and> db w = D) body
      (\<lambda>a w. Q a (drop_tx w)) (\<lambda>e w. E e (drop_tx w))"
    and start: "\<And>w. P w \<Longrightarrow> P (w\<lparr>calls := calls w + 1\<rparr>)"
      "\<And>w. P w \<Longrightarrow> P (w\<lparr>tx := InTx (db w) False\<rparr>)"
    and fail: "\<And>w e. P w \<Longrightarrow> tx w = Auto \<Longrightarrow> db w = D \<Longrightarrow> E (Some e) (w\<lparr>calls := calls w + 1\<rparr>)"
  shows "act_valid (\<lambda>w. P w \<and> tx w = Auto \<and> db w = D) (with_tx L body) Q E"
  unfolding with_tx_def
proof (rule act_valid_bind)
  show "act_valid (\<lambda>w. P w \<and> tx w = Auto \<and> db w = D) (act_map_err service_from_sqlx (begin_tx L))
          (\<lambda>_ w. P w \<and> tx w = InTx D False \<and> db w = D) E"
    unfolding begin_tx_def
  proof (intro act_valid_map_err act_valid_bind)
    show "act_valid (\<lambda>w. P w \<and> tx w = Auto \<and> db w = D) (db_read L [] (\<lambda>_. ()))
            (\<lambda>_ w. P w \<and> tx w = Auto \<and> db w = D) (\<lambda>e. E (map_option service_from_sqlx e))"
      unfolding db_read_def using start(1) fail
      by (intro db_query_valid) (auto simp: world_same)
    show "act_valid (\<lambda>w. P w \<and> tx w = Auto \<and> db w = D) (\<lambda>w. (Ok (), w\<lparr>tx := InTx (db w) False\<rparr>))
            (\<lambda>_ w. P w \<and> tx w = InTx D False \<and> db w = D) (\<lambda>e. E (map_option service_from_sqlx e))"
      using start(2) by (auto simp: act_valid_def)
  qed
  show "act_valid (\<lambda>w. P w \<and> tx w = InTx D False \<and> db w = D)
          (\<lambda>w. case body w of (r, w') \<Rightarrow> (r, drop_tx w')) Q E"
    using body by (fastforce simp: act_valid_outcome split: res.splits prod.splits)
qed

end
