(* ===== verification/Refresh_Tokens.thy ===== *)
theory Refresh_Tokens
  imports Store
begin

text \<open>
  \<open>store/repo/refresh_tokens.rs\<close>: the table of refresh tokens. \<open>token_hash\<close> is unique, so the
  statements that select by it concern one row at most.
\<close>

definition opt_text :: "string option \<Rightarrow> string list" where
  "opt_text t = (case t of None \<Rightarrow> [] | Some s \<Rightarrow> [s])"

definition create_refresh_token ::
    "lib \<Rightarrow> timestamp \<Rightarrow> create_refresh_token_params \<Rightarrow> ('g, 'r, sqlx_error, refresh_token_row) sact" where
  "create_refresh_token L now params =
     db_query L ([p_token_hash params, p_dpop_jkt params] @ opt_text (p_user_agent params)) (\<lambda>d n.
       let row = \<lparr> r_id = pg_uuid L n, r_user_id = p_user_id params, r_token_hash = p_token_hash params,
                   r_fam = p_fam params, r_dpop_jkt = p_dpop_jkt params,
                   r_user_agent = p_user_agent params, r_expires_at = p_expires_at params,
                   r_revoked_at = None, r_created_at = now \<rparr>
       in if 64 < char_count (p_dpop_jkt params) then Err too_long
          else if r_id row \<in> r_id ` set (refresh_tokens d) \<or>
                  r_token_hash row \<in> r_token_hash ` set (refresh_tokens d)
          then Err unique_violation
          else if r_user_id row \<notin> u_id ` set (users d) then Err foreign_key_violation
          else Ok (row, d\<lparr>refresh_tokens := refresh_tokens d @ [row]\<rparr>, n + 1))"

definition find_refresh_token_by_hash ::
    "lib \<Rightarrow> string \<Rightarrow> ('g, 'r, sqlx_error, refresh_token_row option) sact" where
  "find_refresh_token_by_hash L token_hash =
     db_read L [token_hash] (\<lambda>d. find (\<lambda>r. r_token_hash r = token_hash) (refresh_tokens d))"

text \<open>\<open>UPDATE dpop_refresh_tokens SET revoked_at = now() WHERE P AND revoked_at IS NULL\<close>.\<close>

definition revoke_where :: "timestamp \<Rightarrow> (refresh_token_row \<Rightarrow> bool) \<Rightarrow> tables \<Rightarrow> tables" where
  "revoke_where now P d =
     d\<lparr>refresh_tokens := update_where (\<lambda>r. P r \<and> r_revoked_at r = None)
         (\<lambda>r. r\<lparr>r_revoked_at := Some now\<rparr>) (refresh_tokens d)\<rparr>"

definition revoke_refresh_token :: "lib \<Rightarrow> timestamp \<Rightarrow> uuid \<Rightarrow> ('g, 'r, sqlx_error, unit) sact" where
  "revoke_refresh_token L now token_id = db_exec L [] (revoke_where now (\<lambda>r. r_id r = token_id))"

definition revoke_refresh_token_family :: "lib \<Rightarrow> timestamp \<Rightarrow> uuid \<Rightarrow> ('g, 'r, sqlx_error, unit) sact" where
  "revoke_refresh_token_family L now fam = db_exec L [] (revoke_where now (\<lambda>r. r_fam r = fam))"

definition revoke_refresh_token_if_active ::
    "lib \<Rightarrow> timestamp \<Rightarrow> string \<Rightarrow> ('g, 'r, sqlx_error, refresh_token_row option) sact" where
  "revoke_refresh_token_if_active L now token_hash =
     db_query L [token_hash] (\<lambda>d n.
       Ok (map_option (\<lambda>r. r\<lparr>r_revoked_at := Some now\<rparr>)
             (find (\<lambda>r. r_token_hash r = token_hash \<and> r_revoked_at r = None) (refresh_tokens d)),
           revoke_where now (\<lambda>r. r_token_hash r = token_hash) d, n))"

definition revoke_refresh_token_by_hash :: "lib \<Rightarrow> timestamp \<Rightarrow> string \<Rightarrow> ('g, 'r, sqlx_error, unit) sact" where
  "revoke_refresh_token_by_hash L now token_hash =
     db_exec L [token_hash] (revoke_where now (\<lambda>r. r_token_hash r = token_hash))"

definition revoke_all_refresh_tokens_for_user ::
    "lib \<Rightarrow> timestamp \<Rightarrow> uuid \<Rightarrow> ('g, 'r, sqlx_error, unit) sact" where
  "revoke_all_refresh_tokens_for_user L now user_id =
     db_exec L [] (revoke_where now (\<lambda>r. r_user_id r = user_id))"

section \<open>Families of tokens\<close>

text \<open>The abstract view of the table: how the tokens of all families may change in one operation
  of the service. The first component counts the random draws made so far.\<close>

type_synonym token_view = "nat \<times> refresh_token_row list"

definition active :: "refresh_token_row \<Rightarrow> bool" where
  "active r \<longleftrightarrow> r_revoked_at r = None"

definition revoke_rows ::
    "timestamp \<Rightarrow> (refresh_token_row \<Rightarrow> bool) \<Rightarrow> refresh_token_row list \<Rightarrow> refresh_token_row list" where
  "revoke_rows now P ts =
     update_where (\<lambda>r. P r \<and> r_revoked_at r = None) (\<lambda>r. r\<lparr>r_revoked_at := Some now\<rparr>) ts"

lemma refresh_tokens_revoke_where [simp]:
  "refresh_tokens (revoke_where now P d) = revoke_rows now P (refresh_tokens d)"
  by (simp add: revoke_where_def revoke_rows_def)

lemma revoke_where_frame [simp]:
  "users (revoke_where now P d) = users d" "identifiers (revoke_where now P d) = identifiers d"
  "login_attempts (revoke_where now P d) = login_attempts d"
  "recovery_codes (revoke_where now P d) = recovery_codes d" "outbox (revoke_where now P d) = outbox d"
  by (simp_all add: revoke_where_def)

definition same_session :: "refresh_token_row \<Rightarrow> refresh_token_row \<Rightarrow> bool" where
  "same_session r s \<longleftrightarrow>
     r_fam r = r_fam s \<and> r_user_id r = r_user_id s \<and> r_dpop_jkt r = r_dpop_jkt s \<and>
     r_expires_at r = r_expires_at s"

inductive token_step :: "lib \<Rightarrow> token_view \<Rightarrow> token_view \<Rightarrow> bool" for L where
  idle: "n \<le> n' \<Longrightarrow> token_step L (n, ts) (n', ts)"
| revoke: "n \<le> n' \<Longrightarrow> token_step L (n, ts) (n', revoke_rows now P ts)"
| new_session: "\<lbrakk> n \<le> i; i < n'; r_fam row = new_v4 L i; active row;
     r_token_hash row \<notin> r_token_hash ` set ts \<rbrakk> \<Longrightarrow> token_step L (n, ts) (n', ts @ [row])"
| rotate: "\<lbrakk> n \<le> n'; old \<in> set ts; active old; same_session old row; active row;
     r_token_hash row \<notin> r_token_hash ` set ts \<rbrakk> \<Longrightarrow>
     token_step L (n, ts) (n', revoke_rows now (\<lambda>r. r_token_hash r = r_token_hash old) ts @ [row])"

definition active_in :: "uuid \<Rightarrow> refresh_token_row list \<Rightarrow> refresh_token_row list" where
  "active_in fam ts = filter (\<lambda>r. r_fam r = fam \<and> active r) ts"

definition family_inv :: "lib \<Rightarrow> token_view \<Rightarrow> bool" where
  "family_inv L v \<longleftrightarrow>
     distinct (map r_token_hash (snd v)) \<and>
     (\<forall>r\<in>set (snd v). r_fam r \<in> new_v4 L ` {..<fst v}) \<and>
     (\<forall>r\<in>set (snd v). \<forall>s\<in>set (snd v). r_fam r = r_fam s \<longrightarrow> same_session r s) \<and>
     (\<forall>fam. length (active_in fam (snd v)) \<le> 1)"

lemma same_session_refl [simp]: "same_session r r"
  by (simp add: same_session_def)

lemma same_session_revoked [simp]:
  "same_session (r\<lparr>r_revoked_at := x\<rparr>) s \<longleftrightarrow> same_session r s"
  "same_session r (s\<lparr>r_revoked_at := x\<rparr>) \<longleftrightarrow> same_session r s"
  by (simp_all add: same_session_def)

lemma hashes_revoke_rows [simp]: "map r_token_hash (revoke_rows now P ts) = map r_token_hash ts"
  by (simp add: revoke_rows_def table_simps)

lemma hash_set_revoke_rows [simp]: "r_token_hash ` set (revoke_rows now P ts) = r_token_hash ` set ts"
  by (metis hashes_revoke_rows list.set_map)

lemma in_revoke_rows:
  "r \<in> set (revoke_rows now P ts) \<Longrightarrow>
   \<exists>s\<in>set ts. r_fam r = r_fam s \<and> same_session r s \<and> (\<forall>q. same_session r q \<longleftrightarrow> same_session s q)"
  by (auto simp: revoke_rows_def in_update_where same_session_def)

lemma active_in_append: "active_in fam (xs @ ys) = active_in fam xs @ active_in fam ys"
  by (simp add: active_in_def)

lemma active_in_revoke: "active_in fam (revoke_rows now P ts) = filter (\<lambda>r. \<not> P r) (active_in fam ts)"
  by (induction ts) (auto simp: active_in_def revoke_rows_def active_def)

lemma family_invI:
  assumes "distinct (map r_token_hash ts)" and "\<And>r. r \<in> set ts \<Longrightarrow> r_fam r \<in> new_v4 L ` {..<n}"
    and "\<And>r s. r \<in> set ts \<Longrightarrow> s \<in> set ts \<Longrightarrow> r_fam r = r_fam s \<Longrightarrow> same_session r s"
    and "\<And>fam. length (active_in fam ts) \<le> 1"
  shows "family_inv L (n, ts)"
  using assms by (simp add: family_inv_def)

lemma family_invD:
  assumes "family_inv L (n, ts)"
  shows "distinct (map r_token_hash ts)" and "r \<in> set ts \<Longrightarrow> r_fam r \<in> new_v4 L ` {..<n}"
    and "r \<in> set ts \<Longrightarrow> s \<in> set ts \<Longrightarrow> r_fam r = r_fam s \<Longrightarrow> same_session r s"
    and "length (active_in fam ts) \<le> 1"
  using assms by (simp_all add: family_inv_def)

lemma family_inv_mono:
  assumes "family_inv L (n, ts)" and "n \<le> n'"
  shows "family_inv L (n', ts)"
proof (rule family_invI)
  show "r_fam r \<in> new_v4 L ` {..<n'}" if "r \<in> set ts" for r
    using family_invD(2) [OF assms(1) that] assms(2) by auto
qed (use family_invD [OF assms(1)] in auto)

lemma family_inv_revoke:
  assumes "family_inv L (n, ts)"
  shows "family_inv L (n, revoke_rows now P ts)"
proof (rule family_invI)
  show "length (active_in fam (revoke_rows now P ts)) \<le> 1" for fam
    using le_trans [OF length_filter_le family_invD(4) [OF assms]] by (simp only: active_in_revoke)
next
  fix r assume "r \<in> set (revoke_rows now P ts)"
  from in_revoke_rows [OF this] show "r_fam r \<in> new_v4 L ` {..<n}"
    using family_invD(2) [OF assms] by metis
next
  fix r s assume rs: "r \<in> set (revoke_rows now P ts)" "s \<in> set (revoke_rows now P ts)" "r_fam r = r_fam s"
  from in_revoke_rows [OF rs(1)] obtain r' where r': "r' \<in> set ts" "r_fam r = r_fam r'" "same_session r r'" by auto
  from in_revoke_rows [OF rs(2)] obtain s' where s': "s' \<in> set ts" "r_fam s = r_fam s'" "same_session s s'" by auto
  have "same_session r' s'" using family_invD(3) [OF assms r'(1) s'(1)] r' s' rs(3) by simp
  with r'(3) s'(3) show "same_session r s" by (simp add: same_session_def)
qed (use family_invD(1) [OF assms] in simp)

lemma family_inv_append:
  assumes inv: "family_inv L (n, ts)" and hash: "r_token_hash row \<notin> r_token_hash ` set ts"
    and fam: "r_fam row \<in> new_v4 L ` {..<n}"
    and same: "\<And>r. r \<in> set ts \<Longrightarrow> r_fam r = r_fam row \<Longrightarrow> same_session r row"
    and none: "active_in (r_fam row) ts = []"
  shows "family_inv L (n, ts @ [row])"
proof (rule family_invI)
  show "length (active_in fam (ts @ [row])) \<le> 1" for fam
    using none family_invD(4) [OF inv, of fam]
    by (cases "fam = r_fam row") (simp_all add: active_in_append active_in_def)
next
  fix r s assume "r \<in> set (ts @ [row])" "s \<in> set (ts @ [row])" "r_fam r = r_fam s"
  then consider "r \<in> set ts" "s \<in> set ts" | "r \<in> set ts" "s = row" | "r = row" "s \<in> set ts" | "r = s" by auto
  then show "same_session r s"
  proof cases
    case 1
    then show ?thesis using family_invD(3) [OF inv] \<open>r_fam r = r_fam s\<close> by blast
  next
    case 2
    then show ?thesis using same \<open>r_fam r = r_fam s\<close> by simp
  next
    case 3
    then show ?thesis using same [of s] \<open>r_fam r = r_fam s\<close> by (simp add: same_session_def)
  qed simp
qed (use family_invD(1,2) [OF inv] hash fam in auto)

lemma family_inv_new_session:
  assumes "uuid_laws L" and "family_inv L (n, ts)" and "n \<le> i" and "i < n'" and "r_fam row = new_v4 L i"
    and "r_token_hash row \<notin> r_token_hash ` set ts"
  shows "family_inv L (n', ts @ [row])"
proof -
  have fresh: "r_fam r \<noteq> r_fam row" if "r \<in> set ts" for r
  proof
    assume "r_fam r = r_fam row"
    with family_invD(2) [OF assms(2) that] assms(5) obtain j where "j < n" "new_v4 L j = new_v4 L i" by auto
    with uuid_laws.new_v4_inj [OF assms(1), of j i] assms(3) show False by simp
  qed
  show ?thesis
  proof (rule family_inv_append)
    show "family_inv L (n', ts)" using family_inv_mono [OF assms(2)] assms(3,4) by simp
    show "active_in (r_fam row) ts = []" using fresh by (auto simp: active_in_def filter_empty_conv)
  qed (use fresh assms(4-6) in auto)
qed

lemma family_inv_rotate:
  assumes inv: "family_inv L (n, ts)" and old: "old \<in> set ts" "active old"
    and row: "same_session old row" "r_token_hash row \<notin> r_token_hash ` set ts"
  shows "family_inv L (n, revoke_rows now (\<lambda>r. r_token_hash r = r_token_hash old) ts @ [row])"
proof (rule family_inv_append)
  have fam: "r_fam row = r_fam old" using row(1) by (simp add: same_session_def)
  have "old \<in> set (active_in (r_fam row) ts)" using old fam by (simp add: active_in_def)
  then have "active_in (r_fam row) ts = [old]"
    using family_invD(4) [OF inv, of "r_fam row"]
    by (cases "active_in (r_fam row) ts"; cases "tl (active_in (r_fam row) ts)") auto
  then show "active_in (r_fam row) (revoke_rows now (\<lambda>r. r_token_hash r = r_token_hash old) ts) = []"
    by (simp add: active_in_revoke)
  show "r_fam row \<in> new_v4 L ` {..<n}" using family_invD(2) [OF inv old(1)] fam by simp
  fix r assume "r \<in> set (revoke_rows now (\<lambda>r. r_token_hash r = r_token_hash old) ts)" "r_fam r = r_fam row"
  with in_revoke_rows obtain s where s: "s \<in> set ts" "r_fam r = r_fam s" "same_session r s" by metis
  have "same_session s old" using family_invD(3) [OF inv s(1) old(1)] s(2) fam \<open>r_fam r = r_fam row\<close> by simp
  with s(3) row(1) show "same_session r row" by (simp add: same_session_def)
qed (use family_inv_revoke [OF inv] row(2) in simp_all)

lemma family_inv_step:
  assumes "uuid_laws L" and "token_step L v v'" and "family_inv L v"
  shows "family_inv L v'"
  using assms(2,3)
proof (induction rule: token_step.induct)
  case (idle n n' ts)
  then show ?case by (rule family_inv_mono [rotated])
next
  case (revoke n n' ts now P)
  then show ?case by (intro family_inv_revoke) (rule family_inv_mono)
next
  case (new_session n i n' row ts)
  then show ?case by (intro family_inv_new_session [OF assms(1)]) auto
next
  case (rotate n n' old ts row now)
  then show ?case by (intro family_inv_rotate) (auto intro: family_inv_mono)
qed

lemma token_step_draws: "token_step L v v' \<Longrightarrow> fst v \<le> fst v'"
  by (induction rule: token_step.induct) auto

lemma token_step_later: "token_step L (n, ts) (n', ts') \<Longrightarrow> n' \<le> n'' \<Longrightarrow> token_step L (n, ts) (n'', ts')"
  by (erule token_step.cases) (auto intro: token_step.intros)

text \<open>The machine of the families.\<close>

definition token_init :: "token_view \<Rightarrow> bool" where
  "token_init v \<longleftrightarrow> snd v = []"

lemma token_init_inv: "token_init v \<Longrightarrow> family_inv L v"
  by (simp add: token_init_def family_inv_def active_in_def)

sublocale uuid_laws \<subseteq> tokens: machine token_init "token_step L" "family_inv L"
  by unfold_locales (auto intro: token_init_inv family_inv_step [OF uuid_laws_axioms])

text \<open>A family without an active token never has one again.\<close>

definition dead :: "uuid \<Rightarrow> token_view \<Rightarrow> bool" where
  "dead fam v \<longleftrightarrow> fam \<in> r_fam ` set (snd v) \<and> active_in fam (snd v) = []"

lemma families_revoke_rows: "r_fam ` set (revoke_rows now P ts) = r_fam ` set ts"
proof -
  have "map r_fam (revoke_rows now P ts) = map r_fam ts"
    by (simp add: revoke_rows_def table_simps)
  then show ?thesis by (metis list.set_map)
qed

lemma dead_step:
  assumes "uuid_laws L" and "token_step L v v'" and "family_inv L v" and "dead fam v"
  shows "dead fam v'"
  using assms(2,3,4)
proof (induction rule: token_step.induct)
  case (revoke n n' ts now P)
  then show ?case by (simp add: dead_def active_in_revoke families_revoke_rows)
next
  case (new_session n i n' row ts)
  have "r_fam row \<noteq> fam"
  proof
    assume "r_fam row = fam"
    moreover from new_session have "fam \<in> r_fam ` set ts" by (simp add: dead_def)
    then obtain r where "r \<in> set ts" "r_fam r = fam" by blast
    ultimately obtain j where "j < n" "new_v4 L j = new_v4 L i"
      using family_invD(2) [OF new_session.prems(1), of r] new_session.hyps(3) by auto
    with uuid_laws.new_v4_inj [OF assms(1), of j i] new_session.hyps(1) show False by simp
  qed
  with new_session show ?case by (simp add: dead_def active_in_append active_in_def)
next
  case (rotate n n' old ts row now)
  have "old \<in> set (active_in (r_fam old) ts)" using rotate by (simp add: active_in_def)
  with rotate have "r_fam old \<noteq> fam" by (auto simp: dead_def)
  with rotate have "r_fam row \<noteq> fam" by (simp add: same_session_def)
  then have "active_in fam [row] = []" by (simp add: active_in_def)
  with rotate show ?case by (simp add: dead_def active_in_append active_in_revoke families_revoke_rows)
qed (simp add: dead_def)

sublocale uuid_laws \<subseteq> ended: machine "\<lambda>v. family_inv L v \<and> dead fam v" "token_step L"
    "\<lambda>v. family_inv L v \<and> dead fam v" for fam
  by unfold_locales (auto intro: tokens.step_inv dead_step [OF uuid_laws_axioms])

context uuid_laws
begin

lemma ended_session_stays:
  "(token_step L)\<^sup>*\<^sup>* v v' \<Longrightarrow> family_inv L v \<Longrightarrow> dead fam v \<Longrightarrow> dead fam v'"
  using ended.steps_inv [of v v' fam] by simp

end

text \<open>What one statement of the table does to the families.\<close>

lemma create_refresh_token_Ok:
  assumes "create_refresh_token L now p w = (Ok row, w')"
  shows "row = \<lparr> r_id = pg_uuid L (pg_draws w), r_user_id = p_user_id p, r_token_hash = p_token_hash p,
      r_fam = p_fam p, r_dpop_jkt = p_dpop_jkt p, r_user_agent = p_user_agent p,
      r_expires_at = p_expires_at p, r_revoked_at = None, r_created_at = now \<rparr> \<and>
    r_token_hash row \<notin> r_token_hash ` set (refresh_tokens (db w)) \<and>
    w' = w\<lparr>calls := calls w + 1, db := (db w)\<lparr>refresh_tokens := refresh_tokens (db w) @ [row]\<rparr>,
           pg_draws := pg_draws w + 1\<rparr>"
  using assms by (auto simp: create_refresh_token_def db_query_Ok_iff Let_def split: if_splits)

lemma create_refresh_token_failed:
  "create_refresh_token L now p w = (r, w') \<Longrightarrow> \<not> is_ok r \<Longrightarrow>
   w' = w\<lparr>calls := calls w + 1, tx := mark_aborted (tx w)\<rparr>"
  unfolding create_refresh_token_def by (rule db_query_failed)

lemma revoke_if_active_Ok:
  assumes "revoke_refresh_token_if_active L now h w = (Ok found, w')"
  shows "w' = w\<lparr>calls := calls w + 1, db := revoke_where now (\<lambda>r. r_token_hash r = h) (db w)\<rparr> \<and>
    (case found of
       None \<Rightarrow> (\<forall>r\<in>set (refresh_tokens (db w)). r_token_hash r = h \<longrightarrow> \<not> active r) \<and> db w' = db w
     | Some row \<Rightarrow> \<exists>old\<in>set (refresh_tokens (db w)). r_token_hash old = h \<and> active old \<and>
           row = old\<lparr>r_revoked_at := Some now\<rparr>)"
proof -
  have w': "w' = w\<lparr>calls := calls w + 1, db := revoke_where now (\<lambda>r. r_token_hash r = h) (db w)\<rparr>"
    and found: "found = map_option (\<lambda>r. r\<lparr>r_revoked_at := Some now\<rparr>)
             (find (\<lambda>r. r_token_hash r = h \<and> r_revoked_at r = None) (refresh_tokens (db w)))"
    using assms by (auto simp: revoke_refresh_token_if_active_def db_query_Ok_iff)
  have "revoke_where now (\<lambda>r. r_token_hash r = h) (db w) = db w"
    if "\<forall>r\<in>set (refresh_tokens (db w)). r_token_hash r = h \<longrightarrow> \<not> active r"
    using that update_where_none [of "refresh_tokens (db w)" "\<lambda>r. r_token_hash r = h \<and> r_revoked_at r = None"]
    by (simp add: revoke_where_def active_def)
  with w' found show ?thesis
    by (auto simp: find_Some_iff find_None_iff active_def split: option.splits)
qed

end
