(* ===== verification/Token.thy ===== *)
theory Token
  imports Config Crypto
begin

text \<open>
  \<open>token.rs\<close>: access tokens that are bound to a key. The payload of a token is the list of its
  JSON members; \<open>claims_to_members\<close> and \<open>claims_from_members\<close> are the derived \<open>Serialize\<close> and
  \<open>Deserialize\<close> of \<open>AccessTokenClaims\<close>, with the flattened map of application claims. The texts
  of serde's error messages are abbreviated.
\<close>

section \<open>Claims\<close>

record confirmation =
  conf_jkt :: string

record access_token_claims =
  t_sub :: string
  t_iss :: string
  t_aud :: string
  t_exp :: u64
  t_iat :: u64
  t_jti :: string
  t_cnf :: confirmation
  t_extra :: members

definition RESERVED :: "string list" where
  "RESERVED = [''sub'', ''iss'', ''aud'', ''exp'', ''iat'', ''jti'', ''cnf'']"

definition claims_to_members :: "access_token_claims \<Rightarrow> members" where
  "claims_to_members c =
     [(''sub'', JStr (t_sub c)),
      (''iss'', JStr (t_iss c)),
      (''aud'', JStr (t_aud c)),
      (''exp'', JNum (uint (t_exp c))),
      (''iat'', JNum (uint (t_iat c))),
      (''jti'', JStr (t_jti c)),
      (''cnf'', JObj [(''jkt'', JStr (conf_jkt (t_cnf c)))])] @ t_extra c"

subsection \<open>Deserialization\<close>

definition missing_field :: "string \<Rightarrow> string" where
  "missing_field k = ''missing field '' @ k"

definition duplicate_field :: "string \<Rightarrow> string" where
  "duplicate_field k = ''duplicate field '' @ k"

definition invalid_type :: "string \<Rightarrow> string" where
  "invalid_type k = ''invalid type: '' @ k"

fun de_string :: "json \<Rightarrow> string + string" where
  "de_string (JStr s) = Inr s"
| "de_string _ = Inl (invalid_type ''expected a string'')"

fun de_u64 :: "json \<Rightarrow> string + u64" where
  "de_u64 (JNum n) = (if 0 \<le> n \<and> n < 2 ^ 64 then Inr (word_of_int n) else Inl (invalid_type ''expected u64''))"
| "de_u64 _ = Inl (invalid_type ''expected u64'')"

text \<open>A field of a derived \<open>Deserialize\<close>: present exactly once, with a value of its type. The
  members are visited in order and each field is set at most once.\<close>

definition de_field :: "(json \<Rightarrow> string + 'a) \<Rightarrow> string \<Rightarrow> members \<Rightarrow> string + 'a" where
  "de_field de k m =
     (case filter (\<lambda>(k', _). k' = k) m of
        [] \<Rightarrow> Inl (missing_field k)
      | [(_, v)] \<Rightarrow> de v
      | _ \<Rightarrow> Inl (duplicate_field k))"

definition sum_bind :: "'e + 'a \<Rightarrow> ('a \<Rightarrow> 'e + 'b) \<Rightarrow> 'e + 'b" where
  "sum_bind x f = (case x of Inl e \<Rightarrow> Inl e | Inr a \<Rightarrow> f a)"

fun de_confirmation :: "json \<Rightarrow> string + confirmation" where
  "de_confirmation (JObj m) = sum_bind (de_field de_string ''jkt'' m) (\<lambda>j. Inr \<lparr> conf_jkt = j \<rparr>)"
| "de_confirmation (JArr [v]) = sum_bind (de_string v) (\<lambda>j. Inr \<lparr> conf_jkt = j \<rparr>)"
| "de_confirmation _ = Inl (invalid_type ''expected struct Confirmation'')"

text \<open>The flattened rest goes into a \<open>serde_json::Map\<close>, where a later member replaces an
  earlier one of the same name.\<close>

fun members_insert :: "string \<times> json \<Rightarrow> members \<Rightarrow> members" where
  "members_insert kv m = filter (\<lambda>(k, _). k \<noteq> fst kv) m @ [kv]"

definition flatten_rest :: "members \<Rightarrow> members" where
  "flatten_rest m = fold members_insert (filter (\<lambda>(k, _). k \<notin> set RESERVED) m) []"

definition claims_from_members :: "members \<Rightarrow> string + access_token_claims" where
  "claims_from_members m =
     sum_bind (de_field de_string ''sub'' m) (\<lambda>sb.
     sum_bind (de_field de_string ''iss'' m) (\<lambda>is'.
     sum_bind (de_field de_string ''aud'' m) (\<lambda>au.
     sum_bind (de_field de_u64 ''exp'' m) (\<lambda>ex.
     sum_bind (de_field de_u64 ''iat'' m) (\<lambda>ia.
     sum_bind (de_field de_string ''jti'' m) (\<lambda>ji.
     sum_bind (de_field de_confirmation ''cnf'' m) (\<lambda>cn.
     Inr \<lparr> t_sub = sb, t_iss = is', t_aud = au, t_exp = ex, t_iat = ia, t_jti = ji, t_cnf = cn,
           t_extra = flatten_rest m \<rparr>)))))))"

section \<open>Issue and verification\<close>

definition issue_access_token ::
    "lib \<Rightarrow> instant \<Rightarrow> nat \<Rightarrow> token_signer \<Rightarrow> string \<Rightarrow> string \<Rightarrow> duration \<Rightarrow> string \<Rightarrow> string \<Rightarrow>
     members \<Rightarrow> (dpop_error, string) res" where
  "issue_access_token L now_ns i tsig iss aud ttl subject jkt extra =
     (let now = as_secs now_ns;
          claims = \<lparr> t_sub = subject,
                     t_iss = iss,
                     t_aud = aud,
                     t_exp = saturating_add now (as_secs ttl),
                     t_iat = now,
                     t_jti = uuid_to_string L (new_v4 L i),
                     t_cnf = \<lparr> conf_jkt = jkt \<rparr>,
                     t_extra = extra \<rparr>;
          header = jwt_header_new L (signer_algorithm tsig)
      in map_err Internal
           (of_sum (jwt_encode L header (claims_to_members claims) (signer_encoding_key tsig))))"

definition access_validation :: "lib \<Rightarrow> algorithm \<Rightarrow> string \<Rightarrow> string \<Rightarrow> duration \<Rightarrow> validation" where
  "access_validation L algorithm iss aud skew =
     (validation_new L algorithm)
       \<lparr> validate_exp := True,
         leeway := as_secs skew,
         v_iss := Some [iss],
         v_aud := Some [aud] \<rparr>"

text \<open>\<open>jwt_error_to_dpop\<close> is the closure both \<open>verify_access_token\<close> and
  \<open>validate_dpop_proof\<close> pass to \<open>map_err\<close>.\<close>

definition jwt_error_to_dpop :: "jwt_error \<Rightarrow> dpop_error" where
  "jwt_error_to_dpop e =
     (case jwt_error_kind e of
        ExpiredSignature \<Rightarrow> Expired
      | ImmatureSignature \<Rightarrow> Expired
      | OtherKind \<Rightarrow> InvalidSignature (jwt_error_msg e))"

definition verify_access_token ::
    "lib \<Rightarrow> instant \<Rightarrow> algorithm \<Rightarrow> decoding_key \<Rightarrow> string \<Rightarrow> string \<Rightarrow> string \<Rightarrow> duration \<Rightarrow>
     (dpop_error, access_token_claims) res" where
  "verify_access_token L now_ns algorithm dk token iss aud skew =
     map_err jwt_error_to_dpop
       (of_sum (decode_as L (as_secs now_ns) claims_from_members token dk
                  (access_validation L algorithm iss aud skew)))"

section \<open>Round trip of the claims\<close>

lemma sum_bind_simps [simp]: "sum_bind (Inl e) f = Inl e" "sum_bind (Inr a) f = f a"
  by (simp_all add: sum_bind_def)

lemma sum_bind_Inr_iff: "sum_bind x f = Inr b \<longleftrightarrow> (\<exists>a. x = Inr a \<and> f a = Inr b)"
  by (cases x) simp_all

lemma uint_u64_less [simp]: "uint (w :: u64) < 18446744073709551616"
  using unsigned_less [of w] by simp

lemma de_u64_uint [simp]: "de_u64 (JNum (uint (w :: u64))) = Inr w"
  using unsigned_less [of w] by simp

lemma members_insert_fresh:
  assumes "fst kv \<notin> set (map fst m)"
  shows "members_insert kv m = m @ [kv]"
proof -
  have "filter (\<lambda>(k, _). k \<noteq> fst kv) m = m"
    by (rule filter_True) (use assms in \<open>auto simp: image_iff\<close>)
  then show ?thesis by simp
qed

lemma fold_members_insert_distinct:
  assumes "distinct (map fst (acc @ m))"
  shows "fold members_insert m acc = acc @ m"
  using assms
proof (induction m arbitrary: acc)
  case (Cons kv m)
  then have "members_insert kv acc = acc @ [kv]"
    by (intro members_insert_fresh) auto
  with Cons show ?case by (simp del: members_insert.simps)
qed simp

lemma filter_fresh_key:
  "k \<notin> set (map fst m) \<Longrightarrow> filter (\<lambda>(k', _). k' = k) m = []"
  by (force simp: filter_empty_conv)

lemma claims_round_trip:
  assumes "distinct (map fst (t_extra c))" and "set (map fst (t_extra c)) \<inter> set RESERVED = {}"
  shows "claims_from_members (claims_to_members c) = Inr c"
proof -
  have fresh: "k \<in> set RESERVED \<Longrightarrow> filter (\<lambda>(k', _). k' = k) (t_extra c) = []" for k
    using assms(2) by (intro filter_fresh_key) auto
  have "filter (\<lambda>(k, _). k \<notin> set RESERVED) (t_extra c) = t_extra c"
    using assms(2) by (auto simp: filter_id_conv)
  then have rest: "flatten_rest (claims_to_members c) = t_extra c"
    using fold_members_insert_distinct [of "[]" "t_extra c"] assms(1)
    by (simp add: flatten_rest_def claims_to_members_def RESERVED_def)
  have "de_field de k (claims_to_members c) =
          de_field de k (take 7 (claims_to_members c))" if "k \<in> set RESERVED" for de :: "json \<Rightarrow> string + 'a" and k
    using fresh [OF that] by (simp add: de_field_def claims_to_members_def)
  note fld = this
  show ?thesis
    by (simp add: claims_from_members_def fld [of _ de_string] fld [of _ de_u64] fld [of _ de_confirmation]
        RESERVED_def rest)
      (simp add: claims_to_members_def de_field_def)
qed

text \<open>A member of a reserved name in the application claims makes the field occur twice.\<close>

lemma reserved_extra_rejected:
  assumes "k \<in> set RESERVED" and "k \<in> set (map fst (t_extra c))"
  shows "claims_from_members (claims_to_members c) \<noteq> Inr c'"
proof -
  obtain v where v: "(k, v) \<in> set (t_extra c)"
    using assms(2) by auto
  then obtain kv rest where ex: "filter (\<lambda>(k', _). k' = k) (t_extra c) = kv # rest"
    by (cases "filter (\<lambda>(k', _). k' = k) (t_extra c)") (auto simp: filter_empty_conv)
  have dup: "de_field de k (claims_to_members c) = Inl (duplicate_field k)" for de :: "json \<Rightarrow> string + 'a"
    using assms(1) ex
    by (auto simp: de_field_def claims_to_members_def RESERVED_def split: list.splits)
  have dups: "de_field de_string k (claims_to_members c) = Inl (duplicate_field k)"
    "de_field de_u64 k (claims_to_members c) = Inl (duplicate_field k)"
    "de_field de_confirmation k (claims_to_members c) = Inl (duplicate_field k)"
    by (rule dup)+
  show ?thesis
    using assms(1) dups by (auto simp: claims_from_members_def sum_bind_Inr_iff RESERVED_def)
qed

definition issued_claims ::
    "lib \<Rightarrow> instant \<Rightarrow> nat \<Rightarrow> string \<Rightarrow> string \<Rightarrow> duration \<Rightarrow> string \<Rightarrow> string \<Rightarrow> members \<Rightarrow>
     access_token_claims" where
  "issued_claims L now_ns i iss aud ttl subject jkt extra =
     \<lparr> t_sub = subject, t_iss = iss, t_aud = aud,
       t_exp = saturating_add (as_secs now_ns) (as_secs ttl), t_iat = as_secs now_ns,
       t_jti = uuid_to_string L (new_v4 L i), t_cnf = \<lparr> conf_jkt = jkt \<rparr>, t_extra = extra \<rparr>"

lemma issue_access_token_Ok_iff:
  "issue_access_token L now_ns i tsig iss aud ttl subject jkt extra = Ok t \<longleftrightarrow>
   jwt_encode L (jwt_header_new L (signer_algorithm tsig))
     (claims_to_members (issued_claims L now_ns i iss aud ttl subject jkt extra))
     (signer_encoding_key tsig) = Inr t"
  by (simp add: issue_access_token_def issued_claims_def Let_def)

lemma issue_access_token_no_panic:
  "issue_access_token L now_ns i tsig iss aud ttl subject jkt extra \<noteq> Panic"
  by (simp add: issue_access_token_def Let_def)

lemma verify_access_token_Ok_iff:
  "verify_access_token L now_ns algorithm dk token iss aud skew = Ok c \<longleftrightarrow>
   (\<exists>m. jwt_decode L (as_secs now_ns) (de_error claims_from_members) token dk
          (access_validation L algorithm iss aud skew) = Inr m \<and> claims_from_members m = Inr c)"
  by (auto simp: verify_access_token_def decode_as_def split: sum.splits)

lemma exp_ok_issued:
  "exp_ok now (access_validation L algorithm iss aud skew) (claims_to_members c) \<longleftrightarrow>
   unat now \<le> unat (t_exp c) + unat (as_secs skew)"
proof -
  have "uint a \<le> uint b + uint d \<longleftrightarrow> unat a \<le> unat b + unat d" for a b d :: u64
    by (simp only: uint_nat of_nat_add [symmetric] of_nat_le_iff)
  then show ?thesis by (simp add: exp_ok_def access_validation_def claims_to_members_def)
qed

lemma access_validation_simps:
  assumes "jwt_laws L key_pair"
  shows "v_algorithm (access_validation L a iss aud skew) = a"
    and "set (required_spec_claims (access_validation L a iss aud skew)) \<subseteq> {''exp''}"
  using jwt_laws.validation_new_alg [OF assms] jwt_laws.validation_new_required [OF assms]
  by (simp_all add: access_validation_def)

lemma de_error_claims:
  assumes "distinct (map fst extra)" and "set (map fst extra) \<inter> set RESERVED = {}"
  shows "de_error claims_from_members
           (claims_to_members (issued_claims L now i iss aud ttl subject jkt extra)) = None"
  using claims_round_trip [of "issued_claims L now i iss aud ttl subject jkt extra"] assms
  by (simp add: de_error_def issued_claims_def)

lemma verify_issued:
  assumes laws: "jwt_laws L key_pair"
    and keys: "key_pair (signer_encoding_key tsig) dk"
    and extra: "distinct (map fst extra)" "set (map fst extra) \<inter> set RESERVED = {}"
    and issued: "issue_access_token L now i tsig iss aud ttl subject jkt extra = Ok token"
  shows "if unat (as_secs now') \<le>
            min (unat (as_secs now) + unat (as_secs ttl)) (2 ^ 64 - 1) + unat (as_secs skew)
         then verify_access_token L now' (signer_algorithm tsig) dk token iss aud skew =
              Ok (issued_claims L now i iss aud ttl subject jkt extra)
         else verify_access_token L now' (signer_algorithm tsig) dk token iss aud skew = Err Expired"
proof -
  let ?c = "issued_claims L now i iss aud ttl subject jkt extra"
  let ?m = "claims_to_members ?c"
  let ?v = "access_validation L (signer_algorithm tsig) iss aud skew"
  let ?dec = "jwt_decode L (as_secs now') (de_error claims_from_members) token dk ?v"
  have enc: "jwt_encode L (jwt_header_new L (signer_algorithm tsig)) ?m (signer_encoding_key tsig) = Inr token"
    using issued by (simp add: issue_access_token_Ok_iff)
  have alg: "v_algorithm ?v = alg (jwt_header_new L (signer_algorithm tsig))"
    by (simp add: access_validation_simps(1) [OF laws] jwt_laws.header_new_alg [OF laws])
  have req: "set (required_spec_claims ?v) \<subseteq> set (map fst ?m)"
    using access_validation_simps(2) [OF laws, of "signer_algorithm tsig" iss aud skew]
    by (auto simp: claims_to_members_def)
  have "iss_ok ?v ?m" "aud_ok ?v ?m"
    by (simp_all add: iss_ok_def aud_ok_def access_validation_def claims_to_members_def issued_claims_def)
  have de: "de_error claims_from_members ?m = None"
    by (rule de_error_claims [OF extra])
  have exp: "exp_ok (as_secs now') ?v ?m \<longleftrightarrow> unat (as_secs now') \<le>
            min (unat (as_secs now) + unat (as_secs ttl)) (2 ^ 64 - 1) + unat (as_secs skew)"
    by (simp add: exp_ok_issued issued_claims_def unat_saturating_add)
  show ?thesis
  proof (cases "exp_ok (as_secs now') ?v ?m")
    case True
    then have "?dec = Inr ?m"
      using jwt_laws.decode_encode_ok [OF laws enc keys alg _ req, of "de_error claims_from_members"] de
        \<open>iss_ok ?v ?m\<close> \<open>aud_ok ?v ?m\<close> by blast
    moreover have "claims_from_members ?m = Inr ?c"
      using extra by (intro claims_round_trip) (simp_all add: issued_claims_def)
    ultimately show ?thesis using True exp by (simp add: verify_access_token_Ok_iff)
  next
    case False
    then obtain msg where "?dec = Inl (JwtError ExpiredSignature msg)"
      using jwt_laws.decode_encode_expired [OF laws enc keys alg _ req, of "de_error claims_from_members"] de by blast
    then show ?thesis using False exp
      by (simp add: verify_access_token_def decode_as_def jwt_error_to_dpop_def)
  qed
qed

section \<open>Properties\<close>

text \<open>C27. A token that was issued verifies under the matching key, issuer and audience until its
  lifetime and the tolerated clock skew have passed, with exactly the claims it was issued
  with (the key binding \<open>cnf.jkt\<close> and the application claims included), and from then on it is
  reported as expired. The expiry is the sum of the issue time and the lifetime, cut off at the
  largest \<open>u64\<close>.\<close>

theorem issue_verify_round_trip:
  assumes laws: "jwt_laws L key_pair"
    and keys: "key_pair (signer_encoding_key tsig) dk"
    and extra: "distinct (map fst extra)" "set (map fst extra) \<inter> set RESERVED = {}"
    and issued: "issue_access_token L now i tsig iss aud ttl subject jkt extra = Ok token"
  shows "if unat (as_secs now') \<le>
            min (unat (as_secs now) + unat (as_secs ttl)) (2 ^ 64 - 1) + unat (as_secs skew)
         then verify_access_token L now' (signer_algorithm tsig) dk token iss aud skew =
              Ok (issued_claims L now i iss aud ttl subject jkt extra)
         else verify_access_token L now' (signer_algorithm tsig) dk token iss aud skew = Err Expired"
  using verify_issued [OF assms] .

definition demo_signer :: token_signer where
  "demo_signer = Symmetric (EncodingKey ''k'') (DecodingKey ''k'')"

definition demo_token :: "members \<Rightarrow> string" where
  "demo_token extra =
     projr (ref_jwt_encode \<lparr> header_typ = Some ''JWT'', alg = HS256, jwk_member = None \<rparr>
       (claims_to_members (issued_claims ref_lib (from_secs 1000) 7 ''iss'' ''aud'' (from_secs 900) ''u'' ''jkt'' extra))
       (EncodingKey ''k''))"

lemma demo_issued:
  "issue_access_token ref_lib (from_secs 1000) 7 demo_signer ''iss'' ''aud'' (from_secs 900) ''u'' ''jkt'' extra =
   Ok (demo_token extra)"
  by (simp add: issue_access_token_Ok_iff demo_signer_def demo_token_def)

theorem issue_verify_round_trip_witness:
  "verify_access_token ref_lib (from_secs 1950) HS256 (DecodingKey ''k'')
      (demo_token [(''role'', JStr ''admin'')]) ''iss'' ''aud'' (from_secs 60) =
     Ok (issued_claims ref_lib (from_secs 1000) 7 ''iss'' ''aud'' (from_secs 900) ''u'' ''jkt''
       [(''role'', JStr ''admin'')]) \<and>
   verify_access_token ref_lib (from_secs 1961) HS256 (DecodingKey ''k'')
      (demo_token [(''role'', JStr ''admin'')]) ''iss'' ''aud'' (from_secs 60) = Err Expired"
proof -
  have hyps: "ref_key_pair (signer_encoding_key demo_signer) (DecodingKey ''k'')"
    "distinct (map fst [(''role'', JStr ''admin'')])"
    "set (map fst [(''role'', JStr ''admin'')]) \<inter> set RESERVED = {}"
    by (simp_all add: demo_signer_def RESERVED_def)
  have secs: "unat (as_secs (from_secs n)) = n" if "n < 10000" for n
    using that by (simp add: as_secs_from_secs)
  show ?thesis
    using issue_verify_round_trip [OF ref_jwt.jwt_laws_axioms hyps demo_issued, of "from_secs 1950" "from_secs 60"]
      issue_verify_round_trip [OF ref_jwt.jwt_laws_axioms hyps demo_issued, of "from_secs 1961" "from_secs 60"]
    by (simp add: secs) (simp add: demo_signer_def)
qed

text \<open>C28. Application claims cannot override a claim the library owns: a token issued with a
  reserved name among them is accepted by no verification, whatever the key, the issuer, the
  audience and the time.\<close>

theorem reserved_claim_injection_rejected:
  assumes laws: "jwt_laws L key_pair"
    and reserved: "k \<in> set RESERVED" "k \<in> set (map fst extra)"
    and issued: "issue_access_token L now i tsig iss aud ttl subject jkt extra = Ok token"
  shows "verify_access_token L now' algorithm dk token iss' aud' skew \<noteq> Ok c"
proof
  assume "verify_access_token L now' algorithm dk token iss' aud' skew = Ok c"
  then obtain m where m: "jwt_decode L (as_secs now') (de_error claims_from_members) token dk
      (access_validation L algorithm iss' aud' skew) = Inr m" "claims_from_members m = Inr c"
    by (auto simp: verify_access_token_Ok_iff)
  let ?c = "issued_claims L now i iss aud ttl subject jkt extra"
  from issued have "m = claims_to_members ?c"
    using jwt_laws.decode_encode_shape [OF laws _ m(1)] by (auto simp: issue_access_token_Ok_iff)
  with m(2) reserved_extra_rejected [of k ?c c] reserved show False
    by (simp add: issued_claims_def)
qed

theorem reserved_claim_injection_rejected_witness:
  "''sub'' \<in> set RESERVED \<and>
   (case verify_access_token ref_lib (from_secs 1000) HS256 (DecodingKey ''k'')
           (demo_token [(''sub'', JStr ''root'')]) ''iss'' ''aud'' 0 of
      Ok c \<Rightarrow> False | _ \<Rightarrow> True)"
proof -
  have r: "''sub'' \<in> set RESERVED" "''sub'' \<in> set (map fst [(''sub'', JStr ''root'')])"
    by (simp_all add: RESERVED_def)
  show ?thesis
    using reserved_claim_injection_rejected [OF ref_jwt.jwt_laws_axioms r demo_issued,
        of "from_secs 1000" HS256 "DecodingKey ''k''" "''iss''" "''aud''" 0] r(1)
    by (auto split: res.splits)
qed

end
