(* ===== verification/Auth_Service.thy ===== *)
theory Auth_Service
  imports Refresh_Tokens Token
begin

text \<open>
  \<open>service/mod.rs\<close> and \<open>service/auth.rs\<close>: registration, login, refresh-token rotation and logout.
  An operation of the service is an action on the \<open>world\<close>, at one reading of the clock. Each
  operation runs alone; \<open>Refresh_Race\<close> takes the statements of refreshes apart and lets them interleave. The fields recorded in tracing spans are not part of the model.
\<close>

section \<open>The service\<close>

definition TOKEN_TYPE :: string where
  "TOKEN_TYPE = ''DPoP''"

definition GRACE_CAPACITY :: nat where
  "GRACE_CAPACITY = 100000"

record register_params =
  reg_kind :: string
  reg_value :: string
  reg_password :: string
  reg_name :: string
  reg_jkt :: string
  reg_client_ip :: ip_address
  reg_user_agent :: "string option"

record token_pair =
  tp_access_token :: string
  tp_refresh_token :: string
  tp_token_type :: string
  tp_expires_in :: u64

datatype login_outcome = Success token_pair | Requires2fa

record replacement_tokens =
  rt_access_token :: string
  rt_refresh_token :: string
  rt_expires_in :: u64

record auth_service =
  svc_config :: dpop_config
  dummy_hash :: string

type_synonym 'g grace_ops = "('g, uuid \<times> string, replacement_tokens) cache_ops"
type_synonym 'r replay_ops = "('r, uuid \<times> string, unit) cache_ops"

text \<open>\<open>AuthService::new\<close>: the dummy hash falls back to the empty string, and the caches start
  empty.\<close>

definition auth_service_new ::
    "lib \<Rightarrow> 'g grace_ops \<Rightarrow> 'r replay_ops \<Rightarrow> nat \<Rightarrow> dpop_config \<Rightarrow> auth_service \<times> 'g \<times> 'r" where
  "auth_service_new L G R i cfg =
     (\<lparr> svc_config = cfg,
        dummy_hash = (case hash_password L i ''dpop-auth-timing-dummy'' of Ok h \<Rightarrow> h | _ \<Rightarrow> []) \<rparr>,
      cache_build G (grace_period cfg) GRACE_CAPACITY,
      create_totp_replay_cache R)"

text \<open>The next random draw.\<close>

definition draw :: "(nat \<Rightarrow> ('e, 'a) res) \<Rightarrow> ('g, 'r, 'e, 'a) sact" where
  "draw f w = (f (w_draws w), w\<lparr>w_draws := w_draws w + 1\<rparr>)"

text \<open>\<open>as_secs() as i64\<close> reinterprets the 64 bits; the constructor of chrono's duration and the
  addition panic outside their range (\<open>None\<close>).\<close>

definition refresh_expiry :: "lib \<Rightarrow> instant \<Rightarrow> dpop_config \<Rightarrow> timestamp option" where
  "refresh_expiry L now cfg =
     (let ttl = sint (as_secs (refresh_token_ttl cfg))
      in chrono_plus_seconds L (int now) ttl)"

definition issue_user_token ::
    "lib \<Rightarrow> instant \<Rightarrow> dpop_config \<Rightarrow> user_row \<Rightarrow> string \<Rightarrow> ('g, 'r, service_error, string) sact" where
  "issue_user_token L now cfg user jkt =
     draw (\<lambda>i. map_err (\<lambda>e. ServiceInternal (dpop_error_to_string e))
       (issue_access_token L now i (signer cfg) (issuer cfg) (audience cfg) (access_token_ttl cfg)
          (uuid_to_string L (u_public_id user)) jkt [(''name'', JStr (u_name user))]))"

definition token_pair_of :: "dpop_config \<Rightarrow> string \<Rightarrow> string \<Rightarrow> token_pair" where
  "token_pair_of cfg access refresh =
     \<lparr> tp_access_token = access, tp_refresh_token = refresh, tp_token_type = TOKEN_TYPE,
       tp_expires_in = as_secs (access_token_ttl cfg) \<rparr>"

text \<open>Storing the first token of a new family: the part that \<open>issue_session\<close> and \<open>register\<close>
  have in common.\<close>

definition new_family ::
    "lib \<Rightarrow> instant \<Rightarrow> dpop_config \<Rightarrow> uuid \<Rightarrow> string \<Rightarrow> string option \<Rightarrow> ('g, 'r, service_error, string) sact" where
  "new_family L now cfg user_id jkt user_agent =
     act_bind (act_map_err service_from_dpop (draw (new_refresh_secret L))) (\<lambda>refresh_token.
     act_bind (draw (\<lambda>i. Ok (new_v4 L i))) (\<lambda>fam.
     act_bind (act_lift (or_panic (refresh_expiry L now cfg))) (\<lambda>expires_at.
     act_bind (act_map_err service_from_sqlx (create_refresh_token L (int now)
        \<lparr> p_user_id = user_id, p_token_hash = hash_token L refresh_token, p_fam = fam,
          p_dpop_jkt = jkt, p_user_agent = user_agent, p_expires_at = expires_at \<rparr>)) (\<lambda>_.
     act_return refresh_token))))"

definition issue_session ::
    "lib \<Rightarrow> instant \<Rightarrow> dpop_config \<Rightarrow> user_row \<Rightarrow> string \<Rightarrow> string option \<Rightarrow>
     ('g, 'r, service_error, token_pair) sact" where
  "issue_session L now cfg user jkt user_agent =
     act_bind (new_family L now cfg (u_id user) jkt user_agent) (\<lambda>refresh_token.
     act_bind (issue_user_token L now cfg user jkt) (\<lambda>access_token.
     act_return (token_pair_of cfg access_token refresh_token)))"

section \<open>Operations\<close>

definition authenticate_user ::
    "lib \<Rightarrow> instant \<Rightarrow> auth_service \<Rightarrow> string \<Rightarrow> string \<Rightarrow> string \<Rightarrow> ip_address \<Rightarrow>
     ('g, 'r, service_error, user_row) sact" where
  "authenticate_user L now svc kind value password client_ip =
     act_bind (act_map_err service_from_sqlx (find_user_by_identifier L kind value)) (\<lambda>opt_user.
     let hash = (case opt_user of Some u \<Rightarrow> u_password_hash u | None \<Rightarrow> dummy_hash svc) in
     act_bind (draw (\<lambda>i. verify_password_async L i password hash)) (\<lambda>valid.
     case opt_user of
       Some user \<Rightarrow>
         if valid then act_return user
         else act_bind (act_ok (record_login_attempt L (int now) kind value client_ip False
                 (Some ''wrong_password''))) (\<lambda>_. act_fail Unauthorized)
     | None \<Rightarrow>
         act_bind (act_ok (record_login_attempt L (int now) kind value client_ip False
             (Some ''user_not_found''))) (\<lambda>_. act_fail Unauthorized)))"

definition identifier_error :: "string \<Rightarrow> sqlx_error \<Rightarrow> service_error" where
  "identifier_error kind e =
     (case e of
        DatabaseError True _ \<Rightarrow> Conflict (kind @ '' already registered'')
      | other \<Rightarrow> ServiceInternal (sqlx_to_string other))"

definition register_tx ::
    "lib \<Rightarrow> instant \<Rightarrow> dpop_config \<Rightarrow> register_params \<Rightarrow> string \<Rightarrow>
     ('g, 'r, service_error, user_row \<times> string) sact" where
  "register_tx L now cfg params password_hash =
     act_bind (act_map_err service_from_sqlx
        (create_user L (int now) (reg_name params) password_hash (Some (int now)))) (\<lambda>user.
     act_bind (act_map_err (identifier_error (reg_kind params))
        (create_identifier L (int now) (u_id user) (reg_kind params) (reg_value params) True
           (Some (int now)))) (\<lambda>_.
     act_bind (act_map_err service_from_sqlx (update_last_login_at L (int now) (u_id user))) (\<lambda>_.
     act_bind (new_family L now cfg (u_id user) (reg_jkt params) (reg_user_agent params)) (\<lambda>refresh_token.
     act_bind (act_ok (record_login_attempt L (int now) (reg_kind params) (reg_value params)
        (reg_client_ip params) True None)) (\<lambda>_.
     act_bind (act_map_err service_from_sqlx (commit L)) (\<lambda>_.
     act_return (user, refresh_token)))))))"

definition register ::
    "lib \<Rightarrow> instant \<Rightarrow> auth_service \<Rightarrow> register_params \<Rightarrow> ('g, 'r, service_error, token_pair) sact" where
  "register L now svc params =
     (let cfg = svc_config svc in
      if \<not> allow_registration cfg then act_fail RegistrationDisabled
      else
      act_bind (draw (\<lambda>i. hash_password_async L i (reg_password params))) (\<lambda>password_hash.
      act_bind (with_tx L (register_tx L now cfg params password_hash)) (\<lambda>(user, refresh_token).
      act_bind (issue_user_token L now cfg user (reg_jkt params)) (\<lambda>access_token.
      act_return (token_pair_of cfg access_token refresh_token)))))"

definition login ::
    "lib \<Rightarrow> instant \<Rightarrow> auth_service \<Rightarrow> string \<Rightarrow> string \<Rightarrow> string \<Rightarrow> string \<Rightarrow> ip_address \<Rightarrow> string option \<Rightarrow>
     ('g, 'r, service_error, login_outcome) sact" where
  "login L now svc kind value password jkt client_ip user_agent =
     act_bind (act_map_err service_from_sqlx (acquire L)) (\<lambda>_.
     act_bind (authenticate_user L now svc kind value password client_ip) (\<lambda>user.
     if u_totp_enabled user then act_return Requires2fa
     else
     act_bind (act_ok (update_last_login_at L (int now) (u_id user))) (\<lambda>_.
     act_bind (act_ok (record_login_attempt L (int now) kind value client_ip True None)) (\<lambda>_.
     act_bind (issue_session L now (svc_config svc) user jkt user_agent) (\<lambda>tokens.
     act_return (Success tokens))))))"

text \<open>The grace cache, at the clock of the operation.\<close>

definition grace_get :: "'g grace_ops \<Rightarrow> instant \<Rightarrow> uuid \<times> string \<Rightarrow> ('g, 'r, 'e, replacement_tokens option) sact" where
  "grace_get G now key w = (Ok (cache_get G now key (grace_cache w)), w)"

definition grace_insert ::
    "'g grace_ops \<Rightarrow> instant \<Rightarrow> uuid \<times> string \<Rightarrow> replacement_tokens \<Rightarrow> ('g, 'r, 'e, unit) sact" where
  "grace_insert G now key v w = (Ok (), w\<lparr>grace_cache := cache_insert G now key v (grace_cache w)\<rparr>)"

text \<open>A token that is not active: a retry within the grace period gets the same pair again, any
  other use of a known token revokes its family.\<close>

definition refresh_inactive ::
    "lib \<Rightarrow> 'g grace_ops \<Rightarrow> instant \<Rightarrow> string \<Rightarrow> ('g, 'r, service_error, token_pair) sact" where
  "refresh_inactive L G now token_hash =
     act_bind (act_map_err service_from_sqlx (find_refresh_token_by_hash L token_hash)) (\<lambda>existing.
     case existing of
       None \<Rightarrow> act_fail Unauthorized
     | Some existing \<Rightarrow>
         act_bind (grace_get G now (r_fam existing, token_hash)) (\<lambda>cached.
         case cached of
           Some cached \<Rightarrow>
             act_return \<lparr> tp_access_token = rt_access_token cached, tp_refresh_token = rt_refresh_token cached,
                          tp_token_type = TOKEN_TYPE, tp_expires_in = rt_expires_in cached \<rparr>
         | None \<Rightarrow>
             act_bind (act_map_err service_from_sqlx
                (revoke_refresh_token_family L (int now) (r_fam existing))) (\<lambda>_.
             act_bind (act_map_err service_from_sqlx (commit L)) (\<lambda>_.
             act_fail Unauthorized))))"

text \<open>A token that was active, and that the statement before has just revoked.\<close>

definition refresh_active ::
    "lib \<Rightarrow> 'g grace_ops \<Rightarrow> instant \<Rightarrow> dpop_config \<Rightarrow> string \<Rightarrow> refresh_token_row \<Rightarrow> string \<Rightarrow>
     string option \<Rightarrow> ('g, 'r, service_error, token_pair) sact" where
  "refresh_active L G now cfg token_hash row jkt user_agent =
     (if r_expires_at row \<le> int now then act_fail Unauthorized
      else if r_dpop_jkt row \<noteq> jkt then act_fail Unauthorized
      else
      act_bind (act_map_err service_from_sqlx (find_user_by_id L (r_user_id row))) (\<lambda>found.
      act_bind (act_lift (ok_or Unauthorized found)) (\<lambda>user.
      act_bind (act_map_err service_from_dpop (draw (new_refresh_secret L))) (\<lambda>new_refresh_token.
      act_bind (act_map_err service_from_sqlx (create_refresh_token L (int now)
         \<lparr> p_user_id = r_user_id row, p_token_hash = hash_token L new_refresh_token, p_fam = r_fam row,
           p_dpop_jkt = jkt, p_user_agent = user_agent, p_expires_at = r_expires_at row \<rparr>)) (\<lambda>_.
      act_bind (issue_user_token L now cfg user jkt) (\<lambda>access_token.
      act_bind (grace_insert G now (r_fam row, token_hash)
         \<lparr> rt_access_token = access_token, rt_refresh_token = new_refresh_token,
           rt_expires_in = as_secs (access_token_ttl cfg) \<rparr>) (\<lambda>_.
      act_bind (act_map_err service_from_sqlx (commit L)) (\<lambda>_.
      act_return (token_pair_of cfg access_token new_refresh_token)))))))))"

definition refresh ::
    "lib \<Rightarrow> 'g grace_ops \<Rightarrow> instant \<Rightarrow> auth_service \<Rightarrow> string \<Rightarrow> string \<Rightarrow> string option \<Rightarrow>
     ('g, 'r, service_error, token_pair) sact" where
  "refresh L G now svc refresh_token jkt user_agent =
     (let token_hash = hash_token L refresh_token in
      with_tx L
       (act_bind (act_map_err service_from_sqlx (revoke_refresh_token_if_active L (int now) token_hash)) (\<lambda>row.
        case row of
          None \<Rightarrow> refresh_inactive L G now token_hash
        | Some row \<Rightarrow> refresh_active L G now (svc_config svc) token_hash row jkt user_agent)))"

definition logout :: "lib \<Rightarrow> instant \<Rightarrow> string \<Rightarrow> ('g, 'r, service_error, unit) sact" where
  "logout L now refresh_token =
     act_bind (act_map_err service_from_sqlx (acquire L)) (\<lambda>_.
     act_map_err service_from_sqlx (revoke_refresh_token_by_hash L (int now) (hash_token L refresh_token)))"

section \<open>What the operations do to the families of tokens\<close>

definition view :: "('g, 'r) world \<Rightarrow> token_view" where
  "view w = (w_draws w, refresh_tokens (db w))"

abbreviation tok :: "(tx_state \<Rightarrow> bool) \<Rightarrow> nat \<Rightarrow> refresh_token_row list \<Rightarrow> ('g, 'r) world \<Rightarrow> bool" where
  "tok T n ts \<equiv> holds T (\<lambda>d. refresh_tokens d = ts) n"

definition stepped ::
    "lib \<Rightarrow> (tx_state \<Rightarrow> bool) \<Rightarrow> nat \<Rightarrow> refresh_token_row list \<Rightarrow> ('g, 'r) world \<Rightarrow> bool" where
  "stepped L T n ts w \<longleftrightarrow> T (tx w) \<and> token_step L (n, ts) (view w)"

lemma tok_stepped: "tok T n ts w \<Longrightarrow> stepped L T n ts w"
  by (auto simp: holds_def stepped_def view_def intro: token_step.idle)

lemma draw_holds: "act_keeps (holds T I n) (draw f)"
  by (auto simp: act_valid_outcome draw_def holds_def split: res.splits)

lemma draw_stepped: "act_keeps (stepped L T n ts) (draw f)"
  by (auto simp: act_valid_outcome draw_def stepped_def view_def split: res.splits
      intro: token_step_later [OF _ le_SucI [OF order_refl]])

lemma update_users_frame [simp]:
  "refresh_tokens (update_users now P f d) = refresh_tokens d"
  "identifiers (update_users now P f d) = identifiers d"
  "recovery_codes (update_users now P f d) = recovery_codes d"
  "login_attempts (update_users now P f d) = login_attempts d"
  "outbox (update_users now P f d) = outbox d"
  by (simp_all add: update_users_def)

lemma store_tok:
  assumes "abortable T"
  shows "act_keeps (tok T n ts) (find_user_by_identifier L kind value)"
    and "act_keeps (tok T n ts) (record_login_attempt L t kind value ip b reason)"
    and "act_keeps (tok T n ts) (update_last_login_at L t uid)"
    and "act_keeps (tok T n ts) (create_user L t name h changed)"
    and "act_keeps (tok T n ts) (create_identifier L t uid kind value prim ver)"
    and "act_keeps (tok T n ts) (acquire L)"
  using assms
  by (auto simp: find_user_by_identifier_def record_login_attempt_def update_last_login_at_def
      create_user_def create_identifier_def acquire_def Let_def keeps_def
      intro!: db_query_keeps db_read_keeps db_exec_keeps)

lemma create_refresh_token_session:
  assumes "abortable T" and "p_fam p = new_v4 L i" and "n \<le> i"
  shows "act_valid (\<lambda>w. tok T n ts w \<and> i < w_draws w) (create_refresh_token L now p)
           (\<lambda>_. stepped L T n ts) (\<lambda>_. tok T n ts)"
  unfolding act_valid_outcome
proof (intro allI impI)
  fix w r w' assume w: "tok T n ts w \<and> i < w_draws w" "create_refresh_token L now p w = (r, w')"
  show "case r of Ok a \<Rightarrow> stepped L T n ts w' | Err e \<Rightarrow> tok T n ts w' | Panic \<Rightarrow> tok T n ts w'"
  proof (cases r)
    case (Ok row)
    with create_refresh_token_Ok [of L now p w row w'] w assms show ?thesis
      by (auto simp: stepped_def view_def holds_def active_def intro!: token_step.new_session)
  qed (use w assms(1) create_refresh_token_failed [OF w(2)] in \<open>auto simp: holds_def abortable_def\<close>)
qed

lemma new_family_stepped:
  assumes "abortable T"
  shows "act_valid (tok T n ts) (new_family L now cfg uid jkt ua) (\<lambda>_. stepped L T n ts) (\<lambda>_. tok T n ts)"
  unfolding new_family_def
proof (intro act_valid_bind)
  show "act_keeps (tok T n ts) (act_map_err service_from_dpop (draw (new_refresh_secret L)))"
    by (intro act_keeps_map_err draw_holds)
  show "act_valid (tok T n ts) (draw (\<lambda>i. Ok (new_v4 L i)))
          (\<lambda>fam w. \<exists>i. (tok T n ts w \<and> i < w_draws w) \<and> fam = new_v4 L i \<and> n \<le> i) (\<lambda>_. tok T n ts)"
    by (auto simp: act_valid_outcome draw_def holds_def split: res.splits)
  show "act_valid (\<lambda>w. \<exists>i. (tok T n ts w \<and> i < w_draws w) \<and> fam = new_v4 L i \<and> n \<le> i)
          (act_lift (or_panic (refresh_expiry L now cfg)))
          (\<lambda>_ w. \<exists>i. (tok T n ts w \<and> i < w_draws w) \<and> fam = new_v4 L i \<and> n \<le> i) (\<lambda>_. tok T n ts)" for fam
    by (rule act_valid_lift) auto
  show "act_valid (\<lambda>w. \<exists>i. (tok T n ts w \<and> i < w_draws w) \<and> fam = new_v4 L i \<and> n \<le> i)
     (act_map_err service_from_sqlx (create_refresh_token L (int now)
        \<lparr> p_user_id = uid, p_token_hash = hash_token L rt, p_fam = fam, p_dpop_jkt = jkt,
          p_user_agent = ua, p_expires_at = ex \<rparr>)) (\<lambda>_. stepped L T n ts) (\<lambda>_. tok T n ts)" for fam rt ex
  proof (intro act_valid_map_err act_valid_ex)
    fix i
    let ?p = "\<lparr> p_user_id = uid, p_token_hash = hash_token L rt, p_fam = fam, p_dpop_jkt = jkt,
          p_user_agent = ua, p_expires_at = ex \<rparr>"
    show "act_valid (\<lambda>w. (tok T n ts w \<and> i < w_draws w) \<and> fam = new_v4 L i \<and> n \<le> i)
       (create_refresh_token L (int now) ?p) (\<lambda>_. stepped L T n ts) (\<lambda>_. tok T n ts)"
    proof (cases "fam = new_v4 L i \<and> n \<le> i")
      case True
      then show ?thesis using create_refresh_token_session [OF assms, of ?p L i n ts "int now"] by simp
    qed (auto simp: act_valid_def)
  qed
qed (auto intro: act_valid_return)

lemma issue_session_stepped:
  assumes "abortable T"
  shows "act_valid (tok T n ts) (issue_session L now cfg user jkt ua) (\<lambda>_. stepped L T n ts) (\<lambda>_. stepped L T n ts)"
  unfolding issue_session_def issue_user_token_def
proof (rule act_valid_bind)
  show "act_valid (tok T n ts) (new_family L now cfg (u_id user) jkt ua) (\<lambda>_. stepped L T n ts) (\<lambda>_. stepped L T n ts)"
    by (rule act_valid_weaken [OF new_family_stepped [OF assms]]) (auto intro: tok_stepped)
qed (intro act_keeps_bind draw_stepped act_keeps_pure)

lemma authenticate_user_tok:
  assumes "abortable T"
  shows "act_keeps (tok T n ts) (authenticate_user L now svc kind value pw ip)"
  unfolding authenticate_user_def Let_def
  by (intro act_keeps_bind act_keeps_map_err store_tok [OF assms] draw_holds)
    (auto intro!: act_keeps_bind act_keeps_pure act_keeps_ok store_tok [OF assms] split: option.splits)

lemma login_stepped:
  "act_valid (tok no_tx n ts) (login L now svc kind value pw jkt ip ua)
     (\<lambda>_. stepped L no_tx n ts) (\<lambda>_. stepped L no_tx n ts)"
  unfolding login_def
proof (intro act_keeps_bind)
  fix user :: user_row
  show "act_valid (tok no_tx n ts)
     (if u_totp_enabled user then act_return Requires2fa
      else act_bind (act_ok (update_last_login_at L (int now) (u_id user))) (\<lambda>_.
           act_bind (act_ok (record_login_attempt L (int now) kind value ip True None)) (\<lambda>_.
           act_bind (issue_session L now (svc_config svc) user jkt ua) (\<lambda>tokens.
           act_return (Success tokens)))))
     (\<lambda>_. stepped L no_tx n ts) (\<lambda>_. stepped L no_tx n ts)"
    by (auto intro!: act_valid_return act_keeps_bind act_keeps_ok store_tok act_valid_bind [OF issue_session_stepped]
        intro: tok_stepped)
qed (auto intro!: act_keeps_map_err store_tok authenticate_user_tok intro: tok_stepped)

lemma record_stepped:
  assumes "abortable T"
  shows "act_keeps (stepped L T n ts) (record_login_attempt L t kind value ip b reason)"
  unfolding act_valid_outcome
proof (intro allI impI)
  fix w :: "('a, 'b) world" and r w'
  assume w: "stepped L T n ts w" "record_login_attempt L t kind value ip b reason w = (r, w')"
  have "tok T (w_draws w) (refresh_tokens (db w)) w" using w(1) by (simp add: holds_def stepped_def)
  from act_keepsD [OF store_tok(2) [OF assms] this w(2)]
  have "stepped L T n ts w'"
    using w(1) token_step_later by (fastforce simp: holds_def stepped_def view_def)
  then show "case r of Ok a \<Rightarrow> stepped L T n ts w' | Err e \<Rightarrow> stepped L T n ts w' | Panic \<Rightarrow> stepped L T n ts w'"
    by (cases r) auto
qed

text \<open>The end of a transaction that started from \<open>D\<close>.\<close>

lemma rolled_back_stepped:
  "in_tx D (tx w) \<Longrightarrow> refresh_tokens D = ts \<Longrightarrow> n \<le> w_draws w \<Longrightarrow> stepped L no_tx n ts (drop_tx w)"
  by (simp add: drop_tx_in_tx stepped_def view_def token_step.idle)

lemma stepped_draws: "stepped L T n ts w \<Longrightarrow> n \<le> w_draws w"
  using token_step_draws by (fastforce simp: stepped_def view_def)

lemma commit_stepped:
  assumes "refresh_tokens D = ts"
  shows "act_valid (stepped L (in_tx D) n ts) (commit L)
    (\<lambda>_ w. stepped L no_tx n ts (drop_tx w)) (\<lambda>_ w. stepped L no_tx n ts (drop_tx w))"
  unfolding act_valid_outcome
proof (intro allI impI)
  fix w :: "('a, 'b) world" and r w' assume w: "stepped L (in_tx D) n ts w" "commit L w = (r, w')"
  have tx: "in_tx D (tx w)" and n: "n \<le> w_draws w"
    using w(1) stepped_draws [OF w(1)] by (simp_all add: stepped_def)
  have rolled: "stepped L no_tx n ts (drop_tx (drop_tx (w\<lparr>calls := calls w + 1\<rparr>)))"
    using rolled_back_stepped [of D "w\<lparr>calls := calls w + 1\<rparr>" ts n L] tx n assms
    by (simp add: drop_tx_in_tx drop_tx_Auto)
  have kept: "stepped L no_tx n ts (drop_tx (w\<lparr>calls := calls w + 1, tx := Auto, session_settings := kept_settings (tx_settings w) (session_settings w),
      tx_settings := []\<rparr>))"
    using w(1) by (simp add: drop_tx_Auto stepped_def view_def)
  show "case r of Ok a \<Rightarrow> stepped L no_tx n ts (drop_tx w') | Err e \<Rightarrow> stepped L no_tx n ts (drop_tx w')
        | Panic \<Rightarrow> stepped L no_tx n ts (drop_tx w')"
    using w(2) rolled kept by (auto simp: commit_def Let_def split: option.splits if_splits)
qed

lemma register_tx_stepped:
  assumes "refresh_tokens D = ts"
  shows "act_valid (tok (in_tx D) n ts) (register_tx L now cfg params h)
    (\<lambda>_ w. stepped L no_tx n ts (drop_tx w)) (\<lambda>_ w. stepped L no_tx n ts (drop_tx w))"
proof -
  have roll: "tok (in_tx D) n ts w \<Longrightarrow> stepped L no_tx n ts (drop_tx w)"
    "stepped L (in_tx D) n ts w \<Longrightarrow> stepped L no_tx n ts (drop_tx w)" for w :: "('g, 'r) world"
    using rolled_back_stepped [of D w ts n L] assms stepped_draws [of L "in_tx D" n ts w]
    by (auto simp: holds_def stepped_def)
  have audit: "act_keeps (stepped L (in_tx D) n ts) (act_ok (record_login_attempt L t k v ip b r) :: ('g, 'r, service_error, unit) sact)"
    for t k v ip b r
    by (intro act_keeps_ok record_stepped) simp
  have tail: "act_valid (tok (in_tx D) n ts)
     (act_bind (new_family L now cfg uid jkt ua) (\<lambda>rt.
      act_bind (act_ok (record_login_attempt L t k v ip b r)) (\<lambda>_.
      act_bind (act_map_err service_from_sqlx (commit L)) (\<lambda>_. act_return (user, rt)))) :: ('g, 'r, service_error, user_row \<times> string) sact)
     (\<lambda>_ w. stepped L no_tx n ts (drop_tx w)) (\<lambda>_ w. stepped L no_tx n ts (drop_tx w))"
    for uid jkt ua t k v ip b r user
  proof (rule act_valid_bind)
    show "act_valid (tok (in_tx D) n ts) (new_family L now cfg uid jkt ua :: ('g, 'r, service_error, string) sact)
      (\<lambda>_. stepped L (in_tx D) n ts) (\<lambda>_ w. stepped L no_tx n ts (drop_tx w))"
      by (rule act_valid_weaken [OF new_family_stepped]) (auto intro: roll)
  qed (intro act_keeps_bind [OF audit] act_valid_bind [OF act_valid_map_err [OF commit_stepped [OF assms]]]
        act_valid_return; auto intro: roll)
  show ?thesis
    unfolding register_tx_def
    by (rule act_keeps_bind, rule act_keeps_map_err, rule store_tok, simp,
        rule act_keeps_bind, rule act_keeps_map_err, rule store_tok, simp,
        rule act_keeps_bind, rule act_keeps_map_err, rule store_tok, simp, rule tail)
      (auto intro: roll)
qed

lemma register_stepped:
  "act_valid (\<lambda>w. tok no_tx n ts w \<and> db w = D) (register L now svc params)
     (\<lambda>_. stepped L no_tx n ts) (\<lambda>_. stepped L no_tx n ts)"
  unfolding register_def Let_def
proof (cases "allow_registration (svc_config svc)")
  case True
  let ?P = "\<lambda>w. tok no_tx n ts w \<and> db w = D"
  have draw: "act_keeps ?P (draw f)" for f :: "nat \<Rightarrow> ('e, 'x) res"
    by (auto simp: act_valid_outcome draw_def holds_def split: res.splits)
  have tx: "act_valid ?P (with_tx L (register_tx L now (svc_config svc) params h))
      (\<lambda>_. stepped L no_tx n ts) (\<lambda>_. stepped L no_tx n ts)" for h
  proof (cases "refresh_tokens D = ts")
    case ts: True
    have "act_valid (\<lambda>w. n \<le> w_draws w \<and> tx w = Auto \<and> db w = D)
        (with_tx L (register_tx L now (svc_config svc) params h))
        (\<lambda>_. stepped L no_tx n ts) (\<lambda>_. stepped L no_tx n ts)"
    proof (rule with_tx_valid)
      show "act_valid (\<lambda>w. n \<le> w_draws w \<and> tx w = InTx D False \<and> db w = D)
        (register_tx L now (svc_config svc) params h)
        (\<lambda>_ w. stepped L no_tx n ts (drop_tx w)) (\<lambda>_ w. stepped L no_tx n ts (drop_tx w))"
        by (rule act_valid_weaken [OF register_tx_stepped [OF ts]]) (auto simp: holds_def ts)
    qed (auto simp: stepped_def view_def ts intro: token_step.idle)
    then show ?thesis by (rule act_valid_weaken) (auto simp: holds_def no_tx_def)
  qed (auto simp: act_valid_def holds_def)
  have issue: "act_keeps (stepped L no_tx n ts) (issue_user_token L now cfg user jkt)" for cfg user jkt
    unfolding issue_user_token_def by (rule draw_stepped)
  from True show "act_valid ?P
     (if \<not> allow_registration (svc_config svc) then act_fail RegistrationDisabled
      else act_bind (draw (\<lambda>i. hash_password_async L i (reg_password params))) (\<lambda>password_hash.
        act_bind (with_tx L (register_tx L now (svc_config svc) params password_hash)) (\<lambda>(user, refresh_token).
        act_bind (issue_user_token L now (svc_config svc) user (reg_jkt params)) (\<lambda>access_token.
        act_return (token_pair_of (svc_config svc) access_token refresh_token)))))
     (\<lambda>_. stepped L no_tx n ts) (\<lambda>_. stepped L no_tx n ts)"
    by (auto intro!: act_keeps_bind [OF draw] act_valid_bind [OF tx] act_keeps_bind [OF issue] act_keeps_pure
        intro: tok_stepped split: prod.splits)
qed (auto intro: act_valid_fail tok_stepped)

lemma logout_stepped:
  "act_valid (tok no_tx n ts) (logout L now rt) (\<lambda>_. stepped L no_tx n ts) (\<lambda>_. stepped L no_tx n ts)"
  unfolding logout_def
proof (intro act_keeps_bind act_valid_map_err)
  show "act_valid (tok no_tx n ts) (revoke_refresh_token_by_hash L (int now) (hash_token L rt))
     (\<lambda>_. stepped L no_tx n ts) (\<lambda>e. stepped L no_tx n ts)"
    unfolding revoke_refresh_token_by_hash_def db_exec_def
    by (rule db_query_valid) (auto simp: holds_def stepped_def view_def no_tx_def intro: token_step.intros)
qed (auto intro!: act_keeps_map_err store_tok intro: tok_stepped)

section \<open>What a refresh does\<close>

text \<open>The three ways in which a refresh can change the store or hand out tokens, as relations
  between the tables \<open>D\<close> and the grace cache \<open>g\<close> before and after, for the hash \<open>h\<close> of the
  token presented.\<close>

definition replacement_of :: "token_pair \<Rightarrow> replacement_tokens" where
  "replacement_of pair =
     \<lparr> rt_access_token = tp_access_token pair, rt_refresh_token = tp_refresh_token pair,
       rt_expires_in = tp_expires_in pair \<rparr>"

definition rotated ::
    "lib \<Rightarrow> 'g grace_ops \<Rightarrow> instant \<Rightarrow> dpop_config \<Rightarrow> string \<Rightarrow> string \<Rightarrow> string option \<Rightarrow> token_pair \<Rightarrow>
     tables \<Rightarrow> 'g \<Rightarrow> tables \<Rightarrow> 'g \<Rightarrow> bool" where
  "rotated L G now cfg h jkt ua pair D g D' g' \<longleftrightarrow>
     (\<exists>old user row i.
        old \<in> set (refresh_tokens D) \<and> r_token_hash old = h \<and> active old \<and>
        int now < r_expires_at old \<and> r_dpop_jkt old = jkt \<and>
        user \<in> set (users D) \<and> u_id user = r_user_id old \<and> u_deleted_at user = None \<and>
        same_session old row \<and> active row \<and> r_user_agent row = ua \<and>
        r_token_hash row = hash_token L (tp_refresh_token pair) \<and>
        r_token_hash row \<notin> r_token_hash ` set (refresh_tokens D) \<and>
        D' = D\<lparr>refresh_tokens :=
                 revoke_rows (int now) (\<lambda>r. r_token_hash r = h) (refresh_tokens D) @ [row]\<rparr> \<and>
        issue_access_token L now i (signer cfg) (issuer cfg) (audience cfg) (access_token_ttl cfg)
          (uuid_to_string L (u_public_id user)) jkt [(''name'', JStr (u_name user))] =
          Ok (tp_access_token pair) \<and>
        tp_expires_in pair = as_secs (access_token_ttl cfg) \<and>
        g' = cache_insert G now (r_fam old, h) (replacement_of pair) g)"

definition repeated :: "'g grace_ops \<Rightarrow> instant \<Rightarrow> string \<Rightarrow> token_pair \<Rightarrow> tables \<Rightarrow> 'g \<Rightarrow> bool" where
  "repeated G now h pair D g \<longleftrightarrow>
     (\<exists>existing\<in>set (refresh_tokens D). r_token_hash existing = h \<and> \<not> active existing \<and>
        cache_get G now (r_fam existing, h) g = Some (replacement_of pair))"

definition reused :: "'g grace_ops \<Rightarrow> instant \<Rightarrow> string \<Rightarrow> tables \<Rightarrow> 'g \<Rightarrow> tables \<Rightarrow> bool" where
  "reused G now h D g D' \<longleftrightarrow>
     (\<exists>existing\<in>set (refresh_tokens D). r_token_hash existing = h \<and> \<not> active existing \<and>
        cache_get G now (r_fam existing, h) g = None \<and>
        D' = revoke_where (int now) (\<lambda>r. r_fam r = r_fam existing) D)"

text \<open>A rotation and a detected reuse are steps of the family machine.\<close>

lemma rotated_step:
  "rotated L G now cfg h jkt ua pair D g D' g' \<Longrightarrow> n \<le> n' \<Longrightarrow>
   token_step L (n, refresh_tokens D) (n', refresh_tokens D')"
proof -
  assume "rotated L G now cfg h jkt ua pair D g D' g'" and n: "n \<le> n'"
  then obtain old row where "old \<in> set (refresh_tokens D)" "active old" "same_session old row" "active row"
    "r_token_hash row \<notin> r_token_hash ` set (refresh_tokens D)"
    "refresh_tokens D' = revoke_rows (int now) (\<lambda>r. r_token_hash r = r_token_hash old) (refresh_tokens D) @ [row]"
    unfolding rotated_def by force
  from token_step.rotate [OF n this(1-5)] this(6) show ?thesis by simp
qed

lemma reused_step:
  "reused G now h D g D' \<Longrightarrow> n \<le> n' \<Longrightarrow> token_step L (n, refresh_tokens D) (n', refresh_tokens D')"
  by (auto simp: reused_def intro: token_step.revoke)

definition refresh_post ::
    "lib \<Rightarrow> 'g grace_ops \<Rightarrow> instant \<Rightarrow> dpop_config \<Rightarrow> string \<Rightarrow> string \<Rightarrow> string option \<Rightarrow> nat \<Rightarrow> tables \<Rightarrow> 'g \<Rightarrow>
     token_pair \<Rightarrow> ('g, 'r) world \<Rightarrow> bool" where
  "refresh_post L G now cfg h jkt ua n D g pair w \<longleftrightarrow>
     tx w = Auto \<and> n \<le> w_draws w \<and> tp_token_type pair = TOKEN_TYPE \<and>
     (rotated L G now cfg h jkt ua pair D g (db w) (grace_cache w) \<or>
      repeated G now h pair D g \<and> db w = D \<and> grace_cache w = g)"

definition refresh_fail ::
    "'g grace_ops \<Rightarrow> instant \<Rightarrow> string \<Rightarrow> nat \<Rightarrow> tables \<Rightarrow> 'g \<Rightarrow> service_error option \<Rightarrow> ('g, 'r) world \<Rightarrow> bool" where
  "refresh_fail G now h n D g e w \<longleftrightarrow>
     tx w = Auto \<and> n \<le> w_draws w \<and>
     (db w = D \<or> e = Some Unauthorized \<and> reused G now h D g (db w))"

definition refresh_pre :: "nat \<Rightarrow> tables \<Rightarrow> 'g \<Rightarrow> ('g, 'r) world \<Rightarrow> bool" where
  "refresh_pre n D g w \<longleftrightarrow> n \<le> w_draws w \<and> grace_cache w = g \<and> tx w = InTx D False \<and> db w = D"

lemma in_tx_fails:
  "in_tx D (tx w) \<Longrightarrow> n \<le> w_draws w \<Longrightarrow> refresh_fail G now h n D g e (drop_tx w)"
  by (simp add: refresh_fail_def drop_tx_in_tx)

lemma grace_hit_valid:
  assumes "existing \<in> set (refresh_tokens D)" "r_token_hash existing = h" "\<not> active existing"
    and "cache_get G now (r_fam existing, h) g = Some cached"
  shows "act_valid (refresh_pre n D g)
     (act_return \<lparr> tp_access_token = rt_access_token cached, tp_refresh_token = rt_refresh_token cached,
                   tp_token_type = TOKEN_TYPE, tp_expires_in = rt_expires_in cached \<rparr>)
     (\<lambda>pair w. refresh_post L G now cfg h jkt ua n D g pair (drop_tx w)) E"
  using assms by (auto intro!: act_valid_return bexI [of _ existing]
      simp: refresh_pre_def refresh_post_def repeated_def replacement_of_def drop_tx_def)

lemma reuse_valid:
  assumes ex: "existing \<in> set (refresh_tokens D)" "r_token_hash existing = h" "\<not> active existing"
    and miss: "cache_get G now (r_fam existing, h) g = None"
  shows "act_valid (refresh_pre n D g)
    (act_bind (act_map_err service_from_sqlx (revoke_refresh_token_family L (int now) (r_fam existing))) (\<lambda>_.
     act_bind (act_map_err service_from_sqlx (commit L)) (\<lambda>_. act_fail Unauthorized)))
    Q (\<lambda>e w. refresh_fail G now h n D g e (drop_tx w))"
proof (rule act_valid_bind)
  let ?R = "\<lambda>w. n \<le> w_draws w \<and> tx w = InTx D False \<and>
      db w = revoke_where (int now) (\<lambda>r. r_fam r = r_fam existing) D"
  show "act_valid (refresh_pre n D g)
      (act_map_err service_from_sqlx (revoke_refresh_token_family L (int now) (r_fam existing)))
      (\<lambda>_. ?R) (\<lambda>e w. refresh_fail G now h n D g e (drop_tx w))"
    unfolding revoke_refresh_token_family_def db_exec_def
    by (intro act_valid_map_err db_query_valid in_tx_fails) (auto simp: refresh_pre_def)
  show "act_valid ?R (act_bind (act_map_err service_from_sqlx (commit L)) (\<lambda>_. act_fail Unauthorized))
      Q (\<lambda>e w. refresh_fail G now h n D g e (drop_tx w))"
    using ex miss by (auto simp: act_valid_outcome act_bind_def act_map_err_def commit_def refresh_fail_def
        drop_tx_def reused_def Let_def split: res.splits prod.splits option.splits)
qed

lemma refresh_inactive_valid:
  assumes inactive: "\<forall>r\<in>set (refresh_tokens D). r_token_hash r = h \<longrightarrow> \<not> active r"
  shows "act_valid (refresh_pre n D g) (refresh_inactive L G now h)
    (\<lambda>pair w. refresh_post L G now cfg h jkt ua n D g pair (drop_tx w))
    (\<lambda>e w. refresh_fail G now h n D g e (drop_tx w))"
    (is "act_valid ?P _ ?Q ?E")
  unfolding refresh_inactive_def
proof (rule act_valid_bind)
  let ?F = "\<lambda>found w. ?P w \<and> find (\<lambda>r. r_token_hash r = h) (refresh_tokens D) = found"
  show "act_valid ?P (act_map_err service_from_sqlx (find_refresh_token_by_hash L h)) ?F ?E"
    unfolding find_refresh_token_by_hash_def db_read_def
    by (intro act_valid_map_err db_query_valid in_tx_fails) (auto simp: refresh_pre_def)
  have fail: "act_valid ?P (act_fail e) ?Q ?E" for e
    by (intro act_valid_fail in_tx_fails) (auto simp: refresh_pre_def)
  have lookup: "act_valid ?P (grace_get G now k) (\<lambda>cached w. ?P w \<and> cache_get G now k g = cached) ?E" for k
    by (auto simp: act_valid_outcome grace_get_def refresh_pre_def)
  have known: "act_valid ?P (act_bind (grace_get G now (r_fam existing, h)) (\<lambda>cached.
      case cached of
        Some cached \<Rightarrow>
          act_return \<lparr> tp_access_token = rt_access_token cached, tp_refresh_token = rt_refresh_token cached,
                       tp_token_type = TOKEN_TYPE, tp_expires_in = rt_expires_in cached \<rparr>
      | None \<Rightarrow>
          act_bind (act_map_err service_from_sqlx
             (revoke_refresh_token_family L (int now) (r_fam existing))) (\<lambda>_.
          act_bind (act_map_err service_from_sqlx (commit L)) (\<lambda>_.
          act_fail Unauthorized)))) ?Q ?E"
    if "existing \<in> set (refresh_tokens D)" "r_token_hash existing = h" for existing
  proof (rule act_valid_bind [OF lookup], rule act_valid_when)
    fix cached assume "cache_get G now (r_fam existing, h) g = cached"
    then show "act_valid ?P
      (case cached of
        Some cached \<Rightarrow>
          act_return \<lparr> tp_access_token = rt_access_token cached, tp_refresh_token = rt_refresh_token cached,
                       tp_token_type = TOKEN_TYPE, tp_expires_in = rt_expires_in cached \<rparr>
      | None \<Rightarrow>
          act_bind (act_map_err service_from_sqlx
             (revoke_refresh_token_family L (int now) (r_fam existing))) (\<lambda>_.
          act_bind (act_map_err service_from_sqlx (commit L)) (\<lambda>_.
          act_fail Unauthorized))) ?Q ?E"
      using that inactive by (cases cached) (auto intro!: grace_hit_valid reuse_valid)
  qed
  fix found
  show "act_valid (?F found)
     (case found of None \<Rightarrow> act_fail Unauthorized
      | Some existing \<Rightarrow>
          act_bind (grace_get G now (r_fam existing, h)) (\<lambda>cached.
          case cached of
            Some cached \<Rightarrow>
              act_return \<lparr> tp_access_token = rt_access_token cached, tp_refresh_token = rt_refresh_token cached,
                           tp_token_type = TOKEN_TYPE, tp_expires_in = rt_expires_in cached \<rparr>
          | None \<Rightarrow>
              act_bind (act_map_err service_from_sqlx
                 (revoke_refresh_token_family L (int now) (r_fam existing))) (\<lambda>_.
              act_bind (act_map_err service_from_sqlx (commit L)) (\<lambda>_.
              act_fail Unauthorized)))) ?Q ?E"
    by (rule act_valid_when, cases found) (auto dest: find_SomeD intro!: known fail)
qed

text \<open>The conditions of a rotation up to the commit, over the tables inside the transaction, and
  what is left when it is given up.\<close>

definition rotating :: "nat \<Rightarrow> tables \<Rightarrow> 'g \<Rightarrow> tables \<Rightarrow> ('g, 'r) world \<Rightarrow> bool" where
  "rotating n D g D' w \<longleftrightarrow> n \<le> w_draws w \<and> grace_cache w = g \<and> tx w = InTx D False \<and> db w = D'"

definition undone :: "nat \<Rightarrow> tables \<Rightarrow> ('g, 'r) world \<Rightarrow> bool" where
  "undone n D w \<longleftrightarrow> tx (drop_tx w) = Auto \<and> n \<le> w_draws (drop_tx w) \<and> db (drop_tx w) = D"

lemma undone_fails: "undone n D w \<Longrightarrow> refresh_fail G now h n D g e (drop_tx w)"
  by (simp add: undone_def refresh_fail_def)

lemma in_tx_undone: "in_tx D (tx w) \<Longrightarrow> n \<le> w_draws w \<Longrightarrow> undone n D w"
  by (simp add: undone_def drop_tx_in_tx)

lemma rotating_undone: "rotating n D g D' w \<Longrightarrow> undone n D w"
  by (intro in_tx_undone) (auto simp: rotating_def)

lemma rotating_draw: "act_valid (rotating n D g D') (draw f) (\<lambda>a w. rotating n D g D' w \<and> (\<exists>i. f i = Ok a)) (\<lambda>_. undone n D)"
  by (auto simp: act_valid_outcome draw_def split: res.splits intro!: rotating_undone [of n D g D'])
    (auto simp: rotating_def)

lemma commit_rotating:
  "act_valid (rotating n D g D') (commit L)
     (\<lambda>_ w. tx w = Auto \<and> n \<le> w_draws w \<and> db w = D' \<and> grace_cache w = g) (\<lambda>_. undone n D)"
  by (auto simp: act_valid_outcome commit_def rotating_def undone_def drop_tx_def Let_def split: option.splits)

definition claimed :: "instant \<Rightarrow> string \<Rightarrow> tables \<Rightarrow> tables" where
  "claimed now h D = revoke_where (int now) (\<lambda>r. r_token_hash r = h) D"

definition successor ::
    "lib \<Rightarrow> tables \<Rightarrow> refresh_token_row \<Rightarrow> string option \<Rightarrow> string \<Rightarrow> refresh_token_row \<Rightarrow> bool" where
  "successor L D old ua secret row \<longleftrightarrow>
     same_session old row \<and> active row \<and> r_user_agent row = ua \<and> r_token_hash row = hash_token L secret \<and>
     r_token_hash row \<notin> r_token_hash ` set (refresh_tokens D)"

definition rotation_params ::
    "lib \<Rightarrow> refresh_token_row \<Rightarrow> string \<Rightarrow> string option \<Rightarrow> string \<Rightarrow> create_refresh_token_params" where
  "rotation_params L old jkt ua secret =
     \<lparr> p_user_id = r_user_id old, p_token_hash = hash_token L secret, p_fam = r_fam old,
       p_dpop_jkt = jkt, p_user_agent = ua, p_expires_at = r_expires_at old \<rparr>"

lemma create_rotated_valid:
  assumes "r_dpop_jkt old = jkt"
  shows "act_valid (rotating n D g (claimed now h D))
    (create_refresh_token L (int now) (rotation_params L old jkt ua secret))
    (\<lambda>new w. rotating n D g ((claimed now h D)\<lparr>refresh_tokens := refresh_tokens (claimed now h D) @ [new]\<rparr>) w \<and>
       successor L D old ua secret new)
    (\<lambda>_. undone n D)"
  unfolding act_valid_outcome
proof (intro allI impI)
  fix w :: "('a, 'b) world" and r w'
  assume w: "rotating n D g (claimed now h D) w"
    "create_refresh_token L (int now) (rotation_params L old jkt ua secret) w = (r, w')"
  show "case r of
      Ok new \<Rightarrow> rotating n D g ((claimed now h D)\<lparr>refresh_tokens := refresh_tokens (claimed now h D) @ [new]\<rparr>) w' \<and>
        successor L D old ua secret new
    | Err e \<Rightarrow> undone n D w' | Panic \<Rightarrow> undone n D w'"
  proof (cases r)
    case (Ok new)
    with create_refresh_token_Ok [OF w(2) [unfolded Ok]] w(1) assms show ?thesis
      by (auto simp: rotating_def rotation_params_def successor_def same_session_def active_def claimed_def)
  qed (use w create_refresh_token_failed [OF w(2)] in \<open>auto simp: rotating_def intro!: in_tx_undone\<close>)
qed

lemma refresh_tail_valid:
  assumes old: "old \<in> set (refresh_tokens D)" "r_token_hash old = h" "active old"
      "int now < r_expires_at old" "r_dpop_jkt old = jkt"
    and user: "user \<in> set (users D)" "u_id user = r_user_id old" "u_deleted_at user = None"
  shows "act_valid (rotating n D g (claimed now h D))
    (act_bind (act_map_err service_from_dpop (draw (new_refresh_secret L))) (\<lambda>secret.
     act_bind (act_map_err service_from_sqlx
         (create_refresh_token L (int now) (rotation_params L old jkt ua secret))) (\<lambda>_.
     act_bind (issue_user_token L now cfg user jkt) (\<lambda>access_token.
     act_bind (grace_insert G now (r_fam old, h) (replacement_of (token_pair_of cfg access_token secret))) (\<lambda>_.
     act_bind (act_map_err service_from_sqlx (commit L)) (\<lambda>_.
     act_return (token_pair_of cfg access_token secret)))))))
    (\<lambda>pair w. refresh_post L G now cfg h jkt ua n D g pair (drop_tx w))
    (\<lambda>_. undone n D)" (is "act_valid ?P _ ?Q ?E")
proof (intro act_valid_bind act_valid_map_err)
  let ?D2 = "\<lambda>new. (claimed now h D)\<lparr>refresh_tokens := refresh_tokens (claimed now h D) @ [new]\<rparr>"
  let ?issued = "\<lambda>at. \<exists>i. issue_access_token L now i (signer cfg) (issuer cfg) (audience cfg)
      (access_token_ttl cfg) (uuid_to_string L (u_public_id user)) jkt [(''name'', JStr (u_name user))] = Ok at"
  let ?g = "\<lambda>at secret. cache_insert G now (r_fam old, h) (replacement_of (token_pair_of cfg at secret)) g"
  let ?S = "\<lambda>new secret at w. rotating n D g (?D2 new) w \<and> successor L D old ua secret new \<and> ?issued at"
  show "act_valid ?P (draw (new_refresh_secret L)) (\<lambda>_. ?P) (\<lambda>_. undone n D)"
    by (rule act_valid_weaken [OF rotating_draw]) auto
  show "act_valid ?P (create_refresh_token L (int now) (rotation_params L old jkt ua secret))
       (\<lambda>new w. rotating n D g (?D2 new) w \<and> successor L D old ua secret new) (\<lambda>_. undone n D)" for secret
    by (rule create_rotated_valid [OF old(5)])
  show "act_valid (\<lambda>w. rotating n D g (?D2 new) w \<and> successor L D old ua secret new)
       (issue_user_token L now cfg user jkt) (\<lambda>at w. ?S new secret at w) ?E" for secret new
    unfolding issue_user_token_def
    by (rule act_valid_when) (rule act_valid_weaken [OF rotating_draw], auto)
  show "act_valid (?S new secret at)
       (grace_insert G now (r_fam old, h) (replacement_of (token_pair_of cfg at secret)))
       (\<lambda>_ w. rotating n D (?g at secret) (?D2 new) w \<and> successor L D old ua secret new \<and> ?issued at) ?E"
    for secret new at
    by (auto simp: act_valid_outcome grace_insert_def rotating_def)
  show "act_valid (\<lambda>w. rotating n D (?g at secret) (?D2 new) w \<and> successor L D old ua secret new \<and> ?issued at)
       (commit L)
       (\<lambda>_ w. (tx w = Auto \<and> n \<le> w_draws w \<and> db w = ?D2 new \<and> grace_cache w = ?g at secret) \<and>
              successor L D old ua secret new \<and> ?issued at) (\<lambda>_. undone n D)" for secret new at
    by (rule act_valid_when) (rule act_valid_weaken [OF commit_rotating], auto)
  show "act_valid (\<lambda>w. (tx w = Auto \<and> n \<le> w_draws w \<and> db w = ?D2 new \<and> grace_cache w = ?g at secret) \<and>
              successor L D old ua secret new \<and> ?issued at) (act_return (token_pair_of cfg at secret)) ?Q ?E"
    for secret new at
  proof (rule act_valid_return)
    fix w :: "('a, 'b) world"
    assume w: "(tx w = Auto \<and> n \<le> w_draws w \<and> db w = ?D2 new \<and> grace_cache w = ?g at secret) \<and>
              successor L D old ua secret new \<and> ?issued at"
    then obtain i where "issue_access_token L now i (signer cfg) (issuer cfg) (audience cfg)
      (access_token_ttl cfg) (uuid_to_string L (u_public_id user)) jkt [(''name'', JStr (u_name user))] = Ok at"
      by blast
    with w old user have "rotated L G now cfg h jkt ua (token_pair_of cfg at secret) D g (db w) (grace_cache w)"
      unfolding rotated_def
      by (intro exI [of _ old] exI [of _ user] exI [of _ new] exI [of _ i])
        (auto simp: successor_def token_pair_of_def claimed_def revoke_where_def revoke_rows_def)
    with w show "?Q (token_pair_of cfg at secret) w"
      by (simp add: refresh_post_def drop_tx_Auto token_pair_of_def)
  qed
qed

lemma revoke_if_active_valid:
  "act_valid (\<lambda>w. (n \<le> w_draws w \<and> grace_cache w = g) \<and> tx w = InTx D False \<and> db w = D)
     (revoke_refresh_token_if_active L (int now) h)
     (\<lambda>found w. case found of
        None \<Rightarrow> refresh_pre n D g w \<and> (\<forall>r\<in>set (refresh_tokens D). r_token_hash r = h \<longrightarrow> \<not> active r)
      | Some row \<Rightarrow> rotating n D g (claimed now h D) w \<and>
          (\<exists>old\<in>set (refresh_tokens D). r_token_hash old = h \<and> active old \<and>
             row = old\<lparr>r_revoked_at := Some (int now)\<rparr>))
     (\<lambda>_. undone n D)"
  unfolding act_valid_outcome
proof (intro allI impI)
  fix w :: "('a, 'b) world" and r w'
  assume w: "(n \<le> w_draws w \<and> grace_cache w = g) \<and> tx w = InTx D False \<and> db w = D"
    "revoke_refresh_token_if_active L (int now) h w = (r, w')"
  have fail: "\<not> is_ok r \<Longrightarrow> undone n D w'"
    using w db_query_failed [OF w(2) [unfolded revoke_refresh_token_if_active_def]]
    by (auto intro!: in_tx_undone)
  show "case r of
      Ok found \<Rightarrow> (case found of
        None \<Rightarrow> refresh_pre n D g w' \<and> (\<forall>r\<in>set (refresh_tokens D). r_token_hash r = h \<longrightarrow> \<not> active r)
      | Some row \<Rightarrow> rotating n D g (claimed now h D) w' \<and>
          (\<exists>old\<in>set (refresh_tokens D). r_token_hash old = h \<and> active old \<and>
             row = old\<lparr>r_revoked_at := Some (int now)\<rparr>))
    | Err e \<Rightarrow> undone n D w' | Panic \<Rightarrow> undone n D w'"
  proof (cases r)
    case (Ok found)
    from revoke_if_active_Ok [OF w(2) [unfolded Ok]] w(1) Ok show ?thesis
      by (auto simp: refresh_pre_def rotating_def claimed_def split: option.splits)
  qed (use fail in auto)
qed

lemma refresh_active_valid:
  assumes old: "old \<in> set (refresh_tokens D)" "r_token_hash old = h" "active old"
    and row: "row = old\<lparr>r_revoked_at := Some (int now)\<rparr>"
  shows "act_valid (rotating n D g (claimed now h D)) (refresh_active L G now cfg h row jkt ua)
    (\<lambda>pair w. refresh_post L G now cfg h jkt ua n D g pair (drop_tx w)) (\<lambda>_. undone n D)"
    (is "act_valid ?P _ ?Q _")
proof (cases "int now < r_expires_at old \<and> r_dpop_jkt old = jkt")
  case False
  have "act_valid ?P (act_fail e) ?Q (\<lambda>_. undone n D)" for e
    by (intro act_valid_fail rotating_undone)
  then show ?thesis using row False by (auto simp: refresh_active_def)
next
  case True
  let ?user = "\<lambda>user. user \<in> set (users D) \<and> u_id user = r_user_id old \<and> u_deleted_at user = None"
  have find: "act_valid ?P (find_user_by_id L (r_user_id old)) (\<lambda>found w. ?P w \<and> (\<forall>u. found = Some u \<longrightarrow> ?user u))
      (\<lambda>_. undone n D)"
    unfolding find_user_by_id_def db_read_def
    by (intro db_query_valid in_tx_undone) (auto simp: rotating_def claimed_def dest: find_SomeD)
  have lift: "act_valid (\<lambda>w. ?P w \<and> (\<forall>u. found = Some u \<longrightarrow> ?user u)) (act_lift (ok_or Unauthorized found))
      (\<lambda>u w. ?P w \<and> ?user u) (\<lambda>_. undone n D)" for found
    by (rule act_valid_lift) (auto intro: rotating_undone)
  have pair: "\<lparr> rt_access_token = at, rt_refresh_token = secret, rt_expires_in = as_secs (access_token_ttl cfg) \<rparr> =
      replacement_of (token_pair_of cfg at secret)" for at secret
    by (simp add: replacement_of_def token_pair_of_def)
  have "act_valid ?P
     (act_bind (act_map_err service_from_sqlx (find_user_by_id L (r_user_id old))) (\<lambda>found.
      act_bind (act_lift (ok_or Unauthorized found)) (\<lambda>user.
      act_bind (act_map_err service_from_dpop (draw (new_refresh_secret L))) (\<lambda>secret.
      act_bind (act_map_err service_from_sqlx
         (create_refresh_token L (int now) (rotation_params L old jkt ua secret))) (\<lambda>_.
      act_bind (issue_user_token L now cfg user jkt) (\<lambda>access_token.
      act_bind (grace_insert G now (r_fam old, h) (replacement_of (token_pair_of cfg access_token secret))) (\<lambda>_.
      act_bind (act_map_err service_from_sqlx (commit L)) (\<lambda>_.
      act_return (token_pair_of cfg access_token secret))))))))) ?Q (\<lambda>_. undone n D)"
    by (rule act_valid_bind [OF act_valid_map_err [OF find]], rule act_valid_bind [OF lift], rule act_valid_when,
        intro refresh_tail_valid [OF old]) (use True in auto)
  with True row show ?thesis by (auto simp: refresh_active_def pair rotation_params_def)
qed

lemma refresh_valid:
  "act_valid (\<lambda>w. (n \<le> w_draws w \<and> grace_cache w = g) \<and> tx w = Auto \<and> db w = D)
     (refresh L G now svc token jkt ua)
     (refresh_post L G now (svc_config svc) (hash_token L token) jkt ua n D g)
     (refresh_fail G now (hash_token L token) n D g)"
  unfolding refresh_def Let_def
proof (rule with_tx_valid)
  let ?h = "hash_token L token"
  show "act_valid (\<lambda>w. (n \<le> w_draws w \<and> grace_cache w = g) \<and> tx w = InTx D False \<and> db w = D)
    (act_bind (act_map_err service_from_sqlx (revoke_refresh_token_if_active L (int now) ?h)) (\<lambda>row.
        case row of
          None \<Rightarrow> refresh_inactive L G now ?h
        | Some row \<Rightarrow> refresh_active L G now (svc_config svc) ?h row jkt ua))
    (\<lambda>pair w. refresh_post L G now (svc_config svc) ?h jkt ua n D g pair (drop_tx w))
    (\<lambda>e w. refresh_fail G now ?h n D g e (drop_tx w))"
  proof (rule act_valid_bind)
    let ?found = "\<lambda>found w. case found of
        None \<Rightarrow> refresh_pre n D g w \<and> (\<forall>r\<in>set (refresh_tokens D). r_token_hash r = ?h \<longrightarrow> \<not> active r)
      | Some row \<Rightarrow> rotating n D g (claimed now ?h D) w \<and>
          (\<exists>old\<in>set (refresh_tokens D). r_token_hash old = ?h \<and> active old \<and>
             row = old\<lparr>r_revoked_at := Some (int now)\<rparr>)"
    show "act_valid (\<lambda>w. (n \<le> w_draws w \<and> grace_cache w = g) \<and> tx w = InTx D False \<and> db w = D)
        (act_map_err service_from_sqlx (revoke_refresh_token_if_active L (int now) ?h))
        ?found (\<lambda>e w. refresh_fail G now ?h n D g e (drop_tx w))"
      by (intro act_valid_map_err act_valid_weaken [OF revoke_if_active_valid] undone_fails)
    show "act_valid (?found found)
       (case found of None \<Rightarrow> refresh_inactive L G now ?h
        | Some row \<Rightarrow> refresh_active L G now (svc_config svc) ?h row jkt ua)
       (\<lambda>pair w. refresh_post L G now (svc_config svc) ?h jkt ua n D g pair (drop_tx w))
       (\<lambda>e w. refresh_fail G now ?h n D g e (drop_tx w))" for found
    proof (cases found)
      case None
      then show ?thesis by (auto intro!: act_valid_when refresh_inactive_valid)
    next
      case (Some row)
      then show ?thesis
        by (auto intro!: act_valid_when act_valid_weaken [OF refresh_active_valid] undone_fails)
    qed
  qed
qed (auto simp: refresh_fail_def)

section \<open>Calls that do not fail\<close>

text \<open>A library whose database answers every call and whose blocking tasks finish.\<close>

definition reliable :: "lib \<Rightarrow> bool" where
  "reliable L \<longleftrightarrow> (\<forall>i. db_fault L i = None) \<and> (\<forall>i. spawn_blocking_fault L i = None)"

lemma reliable_query:
  assumes "reliable L"
  shows "db_query L texts stmt w =
    (let w1 = w\<lparr>calls := calls w + 1\<rparr>; failed = w1\<lparr>tx := mark_aborted (tx w)\<rparr> in
     if is_aborted (tx w) then (Err aborted_error, failed)
     else if \<not> list_all pg_text texts then (Err invalid_text, failed)
     else (case stmt (db w) (pg_draws w) of
             Ok (a, d, n) \<Rightarrow> (Ok a, w1\<lparr>db := d, pg_draws := n\<rparr>)
           | Err e \<Rightarrow> (Err e, failed)
           | Panic \<Rightarrow> (Panic, failed)))"
  using assms by (simp add: db_query_def reliable_def)

lemma reliable_read:
  assumes "reliable L" and "\<not> is_aborted (tx w)" and "list_all pg_text texts"
  shows "db_read L texts g w = (Ok (g (db w)), w\<lparr>calls := calls w + 1\<rparr>)"
  using assms by (simp add: db_read_def reliable_query world_same)

lemma reliable_exec:
  assumes "reliable L" and "\<not> is_aborted (tx w)" and "list_all pg_text texts"
  shows "db_exec L texts f w = (Ok (), w\<lparr>calls := calls w + 1, db := f (db w)\<rparr>)"
  using assms by (simp add: db_exec_def reliable_query)

lemma reliable_commit:
  assumes "reliable L" and "\<not> is_aborted (tx w)"
  shows "commit L w = (Ok (), w\<lparr>calls := calls w + 1, tx := Auto, session_settings := kept_settings (tx_settings w) (session_settings w),
      tx_settings := []\<rparr>)"
  using assms by (simp add: commit_def reliable_def)

lemma reliable_with_tx:
  assumes "reliable L" and "tx w = Auto"
  shows "with_tx L body w =
    (case body (w\<lparr>calls := calls w + 1, tx := InTx (db w) False\<rparr>) of (r, w') \<Rightarrow> (r, drop_tx w'))"
  using assms by (simp add: with_tx_def act_bind_def act_map_err_def begin_tx_def reliable_read)

text \<open>The token of a known row that is not active any more.\<close>

lemma refresh_known_inactive:
  assumes "reliable L" and "tx w = Auto" and "pg_text (hash_token L token)"
    and "find (\<lambda>r. r_token_hash r = hash_token L token) (refresh_tokens (db w)) = Some existing"
    and "\<forall>r\<in>set (refresh_tokens (db w)). r_token_hash r = hash_token L token \<longrightarrow> \<not> active r"
  shows "case cache_get G now (r_fam existing, hash_token L token) (grace_cache w) of
     Some cached \<Rightarrow>
       fst (refresh L G now svc token jkt ua w) =
         Ok \<lparr> tp_access_token = rt_access_token cached, tp_refresh_token = rt_refresh_token cached,
              tp_token_type = TOKEN_TYPE, tp_expires_in = rt_expires_in cached \<rparr>
   | None \<Rightarrow>
       fst (refresh L G now svc token jkt ua w) = Err Unauthorized \<and>
       db (snd (refresh L G now svc token jkt ua w)) =
         revoke_where (int now) (\<lambda>r. r_fam r = r_fam existing) (db w)"
proof -
  let ?h = "hash_token L token"
  let ?w1 = "w\<lparr>calls := calls w + 2, tx := InTx (db w) False\<rparr>"
  have none: "find (\<lambda>r. r_token_hash r = ?h \<and> r_revoked_at r = None) (refresh_tokens (db w)) = None"
    using assms(5) by (auto simp: find_None_iff active_def)
  have same: "revoke_where (int now) (\<lambda>r. r_token_hash r = ?h) (db w) = db w"
    using assms(5) update_where_none [of "refresh_tokens (db w)" "\<lambda>r. r_token_hash r = ?h \<and> r_revoked_at r = None"]
    by (simp add: revoke_where_def active_def)
  have cas: "revoke_refresh_token_if_active L (int now) ?h (w\<lparr>calls := Suc (calls w), tx := InTx (db w) False\<rparr>) =
      (Ok None, ?w1)"
    using assms(1,3) none same by (simp add: revoke_refresh_token_if_active_def reliable_query Let_def)
  have "find_refresh_token_by_hash L ?h ?w1 = (Ok (Some existing), ?w1\<lparr>calls := calls w + 3\<rparr>)"
    using assms(1,3,4) by (simp add: find_refresh_token_by_hash_def reliable_read)
  with cas assms(1,2) show ?thesis
    by (auto simp: refresh_def Let_def reliable_with_tx act_bind_def act_map_err_def refresh_inactive_def
        grace_get_def revoke_refresh_token_family_def reliable_exec reliable_commit drop_tx_def
        split: option.splits)
qed

lemma find_active:
  assumes "distinct (map r_token_hash ts)" and "old \<in> set ts" and "active old"
  shows "find (\<lambda>r. r_token_hash r = r_token_hash old \<and> r_revoked_at r = None) ts = Some old"
  using assms
proof (induction ts)
  case (Cons r ts)
  then show ?case by (cases "r = old") (auto simp: active_def image_iff)
qed simp

text \<open>The token of an active row.\<close>

lemma refresh_claims_active:
  assumes "reliable L" and "tx w = Auto" and "pg_text (hash_token L token)"
    and "distinct (map r_token_hash (refresh_tokens (db w)))"
    and old: "old \<in> set (refresh_tokens (db w))" "r_token_hash old = hash_token L token" "active old"
  shows "refresh L G now svc token jkt ua w =
    (case refresh_active L G now (svc_config svc) (hash_token L token)
            (old\<lparr>r_revoked_at := Some (int now)\<rparr>) jkt ua
            (w\<lparr>calls := calls w + 2, tx := InTx (db w) False,
               db := claimed now (hash_token L token) (db w)\<rparr>) of (r, w') \<Rightarrow> (r, drop_tx w'))"
proof -
  let ?h = "hash_token L token"
  have "revoke_refresh_token_if_active L (int now) ?h (w\<lparr>calls := Suc (calls w), tx := InTx (db w) False\<rparr>) =
      (Ok (Some (old\<lparr>r_revoked_at := Some (int now)\<rparr>)),
       w\<lparr>calls := calls w + 2, tx := InTx (db w) False, db := claimed now ?h (db w)\<rparr>)"
    using assms(1,3) find_active [OF assms(4) old(1,3)] old(2)
    by (simp add: revoke_refresh_token_if_active_def reliable_query Let_def claimed_def)
  then show ?thesis
    using assms(1,2) by (simp add: refresh_def Let_def reliable_with_tx act_bind_def act_map_err_def)
qed

lemma refresh_outcome:
  assumes "tx w = Auto"
  shows "case refresh L G now svc token jkt ua w of (r, w') \<Rightarrow>
    tx w' = Auto \<and>
    (case r of
       Ok pair \<Rightarrow>
         rotated L G now (svc_config svc) (hash_token L token) jkt ua pair (db w) (grace_cache w) (db w') (grace_cache w') \<or>
         repeated G now (hash_token L token) pair (db w) (grace_cache w) \<and> db w' = db w \<and> grace_cache w' = grace_cache w
     | Err e \<Rightarrow> db w' = db w \<or> e = Unauthorized \<and> reused G now (hash_token L token) (db w) (grace_cache w) (db w')
     | Panic \<Rightarrow> db w' = db w)"
proof -
  obtain r w' where run: "refresh L G now svc token jkt ua w = (r, w')"
    by (cases "refresh L G now svc token jkt ua w")
  have pre: "(w_draws w \<le> w_draws w \<and> grace_cache w = grace_cache w) \<and> tx w = Auto \<and> db w = db w"
    using assms by simp
  show ?thesis
    using act_validD [OF refresh_valid pre, of L G now svc token jkt ua] run
    by (cases r) (auto simp: refresh_post_def refresh_fail_def)
qed

section \<open>What a login does\<close>

text \<open>The user that the credentials belong to.\<close>

definition credentials_match :: "lib \<Rightarrow> string \<Rightarrow> string \<Rightarrow> string \<Rightarrow> tables \<Rightarrow> user_row \<Rightarrow> bool" where
  "credentials_match L kind value password D user \<longleftrightarrow>
     user_by_identifier L kind (to_lowercase L value) D = Some user \<and>
     phc_parse L (u_password_hash user) = None \<and> argon2_verify L password (u_password_hash user)"

lemma verify_password_async_Ok:
  "verify_password_async L i p h = Ok b \<longleftrightarrow>
   spawn_blocking_fault L i = None \<and> phc_parse L h = None \<and> b = argon2_verify L p h"
  by (auto simp: verify_password_async_def spawn_blocking_def verify_password_def split: option.splits)

lemma authenticate_user_valid:
  "act_valid (\<lambda>w. tx w = Auto \<and> db w = D) (authenticate_user L now svc kind value password ip)
     (\<lambda>user w. tx w = Auto \<and> db w = D \<and> credentials_match L kind value password D user) (\<lambda>_ _. True)"
  unfolding authenticate_user_def Let_def
proof (intro act_valid_bind act_valid_map_err)
  let ?P = "\<lambda>w. tx w = Auto \<and> db w = D"
  let ?found = "user_by_identifier L kind (to_lowercase L value) D"
  show "act_valid ?P (find_user_by_identifier L kind value) (\<lambda>found w. ?P w \<and> found = ?found) (\<lambda>_ _. True)"
    unfolding find_user_by_identifier_def Let_def db_read_def by (rule db_query_valid) auto
  let ?hash = "\<lambda>found. case found of Some u \<Rightarrow> u_password_hash u | None \<Rightarrow> dummy_hash svc"
  show "act_valid (\<lambda>w. ?P w \<and> found = ?found)
      (draw (\<lambda>i. verify_password_async L i password (?hash found)))
      (\<lambda>valid w. ?P w \<and> found = ?found \<and> phc_parse L (?hash found) = None \<and>
         valid = argon2_verify L password (?hash found)) (\<lambda>_ _. True)" for found
    by (auto simp: act_valid_outcome draw_def verify_password_async_Ok split: res.splits)
  show "act_valid (\<lambda>w. ?P w \<and> found = ?found \<and> phc_parse L (?hash found) = None \<and>
         valid = argon2_verify L password (?hash found))
      (case found of
         Some user \<Rightarrow>
           if valid then act_return user
           else act_bind (act_ok (record_login_attempt L (int now) kind value ip False
                   (Some ''wrong_password''))) (\<lambda>_. act_fail Unauthorized)
       | None \<Rightarrow>
           act_bind (act_ok (record_login_attempt L (int now) kind value ip False
               (Some ''user_not_found''))) (\<lambda>_. act_fail Unauthorized))
      (\<lambda>user w. tx w = Auto \<and> db w = D \<and> credentials_match L kind value password D user) (\<lambda>_ _. True)" for found valid
    by (auto simp: act_valid_outcome act_bind_def credentials_match_def split: option.splits res.splits prod.splits)
qed

lemma new_family_row:
  "act_valid (\<lambda>w. tx w = Auto \<and> refresh_tokens (db w) = ts) (new_family L now cfg uid jkt ua)
     (\<lambda>secret w. \<exists>row. refresh_tokens (db w) = ts @ [row] \<and> r_token_hash row = hash_token L secret \<and>
        r_user_id row = uid \<and> r_dpop_jkt row = jkt \<and> r_user_agent row = ua \<and> active row \<and>
        refresh_expiry L now cfg = Some (r_expires_at row)) (\<lambda>_ _. True)"
  unfolding new_family_def
proof (intro act_valid_bind act_valid_map_err)
  let ?P = "\<lambda>w. tx w = Auto \<and> refresh_tokens (db w) = ts"
  show "act_valid ?P (draw f) (\<lambda>_. ?P) (\<lambda>_ _. True)" for f :: "nat \<Rightarrow> ('e, 'x) res"
    by (auto simp: act_valid_outcome draw_def split: res.splits)
  then show "act_valid ?P (draw (\<lambda>i. Ok (new_v4 L i))) (\<lambda>_. ?P) (\<lambda>_ _. True)" by blast
  show "act_valid ?P (act_lift (or_panic (refresh_expiry L now cfg)))
     (\<lambda>ex w. ?P w \<and> refresh_expiry L now cfg = Some ex) (\<lambda>_ _. True)"
    by (rule act_valid_lift) auto
  let ?row = "\<lambda>secret w. \<exists>row. refresh_tokens (db w) = ts @ [row] \<and> r_token_hash row = hash_token L secret \<and>
        r_user_id row = uid \<and> r_dpop_jkt row = jkt \<and> r_user_agent row = ua \<and> active row \<and>
        refresh_expiry L now cfg = Some (r_expires_at row)"
  show "act_valid (\<lambda>w. ?P w \<and> refresh_expiry L now cfg = Some ex)
     (create_refresh_token L (int now)
        \<lparr> p_user_id = uid, p_token_hash = hash_token L secret, p_fam = fam, p_dpop_jkt = jkt,
          p_user_agent = ua, p_expires_at = ex \<rparr>) (\<lambda>_. ?row secret) (\<lambda>_ _. True)" for ex secret fam
    by (auto simp: act_valid_outcome active_def split: res.splits dest!: create_refresh_token_Ok)
  show "act_valid (?row secret) (act_return secret) ?row (\<lambda>_ _. True)" for secret
    by (rule act_valid_return) simp
qed

lemma login_valid:
  "act_valid (\<lambda>w. tx w = Auto \<and> db w = D) (login L now svc kind value password jkt ip ua)
    (\<lambda>out w'. case out of
      Success pair \<Rightarrow> \<exists>user row. credentials_match L kind value password D user \<and> \<not> u_totp_enabled user \<and>
           refresh_tokens (db w') = refresh_tokens D @ [row] \<and>
           r_token_hash row = hash_token L (tp_refresh_token pair) \<and> r_user_id row = u_id user \<and>
           r_dpop_jkt row = jkt \<and> r_user_agent row = ua \<and> active row \<and>
           refresh_expiry L now (svc_config svc) = Some (r_expires_at row)
    | Requires2fa \<Rightarrow> (\<exists>user. credentials_match L kind value password D user \<and> u_totp_enabled user) \<and> db w' = D)
    (\<lambda>_ _. True)" (is "act_valid ?P _ ?Q _")
  unfolding login_def
proof (rule act_valid_bind)
  show "act_valid ?P (act_map_err service_from_sqlx (acquire L)) (\<lambda>_. ?P) (\<lambda>_ _. True)"
    unfolding acquire_def db_read_def by (intro act_valid_map_err db_query_valid) auto
  have auth: "act_valid ?P (authenticate_user L now svc kind value password ip)
      (\<lambda>user w. ?P w \<and> credentials_match L kind value password D user) (\<lambda>_ _. True)"
    by (rule act_valid_weaken [OF authenticate_user_valid]) auto
  let ?rest = "\<lambda>user. if u_totp_enabled user then act_return Requires2fa
     else act_bind (act_ok (update_last_login_at L (int now) (u_id user))) (\<lambda>_.
          act_bind (act_ok (record_login_attempt L (int now) kind value ip True None)) (\<lambda>_.
          act_bind (issue_session L now (svc_config svc) user jkt ua) (\<lambda>tokens. act_return (Success tokens))))"
  have rest: "act_valid ?P (?rest user) ?Q (\<lambda>_ _. True)" if c: "credentials_match L kind value password D user" for user
  proof (cases "u_totp_enabled user")
    case True
    with c show ?thesis by (auto intro!: act_valid_return)
  next
    case False
    let ?T = "\<lambda>w. tx w = Auto \<and> refresh_tokens (db w) = refresh_tokens D"
    let ?row = "\<lambda>secret w. \<exists>row. refresh_tokens (db w) = refresh_tokens D @ [row] \<and>
        r_token_hash row = hash_token L secret \<and> r_user_id row = u_id user \<and> r_dpop_jkt row = jkt \<and>
        r_user_agent row = ua \<and> active row \<and>
        refresh_expiry L now (svc_config svc) = Some (r_expires_at row)"
    have T: "?T = tok no_tx 0 (refresh_tokens D)"
      by (simp add: fun_eq_iff holds_def no_tx_def)
    have keep: "act_keeps ?T (act_ok (update_last_login_at L t uid) :: ('a, 'b, service_error, unit) sact)"
      "act_keeps ?T (act_ok (record_login_attempt L t k v i b q) :: ('a, 'b, service_error, unit) sact)" for t uid k v i b q
      unfolding T by (intro act_keeps_ok store_tok abortable_intros)+
    have issue: "act_valid (?row secret) (issue_user_token L now (svc_config svc) user jkt :: ('a, 'b, service_error, string) sact)
        (\<lambda>_. ?row secret) (\<lambda>_ _. True)" for secret
      by (auto simp: act_valid_outcome issue_user_token_def draw_def split: res.splits)
    have "act_valid ?T (issue_session L now (svc_config svc) user jkt ua :: ('a, 'b, service_error, token_pair) sact)
        (\<lambda>pair. ?row (tp_refresh_token pair)) (\<lambda>_ _. True)"
      unfolding issue_session_def
      by (rule act_valid_bind [OF new_family_row], rule act_valid_bind [OF issue], rule act_valid_return)
        (simp add: token_pair_of_def)
    then have "act_valid ?T (act_bind (issue_session L now (svc_config svc) user jkt ua)
        (\<lambda>tokens. act_return (Success tokens))) ?Q (\<lambda>_ _. True)"
      by (rule act_valid_bind) (rule act_valid_return, use c False in auto)
    then have "act_valid ?T (?rest user) ?Q (\<lambda>_ _. True)"
      using False by (auto intro!: act_keeps_bind [OF keep(1)] act_keeps_bind [OF keep(2)])
    then show ?thesis by (rule act_valid_weaken) auto
  qed
  show "act_valid ?P (act_bind (authenticate_user L now svc kind value password ip) ?rest) ?Q (\<lambda>_ _. True)"
    by (rule act_valid_bind [OF auth]) (rule act_valid_when, rule rest)
qed

end
