(* ===== verification/Totp.thy ===== *)
theory Totp
  imports Store
begin

text \<open>
  \<open>crypto/totp.rs\<close> and \<open>store/repo/totp.rs\<close>: one-time passwords, recovery codes, and the statements
  that keep the enrolment of a user. The crate \<open>totp_rs\<close> is a parameter (\<open>secret_\<dots>\<close> and
  \<open>totp_\<dots>\<close> of \<open>lib\<close>); \<open>check_current\<close> reads the clock in whole seconds.
\<close>

section \<open>One-time passwords\<close>

definition TOTP_DIGITS :: nat where
  "TOTP_DIGITS = 6"

definition TOTP_SKEW :: nat where
  "TOTP_SKEW = 1"

definition TOTP_STEP :: nat where
  "TOTP_STEP = 30"

record totp_setup =
  secret_base32 :: string
  otpauth_url :: string

definition build_totp :: "lib \<Rightarrow> string \<Rightarrow> string option \<Rightarrow> string option \<Rightarrow> (dpop_error, totp) res" where
  "build_totp L base32 issuer_name account_name =
     res_bind (map_err (\<lambda>e. Internal (''invalid TOTP secret: '' @ e))
        (of_sum (secret_try_from_base32 L base32))) (\<lambda>secret.
     let builder =
       \<lparr> totp_algorithm = ''SHA1'', totp_digits = TOTP_DIGITS, totp_skew = TOTP_SKEW, totp_step = TOTP_STEP,
         totp_key = secret, totp_account_name = (case account_name of Some a \<Rightarrow> a | None \<Rightarrow> []),
         totp_issuer = issuer_name \<rparr>
     in case totp_build_fault L builder of
          Some e \<Rightarrow> Err (Internal (''failed to build TOTP: '' @ e))
        | None \<Rightarrow> Ok builder)"

definition setup_from_secret :: "lib \<Rightarrow> string \<Rightarrow> string \<Rightarrow> string \<Rightarrow> (dpop_error, totp_setup) res" where
  "setup_from_secret L secret issuer_name account_name =
     res_bind (build_totp L secret (Some issuer_name) (Some account_name)) (\<lambda>totp.
     res_bind (map_err (\<lambda>e. Internal (''failed to build otpauth URL: '' @ e)) (of_sum (totp_to_url L totp))) (\<lambda>url.
     Ok \<lparr> secret_base32 = secret_to_base32 L (totp_key totp), otpauth_url = url \<rparr>))"

definition generate_setup :: "lib \<Rightarrow> nat \<Rightarrow> string \<Rightarrow> string \<Rightarrow> (dpop_error, totp_setup) res" where
  "generate_setup L i issuer_name account_name =
     (let secret = secret_generate L i
      in setup_from_secret L (secret_to_base32 L secret) issuer_name account_name)"

definition verify_code :: "lib \<Rightarrow> instant \<Rightarrow> string \<Rightarrow> string \<Rightarrow> bool" where
  "verify_code L now secret code =
     (case build_totp L secret None None of
        Ok totp \<Rightarrow> totp_check L totp (trim code) (now div NANOS_PER_SEC)
      | Err e \<Rightarrow> False
      | Panic \<Rightarrow> False)"

section \<open>Recovery codes\<close>

definition hyphenated :: "string \<Rightarrow> ('e, string) res" where
  "hyphenated hex =
     res_bind (str_slice 0 5 hex) (\<lambda>a.
     res_bind (str_slice 5 10 hex) (\<lambda>b.
     res_bind (str_slice 10 15 hex) (\<lambda>c.
     res_bind (str_slice 15 20 hex) (\<lambda>d.
     Ok (a @ ''-'' @ b @ ''-'' @ c @ ''-'' @ d)))))"

definition generate_recovery_code :: "lib \<Rightarrow> nat \<Rightarrow> (dpop_error, string) res" where
  "generate_recovery_code L i =
     res_bind (map_err Internal (of_sum (getrandom L i 10))) (\<lambda>bytes. hyphenated (hex_encode L bytes))"

text \<open>\<open>as_chunks::<N>().0\<close>: the chunks of exactly \<open>n\<close> elements, without the rest.\<close>

function as_chunks :: "nat \<Rightarrow> 'a list \<Rightarrow> 'a list list" where
  "as_chunks n xs = (if n = 0 \<or> length xs < n then [] else take n xs # as_chunks n (drop n xs))"
  by pat_completeness auto
termination
  by (relation "measure (\<lambda>(n, xs). length xs)") auto

declare as_chunks.simps [simp del]

fun collect_results :: "('e, 'a) res list \<Rightarrow> ('e, 'a list) res" where
  "collect_results [] = Ok []"
| "collect_results (r # rs) = res_bind r (\<lambda>a. res_bind (collect_results rs) (\<lambda>as. Ok (a # as)))"

text \<open>A buffer of \<open>isize::MAX\<close> bytes or more cannot be allocated.\<close>

definition generate_recovery_codes :: "lib \<Rightarrow> nat \<Rightarrow> nat \<Rightarrow> (dpop_error, string list) res" where
  "generate_recovery_codes L i count =
     (if 2 ^ 63 \<le> count * 10 then Panic
      else
      res_bind (map_err Internal (of_sum (getrandom L i (count * 10)))) (\<lambda>bytes.
      collect_results (map (\<lambda>chunk. hyphenated (hex_encode L chunk)) (as_chunks 10 bytes))))"

definition hash_recovery_code :: "lib \<Rightarrow> string \<Rightarrow> string" where
  "hash_recovery_code L code = hash_token L (to_lowercase L (trim code))"

definition is_recovery_code :: "string \<Rightarrow> bool" where
  "is_recovery_code code =
     (let code = trim code in
      if length code \<noteq> 23 then False
      else
        let groups = split_on CHR ''-'' code in
        length groups = 4 \<and> list_all (\<lambda>g. length g = 5 \<and> list_all is_ascii_hexdigit g) groups)"

section \<open>The enrolment in the store\<close>

definition PENDING_TTL :: int where
  "PENDING_TTL = int (from_secs 600)"

definition set_pending_totp_secret ::
    "lib \<Rightarrow> timestamp \<Rightarrow> uuid \<Rightarrow> string \<Rightarrow> ('g, 'r, sqlx_error, unit) sact" where
  "set_pending_totp_secret L now user_id secret =
     db_exec L [secret]
       (update_users now (\<lambda>u. u_id u = user_id \<and> \<not> u_totp_enabled u \<and> u_deleted_at u = None)
         (\<lambda>u. u\<lparr>u_totp_pending_secret := Some secret, u_totp_pending_at := Some now\<rparr>))"

definition live_draft :: "timestamp \<Rightarrow> uuid \<Rightarrow> user_row \<Rightarrow> bool" where
  "live_draft now user_id u \<longleftrightarrow>
     u_id u = user_id \<and> \<not> u_totp_enabled u \<and>
     (case u_totp_pending_at u of None \<Rightarrow> False | Some t \<Rightarrow> now - PENDING_TTL < t) \<and> u_deleted_at u = None"

definition get_pending_totp_secret ::
    "lib \<Rightarrow> timestamp \<Rightarrow> uuid \<Rightarrow> ('g, 'r, sqlx_error, string option) sact" where
  "get_pending_totp_secret L now user_id =
     db_read L [] (\<lambda>d. Option.bind (find (live_draft now user_id) (users d)) u_totp_pending_secret)"

definition drafted :: "uuid \<Rightarrow> user_row \<Rightarrow> bool" where
  "drafted user_id u \<longleftrightarrow> u_id u = user_id \<and> u_totp_pending_secret u \<noteq> None \<and> u_deleted_at u = None"

definition promote_draft :: "timestamp \<Rightarrow> user_row \<Rightarrow> user_row" where
  "promote_draft now u =
     u\<lparr>u_totp_secret := u_totp_pending_secret u, u_totp_enabled := True, u_totp_enabled_at := Some now,
       u_totp_pending_secret := None, u_totp_pending_at := None\<rparr>"

definition activate_totp :: "lib \<Rightarrow> timestamp \<Rightarrow> uuid \<Rightarrow> ('g, 'r, sqlx_error, unit) sact" where
  "activate_totp L now user_id =
     db_query L [] (\<lambda>d n.
       if \<exists>u\<in>set (users d). drafted user_id u \<and> 64 < char_count (the (u_totp_pending_secret u)) then Err too_long
       else Ok ((), update_users now (drafted user_id) (promote_draft now) d, n))"

definition clear_totp :: "user_row \<Rightarrow> user_row" where
  "clear_totp u =
     u\<lparr>u_totp_secret := None, u_totp_enabled := False, u_totp_enabled_at := None,
       u_totp_pending_secret := None, u_totp_pending_at := None\<rparr>"

definition disable_totp :: "lib \<Rightarrow> timestamp \<Rightarrow> uuid \<Rightarrow> ('g, 'r, sqlx_error, unit) sact" where
  "disable_totp L now user_id =
     db_exec L []
       (update_users now (\<lambda>u. u_id u = user_id \<and> u_totp_enabled u \<and> u_deleted_at u = None) clear_totp)"

definition unused :: "recovery_code_row \<Rightarrow> bool" where
  "unused c \<longleftrightarrow> c_used_at c = None"

definition new_code_rows :: "lib \<Rightarrow> timestamp \<Rightarrow> nat \<Rightarrow> uuid \<Rightarrow> string list \<Rightarrow> recovery_code_row list" where
  "new_code_rows L now n user_id hashes =
     map (\<lambda>(i, h). \<lparr> c_id = pg_uuid L (n + i), c_user_id = user_id, c_code_hash = h, c_used_at = None,
                     c_created_at = now \<rparr>) (enumerate 0 hashes)"

definition create_recovery_codes ::
    "lib \<Rightarrow> timestamp \<Rightarrow> uuid \<Rightarrow> string list \<Rightarrow> ('g, 'r, sqlx_error, unit) sact" where
  "create_recovery_codes L now user_id code_hashes =
     (if code_hashes = [] then act_return ()
      else
      db_query L code_hashes (\<lambda>d n.
        let rows = new_code_rows L now n user_id code_hashes;
            clash = (\<exists>c\<in>set (recovery_codes d). unused c \<and> c_user_id c = user_id \<and> c_code_hash c \<in> set code_hashes)
        in if \<not> distinct (map c_id rows) \<or> (\<exists>r\<in>set rows. c_id r \<in> c_id ` set (recovery_codes d)) \<or>
              \<not> distinct code_hashes \<or> clash
           then Err unique_violation
           else if user_id \<notin> u_id ` set (users d) then Err foreign_key_violation
           else Ok ((), d\<lparr>recovery_codes := recovery_codes d @ rows\<rparr>, n + length rows)))"

definition use_codes :: "timestamp \<Rightarrow> (recovery_code_row \<Rightarrow> bool) \<Rightarrow> tables \<Rightarrow> tables" where
  "use_codes now P d =
     d\<lparr>recovery_codes := update_where (\<lambda>c. P c \<and> c_used_at c = None) (\<lambda>c. c\<lparr>c_used_at := Some now\<rparr>) (recovery_codes d)\<rparr>"

definition consume_recovery_code ::
    "lib \<Rightarrow> timestamp \<Rightarrow> uuid \<Rightarrow> string \<Rightarrow> ('g, 'r, sqlx_error, uuid option) sact" where
  "consume_recovery_code L now user_id code_hash =
     db_query L [code_hash] (\<lambda>d n.
       Ok (map_option c_id (find (\<lambda>c. (c_user_id c = user_id \<and> c_code_hash c = code_hash) \<and> c_used_at c = None)
             (recovery_codes d)),
           use_codes now (\<lambda>c. c_user_id c = user_id \<and> c_code_hash c = code_hash) d, n))"

definition invalidate_recovery_codes_for_user ::
    "lib \<Rightarrow> timestamp \<Rightarrow> uuid \<Rightarrow> ('g, 'r, sqlx_error, unit) sact" where
  "invalidate_recovery_codes_for_user L now user_id =
     db_exec L [] (use_codes now (\<lambda>c. c_user_id c = user_id))"

definition count_active_recovery_codes :: "lib \<Rightarrow> uuid \<Rightarrow> ('g, 'r, sqlx_error, int) sact" where
  "count_active_recovery_codes L user_id =
     db_read L [] (\<lambda>d. int (length (filter (\<lambda>c. c_user_id c = user_id \<and> c_used_at c = None) (recovery_codes d))))"

definition cleanup_expired_drafts :: "lib \<Rightarrow> timestamp \<Rightarrow> ('g, 'r, sqlx_error, unit) sact" where
  "cleanup_expired_drafts L now =
     db_exec L []
       (update_users now (\<lambda>u. case u_totp_pending_at u of None \<Rightarrow> False | Some t \<Rightarrow> t < now - PENDING_TTL)
         (\<lambda>u. u\<lparr>u_totp_pending_secret := None, u_totp_pending_at := None\<rparr>))"

section \<open>The shape of recovery codes\<close>

lemma hexdigit_visible: "is_ascii_hexdigit c \<Longrightarrow> visible_ascii c \<and> (of_char c :: nat) < 128 \<and> c \<noteq> CHR ''-''"
  by (auto simp: is_ascii_hexdigit_def visible_ascii_def Let_def)

lemma ascii_lower_hyphen: "ascii_lower c = CHR ''-'' \<longleftrightarrow> c = CHR ''-''"
proof
  assume l: "ascii_lower c = CHR ''-''"
  show "c = CHR ''-''"
  proof (cases "65 \<le> (of_char c :: nat) \<and> (of_char c :: nat) \<le> 90")
    case True
    with l have "char_of ((of_char c :: nat) + 32) = CHR ''-''" by (simp add: ascii_lower_def)
    then have "(of_char (char_of ((of_char c :: nat) + 32)) :: nat) = 45" by simp
    with True show ?thesis by simp
  qed (use l in \<open>auto simp: ascii_lower_def Let_def split: if_splits\<close>)
qed (simp add: ascii_lower_def)

lemma of_ascii_lower:
  "(of_char (ascii_lower c) :: nat) =
     (if 65 \<le> (of_char c :: nat) \<and> (of_char c :: nat) \<le> 90 then of_char c + 32 else of_char c)"
  by (simp add: ascii_lower_def Let_def)

lemma hexdigit_lower [simp]: "is_ascii_hexdigit (ascii_lower c) \<longleftrightarrow> is_ascii_hexdigit c"
  by (auto simp: is_ascii_hexdigit_def of_ascii_lower Let_def)

lemma visible_lower [simp]: "visible_ascii (ascii_lower c) \<longleftrightarrow> visible_ascii c"
  by (auto simp: visible_ascii_def of_ascii_lower)

lemma split_on_lower: "split_on CHR ''-'' (map ascii_lower s) = map (map ascii_lower) (split_on CHR ''-'' s)"
  by (induction s) (auto simp: ascii_lower_hyphen split: list.splits)

text \<open>What \<open>hyphenated\<close> makes of twenty hexadecimal digits.\<close>

lemma hyphenated_hex:
  assumes "length hex = 20" and "\<forall>c\<in>set hex. is_ascii_hexdigit c"
  shows "hyphenated hex = Ok (take 5 hex @ ''-'' @ take 5 (drop 5 hex) @ ''-'' @ take 5 (drop 10 hex) @ ''-'' @
      take 5 (drop 15 hex))"
  using assms by (simp add: hyphenated_def str_slice_ascii hexdigit_visible)

lemma hyphenated_shape:
  assumes "hyphenated hex = Ok c" and "length hex = 20" and "\<forall>x\<in>set hex. is_ascii_hexdigit x \<and> ascii_lower x = x"
  shows "length c = 23" and "\<forall>x\<in>set c. visible_ascii x \<and> ascii_lower x = x"
    and "map length (split_on CHR ''-'' c) = [5, 5, 5, 5]"
    and "list_all (list_all is_ascii_hexdigit) (split_on CHR ''-'' c)"
proof -
  let ?g = "\<lambda>n. take 5 (drop n hex)"
  have c: "c = ?g 0 @ CHR ''-'' # ?g 5 @ CHR ''-'' # ?g 10 @ CHR ''-'' # ?g 15"
    using assms by (simp add: hyphenated_hex)
  have digits: "\<forall>x\<in>set (?g n). is_ascii_hexdigit x \<and> ascii_lower x = x" for n
    using assms(3) by (meson in_set_dropD in_set_takeD)
  have no_sep: "CHR ''-'' \<notin> set (?g n)" for n
    using digits [of n] hexdigit_visible by blast
  have split: "split_on CHR ''-'' c = [?g 0, ?g 5, ?g 10, ?g 15]"
    unfolding c by (simp only: split_on_append [OF no_sep] split_on_no_sep [OF no_sep])
  show "length c = 23" using assms(2) by (simp add: c)
  have "visible_ascii CHR ''-'' \<and> ascii_lower CHR ''-'' = CHR ''-''"
    by (simp add: visible_ascii_def ascii_lower_def)
  then show "\<forall>x\<in>set c. visible_ascii x \<and> ascii_lower x = x"
    using digits digits [of 0] hexdigit_visible unfolding c by auto
  show "map length (split_on CHR ''-'' c) = [5, 5, 5, 5]" using assms(2) by (simp add: split)
  show "list_all (list_all is_ascii_hexdigit) (split_on CHR ''-'' c)"
    using digits digits [of 0] by (simp add: split list_all_iff)
qed

lemma as_chunks_whole:
  assumes "length xs = m * n" and "0 < n"
  shows "length (as_chunks n xs) = m \<and> (\<forall>c\<in>set (as_chunks n xs). length c = n)"
  using assms
proof (induction m arbitrary: xs)
  case 0
  then show ?case by (simp add: as_chunks.simps)
next
  case (Suc m)
  from Suc.IH [of "drop n xs"] Suc.prems show ?case by (simp add: as_chunks.simps [of n xs])
qed

lemma collect_results_Ok_iff: "collect_results rs = Ok as \<longleftrightarrow> rs = map Ok as"
  by (induction rs arbitrary: as) (auto simp: res_bind_Ok_iff)

definition recovery_code :: "string \<Rightarrow> bool" where
  "recovery_code c \<longleftrightarrow>
     length c = 23 \<and> (\<forall>x\<in>set c. visible_ascii x \<and> ascii_lower x = x) \<and>
     map length (split_on CHR ''-'' c) = [5, 5, 5, 5] \<and> list_all (list_all is_ascii_hexdigit) (split_on CHR ''-'' c)"

text \<open>A batch of codes: as many as asked for, each of the advertised form, and no panic.\<close>

lemma generate_recovery_codes_ok:
  assumes "hex_laws L" and "getrandom_laws L" and "getrandom L i (n * 10) = Inr bs" and "n * 10 < 2 ^ 63"
  shows "\<exists>codes. generate_recovery_codes L i n = Ok codes \<and> length codes = n \<and> (\<forall>c\<in>set codes. recovery_code c)"
proof -
  let ?hex = "\<lambda>chunk. hex_encode L chunk"
  let ?chunks = "as_chunks 10 bs"
  have chunks: "length ?chunks = n" "\<forall>c\<in>set ?chunks. length c = 10"
    using as_chunks_whole [of bs n 10] getrandom_laws.getrandom_length [OF assms(2,3)] by simp_all
  have hex: "length (?hex c) = 20" "\<forall>x\<in>set (?hex c). is_ascii_hexdigit x \<and> ascii_lower x = x"
    if "c \<in> set ?chunks" for c
    using that chunks hex_laws.hex_length [OF assms(1)] hex_laws.hex_digits [OF assms(1)] by auto
  define code where "code c = (case hyphenated (?hex c) :: (dpop_error, string) res of Ok s \<Rightarrow> s | _ \<Rightarrow> [])" for c
  have ok: "hyphenated (?hex c) = (Ok (code c) :: (dpop_error, string) res)" if "c \<in> set ?chunks" for c
    using hex [OF that] by (simp add: code_def hyphenated_hex)
  have "recovery_code (code c)" if "c \<in> set ?chunks" for c
    using hyphenated_shape [OF ok [OF that] hex(1) [OF that] hex(2) [OF that]] by (simp add: recovery_code_def)
  moreover have "map (\<lambda>c. hyphenated (?hex c)) ?chunks = map (Ok :: string \<Rightarrow> (dpop_error, string) res) (map code ?chunks)"
    using ok by (simp add: comp_def)
  then have "generate_recovery_codes L i n = Ok (map code ?chunks)"
    using assms(3,4) by (simp add: generate_recovery_codes_def collect_results_Ok_iff)
  ultimately show ?thesis using chunks by auto
qed

text \<open>A code typed back in any letter case and with blanks around it.\<close>

lemma typed_code:
  assumes "recovery_code c" and "map ascii_lower s = c" and "set a \<subseteq> {CHR '' ''}" and "set b \<subseteq> {CHR '' ''}"
  shows "trim (a @ s @ b) = s" and "is_recovery_code (a @ s @ b)"
proof -
  have "\<forall>x\<in>set s. visible_ascii x" "s \<noteq> []"
    using assms(1,2) by (auto simp: recovery_code_def)
  then show t: "trim (a @ s @ b) = s" using assms(3,4) by (intro trim_padded)
  have "map length (split_on CHR ''-'' s) = [5, 5, 5, 5]"
    "list_all (list_all is_ascii_hexdigit) (split_on CHR ''-'' s)" "length s = 23"
    using assms(1) unfolding recovery_code_def assms(2) [symmetric] split_on_lower
    by (simp_all add: comp_def list_all_iff)
  moreover from this(1) have "length (split_on CHR ''-'' s) = 4"
    using arg_cong [of _ _ length] by fastforce
  moreover have "\<forall>g\<in>set (split_on CHR ''-'' s). length g = 5"
    using calculation(1) by (metis (no_types, lifting) empty_iff empty_set imageI insert_iff list.set_map list.simps(15))
  ultimately show "is_recovery_code (a @ s @ b)"
    by (simp add: is_recovery_code_def t Let_def list_all_iff)
qed

text \<open>Recovery codes survive being typed back. Asked for \<open>n\<close> codes, the generator returns \<open>n\<close>
  strings of the advertised form, and each of them, typed in any mixture of upper and lower case
  and with blanks before or after it, is recognised as a recovery code and has the hash under
  which the code was stored.\<close>

theorem recovery_code_round_trip:
  assumes "hex_laws L" and "getrandom_laws L" and "lowercase_laws L"
    and "getrandom L i (n * 10) = Inr bs" and "n * 10 < 2 ^ 63"
  shows "\<exists>codes. generate_recovery_codes L i n = Ok codes \<and> length codes = n \<and>
    (\<forall>c\<in>set codes. length c = 23 \<and>
       (\<forall>s a b. map ascii_lower s = c \<longrightarrow> set a \<subseteq> {CHR '' ''} \<longrightarrow> set b \<subseteq> {CHR '' ''} \<longrightarrow>
          is_recovery_code (a @ s @ b) \<and> hash_recovery_code L (a @ s @ b) = hash_recovery_code L c))"
proof -
  obtain codes where codes: "generate_recovery_codes L i n = Ok codes" "length codes = n" "\<forall>c\<in>set codes. recovery_code c"
    using generate_recovery_codes_ok [OF assms(1,2,4,5)] by blast
  have hash: "hash_recovery_code L (a @ s @ b) = hash_token L c"
    if "recovery_code c" "map ascii_lower s = c" "set a \<subseteq> {CHR '' ''}" "set b \<subseteq> {CHR '' ''}" for c s a b
  proof -
    have "\<forall>x\<in>set s. visible_ascii x" using that(1,2) by (auto simp: recovery_code_def)
    then have "is_ascii s" by (simp add: is_ascii_def visible_ascii_def)
    then show ?thesis
      using typed_code(1) [OF that] that(2) lowercase_laws.lower_ascii [OF assms(3)]
      by (simp add: hash_recovery_code_def)
  qed
  have "map ascii_lower c = c" if "recovery_code c" for c
    using that by (simp add: recovery_code_def map_idI)
  then have "hash_recovery_code L c = hash_token L c" if "recovery_code c" for c
    using hash [of c c "[]" "[]"] that by simp
  with codes hash show ?thesis
    by (intro exI [of _ codes] conjI ballI allI impI) (simp_all add: recovery_code_def [THEN iffD1], blast intro: typed_code(2))
qed

lemma demo_codes: "generate_recovery_codes ref_lib 171 (Suc 0) = Ok [''ababa-babab-ababa-babab'']"
proof -
  have "(hyphenated (ref_hex_encode (replicate 10 (char_of (171 :: nat)))) :: (dpop_error, string) res) =
      Ok ''ababa-babab-ababa-babab''"
    by code_simp
  moreover have "as_chunks 10 (replicate 10 c) = [replicate 10 c]" for c :: char
    by (simp add: as_chunks.simps)
  ultimately show ?thesis by (simp add: generate_recovery_codes_def)
qed

theorem recovery_code_round_trip_witness:
  "is_recovery_code ''  ABABA-BABAB-ababa-babab '' \<and>
   hash_recovery_code ref_lib ''  ABABA-BABAB-ababa-babab '' = hash_recovery_code ref_lib ''ababa-babab-ababa-babab''"
proof -
  let ?s = "''ABABA-BABAB-ababa-babab''" and ?c = "''ababa-babab-ababa-babab''"
  have lower: "map ascii_lower ?s = ?c" by code_simp
  obtain codes where "generate_recovery_codes ref_lib 171 1 = Ok codes" and
    all: "\<forall>c\<in>set codes. length c = 23 \<and>
       (\<forall>s a b. map ascii_lower s = c \<longrightarrow> set a \<subseteq> {CHR '' ''} \<longrightarrow> set b \<subseteq> {CHR '' ''} \<longrightarrow>
          is_recovery_code (a @ s @ b) \<and> hash_recovery_code ref_lib (a @ s @ b) = hash_recovery_code ref_lib c)"
    using recovery_code_round_trip [OF ref_hex.hex_laws_axioms ref_getrandom.getrandom_laws_axioms
        ref_lowercase.lowercase_laws_axioms, of 171 1] by auto
  then have "?c \<in> set codes" by (auto simp: demo_codes)
  from all [rule_format, OF this, THEN conjunct2, rule_format, OF lower, of "''  ''" "'' ''"]
  show ?thesis by simp
qed

end
