(* ===== verification/Totp_Service.thy ===== *)
theory Totp_Service
  imports Auth_Service Totp
begin

text \<open>
  \<open>service/totp.rs\<close>: enrolment in a second factor, its confirmation, the check of a code and the end
  of the enrolment. The operations are actions on the \<open>world\<close>, like those of \<open>service/auth.rs\<close>.
\<close>

section \<open>Operations\<close>

datatype second_factor_kind = Totp | RecoveryCode

datatype totp_check_outcome = Valid | Invalid | Replayed

text \<open>\<open>entry_by_ref(\<dots>).or_insert(())\<close> on the replay cache, with the answer of \<open>is_fresh\<close>.\<close>

definition replay_claim :: "'r replay_ops \<Rightarrow> instant \<Rightarrow> uuid \<times> string \<Rightarrow> ('g, 'r, 'e, bool) sact" where
  "replay_claim R now key w =
     (case cache_or_insert R now key () (totp_replay_cache w) of
        (fresh, c) \<Rightarrow> (Ok fresh, w\<lparr>totp_replay_cache := c\<rparr>))"

definition verify_totp_once ::
    "lib \<Rightarrow> 'r replay_ops \<Rightarrow> instant \<Rightarrow> uuid \<Rightarrow> string \<Rightarrow> string \<Rightarrow> ('g, 'r, service_error, totp_check_outcome) sact" where
  "verify_totp_once L R now user_id secret code =
     (if \<not> verify_code L now secret code then act_return Invalid
      else
        act_bind (replay_claim R now (user_id, trim code)) (\<lambda>fresh.
        act_return (if fresh then Valid else Replayed)))"

text \<open>The connection and the user that every operation starts with.\<close>

definition existing_user :: "lib \<Rightarrow> uuid \<Rightarrow> ('g, 'r, service_error, user_row) sact" where
  "existing_user L user_id =
     act_bind (act_map_err service_from_sqlx (acquire L)) (\<lambda>_.
     act_bind (act_map_err service_from_sqlx (find_user_by_id L user_id)) (\<lambda>found.
     act_lift (ok_or Unauthorized found)))"

definition internal_text :: "dpop_error \<Rightarrow> service_error" where
  "internal_text e = ServiceInternal (dpop_error_to_string e)"

definition setup_2fa ::
    "lib \<Rightarrow> instant \<Rightarrow> uuid \<Rightarrow> string \<Rightarrow> string \<Rightarrow> ('g, 'r, service_error, totp_setup) sact" where
  "setup_2fa L now user_id issuer_name account_name =
     act_bind (existing_user L user_id) (\<lambda>user.
     if u_totp_enabled user then act_fail (Conflict ''2FA already enabled'')
     else
     act_bind (act_map_err service_from_sqlx (get_pending_totp_secret L (int now) user_id)) (\<lambda>existing.
     case existing of
       Some existing \<Rightarrow> act_lift (map_err internal_text (setup_from_secret L existing issuer_name account_name))
     | None \<Rightarrow>
         act_bind (act_map_err internal_text (draw (\<lambda>i. generate_setup L i issuer_name account_name))) (\<lambda>setup.
         act_bind (act_map_err service_from_sqlx
            (set_pending_totp_secret L (int now) user_id (secret_base32 setup))) (\<lambda>_.
         act_return setup))))"

definition confirm_tx ::
    "lib \<Rightarrow> instant \<Rightarrow> uuid \<Rightarrow> string list \<Rightarrow> ('g, 'r, service_error, unit) sact" where
  "confirm_tx L now user_id hashes =
     act_bind (act_map_err service_from_sqlx (activate_totp L (int now) user_id)) (\<lambda>_.
     act_bind (act_map_err service_from_sqlx (invalidate_recovery_codes_for_user L (int now) user_id)) (\<lambda>_.
     act_bind (act_map_err service_from_sqlx (create_recovery_codes L (int now) user_id hashes)) (\<lambda>_.
     act_map_err service_from_sqlx (commit L))))"

definition confirm_2fa :: "lib \<Rightarrow> instant \<Rightarrow> uuid \<Rightarrow> string \<Rightarrow> ('g, 'r, service_error, string list) sact" where
  "confirm_2fa L now user_id code =
     act_bind (existing_user L user_id) (\<lambda>user.
     if u_totp_enabled user then act_fail (Conflict ''2FA already enabled'')
     else
     act_bind (act_map_err service_from_sqlx (get_pending_totp_secret L (int now) user_id)) (\<lambda>pending.
     case pending of
       None \<Rightarrow> act_fail (Conflict ''setup expired, run setup_2fa again'')
     | Some secret \<Rightarrow>
         if \<not> verify_code L now secret code then act_fail Unauthorized
         else
         act_bind (act_map_err internal_text (draw (\<lambda>i. generate_recovery_codes L i 10))) (\<lambda>recovery_codes.
         let hashes = map (hash_recovery_code L) recovery_codes in
         act_bind (with_tx L (confirm_tx L now (u_id user) hashes)) (\<lambda>_.
         act_return recovery_codes))))"

definition verify_2fa_code ::
    "lib \<Rightarrow> 'r replay_ops \<Rightarrow> instant \<Rightarrow> uuid \<Rightarrow> string \<Rightarrow> ('g, 'r, service_error, second_factor_kind) sact" where
  "verify_2fa_code L R now user_id code =
     act_bind (existing_user L user_id) (\<lambda>user.
     if \<not> u_totp_enabled user then act_fail (Conflict ''2FA is not enabled'')
     else if is_recovery_code code then
       let hash = hash_recovery_code L code in
       act_bind (act_map_err service_from_sqlx (consume_recovery_code L (int now) (u_id user) hash)) (\<lambda>consumed.
       if consumed \<noteq> None then act_return RecoveryCode else act_fail Unauthorized)
     else
       act_bind (act_lift (ok_or Unauthorized (u_totp_secret user))) (\<lambda>secret.
       act_bind (verify_totp_once L R now (u_id user) secret code) (\<lambda>check.
       case check of
         Valid \<Rightarrow> act_return Totp
       | Invalid \<Rightarrow> act_fail Unauthorized
       | Replayed \<Rightarrow> act_fail Unauthorized)))"

definition disable_tx :: "lib \<Rightarrow> instant \<Rightarrow> uuid \<Rightarrow> ('g, 'r, service_error, unit) sact" where
  "disable_tx L now user_id =
     act_bind (act_map_err service_from_sqlx (disable_totp L (int now) user_id)) (\<lambda>_.
     act_bind (act_map_err service_from_sqlx (invalidate_recovery_codes_for_user L (int now) user_id)) (\<lambda>_.
     act_map_err service_from_sqlx (commit L)))"

definition disable_2fa ::
    "lib \<Rightarrow> 'r replay_ops \<Rightarrow> instant \<Rightarrow> uuid \<Rightarrow> string \<Rightarrow> ('g, 'r, service_error, unit) sact" where
  "disable_2fa L R now user_id code =
     act_bind (existing_user L user_id) (\<lambda>user.
     if \<not> u_totp_enabled user then act_fail (Conflict ''2FA is not enabled'')
     else
     act_bind (verify_2fa_code L R now user_id code) (\<lambda>_.
     with_tx L (disable_tx L now (u_id user))))"

text \<open>One tick of the worker that purges abandoned drafts; it ticks every \<open>CLEANUP_INTERVAL\<close>, and a
  failure is only logged.\<close>

definition CLEANUP_INTERVAL :: duration where
  "CLEANUP_INTERVAL = from_secs 600"

definition totp_cleanup_tick :: "lib \<Rightarrow> instant \<Rightarrow> ('g, 'r, 'e, unit) sact" where
  "totp_cleanup_tick L now =
     act_ok (act_bind (acquire L) (\<lambda>_. cleanup_expired_drafts L (int now)))"

section \<open>What the operations do\<close>

text \<open>The state of an operation between two statements: no transaction, the tables and the replay
  cache as given.\<close>

definition idle :: "nat \<Rightarrow> tables \<Rightarrow> 'r \<Rightarrow> ('g, 'r) world \<Rightarrow> bool" where
  "idle n D c w \<longleftrightarrow> tx w = Auto \<and> n \<le> w_draws w \<and> db w = D \<and> totp_replay_cache w = c"

lemma idleI: "tx w = Auto \<Longrightarrow> idle (w_draws w) (db w) (totp_replay_cache w) w"
  by (simp add: idle_def)

text \<open>An error that is not a panic.\<close>

definition failed :: "(('g, 'r) world \<Rightarrow> bool) \<Rightarrow> 'e option \<Rightarrow> ('g, 'r) world \<Rightarrow> bool" where
  "failed P e w \<longleftrightarrow> e \<noteq> None \<and> P w"

definition user_of :: "uuid \<Rightarrow> tables \<Rightarrow> user_row option" where
  "user_of user_id D = find (\<lambda>u. u_id u = user_id \<and> u_deleted_at u = None) (users D)"

definition draft_of :: "timestamp \<Rightarrow> uuid \<Rightarrow> tables \<Rightarrow> string option" where
  "draft_of now user_id D = Option.bind (find (live_draft now user_id) (users D)) u_totp_pending_secret"

lemma user_of_Some: "user_of user_id D = Some user \<Longrightarrow> user \<in> set (users D) \<and> u_id user = user_id \<and> u_deleted_at user = None"
  by (auto simp: user_of_def dest: find_SomeD)

lemma existing_user_valid:
  "act_valid (idle n D c) (existing_user L user_id)
     (\<lambda>user w. idle n D c w \<and> user_of user_id D = Some user) (failed (idle n D c))"
  unfolding existing_user_def
proof (intro act_valid_bind act_valid_map_err)
  show "act_valid (idle n D c) (acquire L) (\<lambda>_. idle n D c) (\<lambda>e. failed (idle n D c) (map_option service_from_sqlx e))"
    unfolding acquire_def db_read_def by (rule db_query_valid) (auto simp: idle_def failed_def)
  show "act_valid (idle n D c) (find_user_by_id L user_id) (\<lambda>found w. idle n D c w \<and> user_of user_id D = found)
      (\<lambda>e. failed (idle n D c) (map_option service_from_sqlx e))"
    unfolding find_user_by_id_def db_read_def by (rule db_query_valid) (auto simp: idle_def failed_def user_of_def)
  show "act_valid (\<lambda>w. idle n D c w \<and> user_of user_id D = found) (act_lift (ok_or Unauthorized found))
      (\<lambda>user w. idle n D c w \<and> user_of user_id D = Some user) (failed (idle n D c))" for found
    by (rule act_valid_lift) (auto simp: failed_def)
qed

text \<open>How a verification can end.\<close>

definition verified ::
    "lib \<Rightarrow> 'r replay_ops \<Rightarrow> instant \<Rightarrow> uuid \<Rightarrow> string \<Rightarrow> tables \<Rightarrow> 'r \<Rightarrow> second_factor_kind \<Rightarrow> tables \<Rightarrow> 'r \<Rightarrow> bool" where
  "verified L R now user_id code D c kind D' c' \<longleftrightarrow>
     (\<exists>user. user_of user_id D = Some user \<and> u_totp_enabled user \<and>
        (case kind of
           RecoveryCode \<Rightarrow> is_recovery_code code \<and> c' = c \<and>
             (\<exists>row\<in>set (recovery_codes D). unused row \<and> c_user_id row = user_id \<and>
                c_code_hash row = hash_recovery_code L code) \<and>
             D' = use_codes (int now) (\<lambda>r. c_user_id r = user_id \<and> c_code_hash r = hash_recovery_code L code) D
         | Totp \<Rightarrow> \<not> is_recovery_code code \<and> D' = D \<and>
             (\<exists>secret. u_totp_secret user = Some secret \<and> verify_code L now secret code) \<and>
             cache_or_insert R now (user_id, trim code) () c = (True, c')))"

definition rejected :: "'r replay_ops \<Rightarrow> instant \<Rightarrow> uuid \<Rightarrow> string \<Rightarrow> 'r \<Rightarrow> 'r \<Rightarrow> bool" where
  "rejected R now user_id code c c' \<longleftrightarrow> c' = c \<or> cache_or_insert R now (user_id, trim code) () c = (False, c')"

lemma use_codes_none:
  assumes "\<And>c. c \<in> set (recovery_codes D) \<Longrightarrow> P c \<Longrightarrow> \<not> unused c"
  shows "use_codes now P D = D"
proof -
  have "update_where (\<lambda>c. P c \<and> c_used_at c = None) f (recovery_codes D) = recovery_codes D" for f
    using assms by (intro update_where_none) (auto simp: unused_def)
  then show ?thesis by (simp add: use_codes_def)
qed

lemma consume_valid:
  "act_valid (idle n D c) (consume_recovery_code L now user_id h)
     (\<lambda>found w. \<exists>D'. idle n D' c w \<and>
        (if found = None then D' = D
         else (\<exists>row\<in>set (recovery_codes D). unused row \<and> c_user_id row = user_id \<and> c_code_hash row = h) \<and>
              D' = use_codes now (\<lambda>r. c_user_id r = user_id \<and> c_code_hash r = h) D))
     (\<lambda>e. failed (idle n D c) (map_option service_from_sqlx e))"
  unfolding consume_recovery_code_def
proof (rule db_query_valid)
  fix w :: "('a, 'b) world" and a d k
  let ?P = "\<lambda>r. (c_user_id r = user_id \<and> c_code_hash r = h) \<and> c_used_at r = None"
  let ?U = "use_codes now (\<lambda>r. c_user_id r = user_id \<and> c_code_hash r = h) D"
  assume w: "idle n D c w" and
    st: "Ok (map_option c_id (find ?P (recovery_codes (db w))),
             use_codes now (\<lambda>c. c_user_id c = user_id \<and> c_code_hash c = h) (db w), pg_draws w) = Ok (a, d, k)"
  have db: "db w = D" using w by (simp add: idle_def)
  have "idle n d c (w\<lparr>calls := calls w + 1, db := d, pg_draws := k\<rparr>)" using w by (simp add: idle_def)
  moreover have "if a = None then d = D
     else (\<exists>row\<in>set (recovery_codes D). unused row \<and> c_user_id row = user_id \<and> c_code_hash row = h) \<and> d = ?U"
  proof (cases "find ?P (recovery_codes D)")
    case None
    then have "?U = D" by (intro use_codes_none) (auto simp: find_None_iff unused_def)
    with None st show ?thesis by (simp add: db)
  next
    case (Some row)
    with find_SomeD [OF Some] st show ?thesis by (auto simp: db unused_def)
  qed
  ultimately show "\<exists>D'. idle n D' c (w\<lparr>calls := calls w + 1, db := d, pg_draws := k\<rparr>) \<and>
        (if a = None then D' = D
         else (\<exists>row\<in>set (recovery_codes D). unused row \<and> c_user_id row = user_id \<and> c_code_hash row = h) \<and> D' = ?U)"
    by blast
qed (auto simp: idle_def failed_def)

lemma verify_2fa_code_valid:
  "act_valid (idle n D c) (verify_2fa_code L R now user_id code)
     (\<lambda>kind w. \<exists>D' c'. idle n D' c' w \<and> verified L R now user_id code D c kind D' c')
     (failed (\<lambda>w. \<exists>c'. idle n D c' w \<and> rejected R now user_id code c c'))"
  (is "act_valid ?P _ ?Q ?E")
proof -
  have weak: "failed (idle n D c) e w \<Longrightarrow> ?E e w" for e :: "service_error option" and w :: "('a, 'b) world"
    by (auto simp: failed_def rejected_def)
  have fail: "act_valid ?P (act_fail e) ?Q ?E" for e
    by (rule act_valid_fail) (auto simp: failed_def rejected_def)
  have code: "act_valid ?P
       (act_bind (act_map_err service_from_sqlx (consume_recovery_code L (int now) (u_id user) (hash_recovery_code L code)))
          (\<lambda>consumed. if consumed \<noteq> None then act_return RecoveryCode else act_fail Unauthorized)) ?Q ?E"
    if u: "user_of user_id D = Some user" "u_totp_enabled user" "is_recovery_code code" for user
  proof (rule act_valid_bind)
    let ?h = "hash_recovery_code L code"
    let ?C = "\<lambda>consumed w. \<exists>D'. idle n D' c w \<and>
        (if consumed = None then D' = D
         else (\<exists>row\<in>set (recovery_codes D). unused row \<and> c_user_id row = user_id \<and> c_code_hash row = ?h) \<and>
              D' = use_codes (int now) (\<lambda>r. c_user_id r = user_id \<and> c_code_hash r = ?h) D)"
    show "act_valid ?P (act_map_err service_from_sqlx (consume_recovery_code L (int now) (u_id user) ?h)) ?C ?E"
      using user_of_Some [OF u(1)]
      by (intro act_valid_map_err act_valid_weaken [OF consume_valid]) (auto simp: failed_def rejected_def)
    show "act_valid (?C consumed) (if consumed \<noteq> None then act_return RecoveryCode else act_fail Unauthorized) ?Q ?E" for consumed
      using u by (auto simp: act_valid_outcome verified_def failed_def rejected_def)
  qed
  have totp: "act_valid ?P
       (act_bind (act_lift (ok_or Unauthorized (u_totp_secret user))) (\<lambda>secret.
        act_bind (verify_totp_once L R now (u_id user) secret code) (\<lambda>check.
        case check of Valid \<Rightarrow> act_return Totp | Invalid \<Rightarrow> act_fail Unauthorized | Replayed \<Rightarrow> act_fail Unauthorized))) ?Q ?E"
    if u: "user_of user_id D = Some user" "u_totp_enabled user" "\<not> is_recovery_code code" for user
    using u user_of_Some [OF u(1)]
    by (auto simp: act_valid_outcome act_bind_def verify_totp_once_def replay_claim_def verified_def failed_def
        rejected_def idle_def split: prod.splits res.splits option.splits)
  have rest: "act_valid ?P (if \<not> u_totp_enabled user then act_fail (Conflict ''2FA is not enabled'')
     else if is_recovery_code code then
       let hash = hash_recovery_code L code in
       act_bind (act_map_err service_from_sqlx (consume_recovery_code L (int now) (u_id user) hash)) (\<lambda>consumed.
       if consumed \<noteq> None then act_return RecoveryCode else act_fail Unauthorized)
     else
       act_bind (act_lift (ok_or Unauthorized (u_totp_secret user))) (\<lambda>secret.
       act_bind (verify_totp_once L R now (u_id user) secret code) (\<lambda>check.
       case check of Valid \<Rightarrow> act_return Totp | Invalid \<Rightarrow> act_fail Unauthorized | Replayed \<Rightarrow> act_fail Unauthorized))) ?Q ?E"
    if "user_of user_id D = Some user" for user
    using that fail code totp by (simp add: Let_def)
  show ?thesis
    unfolding verify_2fa_code_def
    by (rule act_valid_bind [OF act_valid_weaken [OF existing_user_valid]], assumption, assumption, erule weak,
        rule act_valid_when, rule rest)
qed

text \<open>Inside a transaction that started from \<open>D\<close>, with the tables \<open>D'\<close> so far.\<close>

definition in_txn :: "nat \<Rightarrow> tables \<Rightarrow> 'r \<Rightarrow> tables \<Rightarrow> ('g, 'r) world \<Rightarrow> bool" where
  "in_txn n D c D' w \<longleftrightarrow> tx w = InTx D False \<and> n \<le> w_draws w \<and> totp_replay_cache w = c \<and> db w = D'"

definition rolled_back :: "nat \<Rightarrow> tables \<Rightarrow> 'r \<Rightarrow> 'e option \<Rightarrow> ('g, 'r) world \<Rightarrow> bool" where
  "rolled_back n D c e w \<longleftrightarrow> failed (\<lambda>w. idle n D c (drop_tx w)) e w"

lemma txn_query:
  assumes "\<And>d k. stmt d k \<noteq> Panic" and "\<And>k a d j. stmt D' k = Ok (a, d, j) \<Longrightarrow> Q a d"
  shows "act_valid (in_txn n D c D') (act_map_err service_from_sqlx (db_query L texts stmt))
    (\<lambda>a w. \<exists>d. Q a d \<and> in_txn n D c d w) (rolled_back n D c)"
  using assms(2)
  by (intro act_valid_map_err db_query_valid assms(1))
    (fastforce simp: in_txn_def rolled_back_def failed_def idle_def drop_tx_def)+

lemma txn_exec:
  "act_valid (in_txn n D c D') (act_map_err service_from_sqlx (db_exec L texts f))
    (\<lambda>_. in_txn n D c (f D')) (rolled_back n D c)"
  unfolding db_exec_def
  by (rule act_valid_weaken [OF txn_query [where Q = "\<lambda>a d. d = f D'"]]) auto

lemma txn_commit:
  "act_valid (in_txn n D c D') (act_map_err service_from_sqlx (commit L))
    (\<lambda>_ w. idle n D' c (drop_tx w)) (rolled_back n D c)"
  by (rule act_valid_map_err)
    (auto simp: act_valid_outcome commit_def in_txn_def idle_def rolled_back_def failed_def drop_tx_def Let_def
      split: option.splits)

lemma with_tx_idle:
  assumes "act_valid (in_txn n D c D) body (\<lambda>a w. \<exists>D'. Q a D' \<and> idle n D' c (drop_tx w)) (rolled_back n D c)"
  shows "act_valid (idle n D c) (with_tx L body) (\<lambda>a w. \<exists>D'. Q a D' \<and> idle n D' c w) (failed (idle n D c))"
proof -
  have "act_valid (\<lambda>w. (n \<le> w_draws w \<and> totp_replay_cache w = c) \<and> tx w = Auto \<and> db w = D) (with_tx L body)
      (\<lambda>a w. \<exists>D'. Q a D' \<and> idle n D' c w) (failed (idle n D c))"
  proof (rule with_tx_valid)
    show "act_valid (\<lambda>w. (n \<le> w_draws w \<and> totp_replay_cache w = c) \<and> tx w = InTx D False \<and> db w = D) body
        (\<lambda>a w. \<exists>D'. Q a D' \<and> idle n D' c (drop_tx w)) (\<lambda>e w. failed (idle n D c) e (drop_tx w))"
      by (rule act_valid_weaken [OF assms]) (auto simp: in_txn_def rolled_back_def failed_def)
  qed (auto simp: failed_def idle_def)
  then show ?thesis by (rule act_valid_weaken) (auto simp: idle_def)
qed

text \<open>The tables after a confirmation: the draft is the secret, the codes of an earlier enrolment
  are void, and the new codes are stored as their hashes.\<close>

definition enrolled :: "lib \<Rightarrow> timestamp \<Rightarrow> uuid \<Rightarrow> nat \<Rightarrow> string list \<Rightarrow> tables \<Rightarrow> tables" where
  "enrolled L now user_id m codes D =
     (let D1 = use_codes now (\<lambda>c. c_user_id c = user_id) (update_users now (drafted user_id) (promote_draft now) D)
      in D1\<lparr>recovery_codes := recovery_codes D1 @ new_code_rows L now m user_id (map (hash_recovery_code L) codes)\<rparr>)"

definition confirmed :: "lib \<Rightarrow> instant \<Rightarrow> uuid \<Rightarrow> string \<Rightarrow> tables \<Rightarrow> string list \<Rightarrow> tables \<Rightarrow> bool" where
  "confirmed L now user_id code D codes D' \<longleftrightarrow>
     (\<exists>user secret i m. user_of user_id D = Some user \<and> \<not> u_totp_enabled user \<and>
        draft_of (int now) user_id D = Some secret \<and> verify_code L now secret code \<and>
        generate_recovery_codes L i 10 = Ok codes \<and> D' = enrolled L (int now) user_id m codes D)"

lemma confirm_tx_valid:
  "act_valid (in_txn n D c D) (confirm_tx L now user_id (map (hash_recovery_code L) codes))
     (\<lambda>_ w. \<exists>D'. (\<exists>m. D' = enrolled L (int now) user_id m codes D) \<and> idle n D' c (drop_tx w)) (rolled_back n D c)"
proof -
  let ?t = "int now"
  let ?hs = "map (hash_recovery_code L) codes"
  let ?D1 = "update_users ?t (drafted user_id) (promote_draft ?t) D"
  let ?D2 = "use_codes ?t (\<lambda>c. c_user_id c = user_id) ?D1"
  let ?D3 = "\<lambda>m. ?D2\<lparr>recovery_codes := recovery_codes ?D2 @ new_code_rows L ?t m user_id ?hs\<rparr>"
  have activate: "act_valid (in_txn n D c D) (act_map_err service_from_sqlx (activate_totp L ?t user_id))
      (\<lambda>_. in_txn n D c ?D1) (rolled_back n D c)"
    unfolding activate_totp_def
    by (rule act_valid_weaken [OF txn_query [where Q = "\<lambda>a d. d = ?D1"]]) (auto split: if_splits)
  have create: "act_valid (in_txn n D c ?D2) (act_map_err service_from_sqlx (create_recovery_codes L ?t user_id ?hs))
      (\<lambda>_ w. \<exists>m. in_txn n D c (?D3 m) w) (rolled_back n D c)"
  proof (cases "?hs = []")
    case True
    then show ?thesis
      by (auto simp: create_recovery_codes_def act_valid_outcome act_map_err_def new_code_rows_def)
  next
    case False
    have "act_valid (in_txn n D c ?D2) (act_map_err service_from_sqlx (create_recovery_codes L ?t user_id ?hs))
      (\<lambda>a w. \<exists>d. (\<exists>m. d = ?D3 m) \<and> in_txn n D c d w) (rolled_back n D c)"
      unfolding create_recovery_codes_def if_not_P [OF False] Let_def
      by (rule txn_query) (auto split: if_splits)
    then show ?thesis by (rule act_valid_weaken) auto
  qed
  have fin: "act_valid (\<lambda>w. \<exists>m. in_txn n D c (?D3 m) w) (act_map_err service_from_sqlx (commit L))
      (\<lambda>_ w. \<exists>D'. (\<exists>m. D' = enrolled L ?t user_id m codes D) \<and> idle n D' c (drop_tx w)) (rolled_back n D c)"
    by (rule act_valid_ex, rule act_valid_weaken [OF txn_commit]) (auto simp: enrolled_def Let_def)
  show ?thesis
    unfolding confirm_tx_def invalidate_recovery_codes_for_user_def
    by (rule act_valid_bind [OF activate], rule act_valid_bind [OF txn_exec], rule act_valid_bind [OF create], rule fin)
qed

lemma confirm_2fa_valid:
  "act_valid (idle n D c) (confirm_2fa L now user_id code)
     (\<lambda>codes w. \<exists>D'. confirmed L now user_id code D codes D' \<and> idle n D' c w)
     (\<lambda>_. idle n D c)" (is "act_valid ?P _ ?Q ?E")
proof -
  have pending: "act_valid ?P (act_map_err service_from_sqlx (get_pending_totp_secret L (int now) user_id))
      (\<lambda>pending w. ?P w \<and> draft_of (int now) user_id D = pending) ?E"
    unfolding get_pending_totp_secret_def db_read_def
    by (rule act_valid_map_err, rule db_query_valid) (auto simp: idle_def draft_of_def)
  have draw: "act_valid ?P (act_map_err internal_text (draw (\<lambda>i. generate_recovery_codes L i 10)))
      (\<lambda>codes w. ?P w \<and> (\<exists>i. generate_recovery_codes L i 10 = Ok codes)) ?E"
    by (rule act_valid_map_err) (auto simp: act_valid_outcome draw_def idle_def split: res.splits)
  have tail: "act_valid ?P (act_bind (with_tx L (confirm_tx L now (u_id user) (map (hash_recovery_code L) codes)))
      (\<lambda>_. act_return codes)) ?Q ?E"
    if "user_of user_id D = Some user" "\<not> u_totp_enabled user" "draft_of (int now) user_id D = Some secret"
      "verify_code L now secret code" "\<exists>i. generate_recovery_codes L i 10 = Ok codes" for user secret codes
  proof (rule act_valid_bind)
    show "act_valid ?P (with_tx L (confirm_tx L now (u_id user) (map (hash_recovery_code L) codes)))
        (\<lambda>_ w. \<exists>D'. (\<exists>m. D' = enrolled L (int now) user_id m codes D) \<and> idle n D' c w) ?E"
      using user_of_Some [OF that(1)]
      by (intro act_valid_weaken [OF with_tx_idle [OF confirm_tx_valid]]) (auto simp: failed_def)
    show "act_valid (\<lambda>w. \<exists>D'. (\<exists>m. D' = enrolled L (int now) user_id m codes D) \<and> idle n D' c w) (act_return codes) ?Q ?E"
      using that by (intro act_valid_return) (auto simp: confirmed_def)
  qed
  have rest: "act_valid ?P
      (act_bind (act_map_err service_from_sqlx (get_pending_totp_secret L (int now) user_id)) (\<lambda>pending.
       case pending of
         None \<Rightarrow> act_fail (Conflict ''setup expired, run setup_2fa again'')
       | Some secret \<Rightarrow>
         if \<not> verify_code L now secret code then act_fail Unauthorized
         else
         act_bind (act_map_err internal_text (draw (\<lambda>i. generate_recovery_codes L i 10))) (\<lambda>codes.
         let hashes = map (hash_recovery_code L) codes in
         act_bind (with_tx L (confirm_tx L now (u_id user) hashes)) (\<lambda>_. act_return codes)))) ?Q ?E"
    if "user_of user_id D = Some user" "\<not> u_totp_enabled user" for user
    by (rule act_valid_bind [OF pending], rule act_valid_when)
      (auto simp: Let_def intro!: act_valid_fail act_valid_bind [OF draw] act_valid_when tail [OF that] split: option.splits)
  show ?thesis
    unfolding confirm_2fa_def
  proof (rule act_valid_bind)
    show "act_valid ?P (existing_user L user_id) (\<lambda>user w. ?P w \<and> user_of user_id D = Some user) ?E"
      by (rule act_valid_weaken [OF existing_user_valid]) (auto simp: failed_def)
  qed (rule act_valid_when, auto intro!: act_valid_fail rest)
qed

definition withdrawn :: "timestamp \<Rightarrow> uuid \<Rightarrow> tables \<Rightarrow> tables" where
  "withdrawn now user_id D =
     use_codes now (\<lambda>c. c_user_id c = user_id)
       (update_users now (\<lambda>u. u_id u = user_id \<and> u_totp_enabled u \<and> u_deleted_at u = None) clear_totp D)"

lemma disable_tx_valid:
  "act_valid (in_txn n D c D) (disable_tx L now user_id)
     (\<lambda>_ w. \<exists>D'. D' = withdrawn (int now) user_id D \<and> idle n D' c (drop_tx w)) (rolled_back n D c)"
  unfolding disable_tx_def disable_totp_def invalidate_recovery_codes_for_user_def
  by (rule act_valid_bind [OF txn_exec], rule act_valid_bind [OF txn_exec], rule act_valid_weaken [OF txn_commit])
    (auto simp: withdrawn_def)

lemma disable_2fa_valid:
  "act_valid (idle n D c) (disable_2fa L R now user_id code)
     (\<lambda>_ w. \<exists>kind D1 c'. verified L R now user_id code D c kind D1 c' \<and> idle n (withdrawn (int now) user_id D1) c' w)
     (failed (\<lambda>w. \<exists>D1 c'. idle n D1 c' w \<and>
        (D1 = D \<and> rejected R now user_id code c c' \<or> (\<exists>kind. verified L R now user_id code D c kind D1 c'))))"
  (is "act_valid ?P _ ?Q ?E")
proof -
  let ?V = "\<lambda>w. \<exists>D1 c'. idle n D1 c' w \<and> (\<exists>kind. verified L R now user_id code D c kind D1 c')"
  have user: "act_valid ?P (existing_user L user_id) (\<lambda>user w. ?P w \<and> user_of user_id D = Some user) ?E"
    by (rule act_valid_weaken [OF existing_user_valid]) (auto simp: failed_def rejected_def)
  have verify: "act_valid ?P (verify_2fa_code L R now user_id code) (\<lambda>_. ?V) ?E"
    by (rule act_valid_weaken [OF verify_2fa_code_valid]) (auto simp: failed_def)
  have fail_off: "?E (Some e) w" if "idle n D c w" for e and w :: "('a, 'b) world"
    unfolding failed_def rejected_def using that by (intro conjI exI [of _ D] exI [of _ c]) auto
  have off: "act_valid (idle n D1 c') (with_tx L (disable_tx L now user_id)) ?Q ?E"
    if "verified L R now user_id code D c kind D1 c'" for kind D1 c'
    using that by (intro act_valid_weaken [OF with_tx_idle [OF disable_tx_valid]]) (auto simp: failed_def)
  have "act_valid ?V (with_tx L (disable_tx L now user_id)) ?Q ?E"
    by (intro act_valid_ex act_valid_when) (auto intro: off)
  then have rest: "act_valid ?P (act_bind (verify_2fa_code L R now user_id code) (\<lambda>_. with_tx L (disable_tx L now user_id))) ?Q ?E"
    by (rule act_valid_bind [OF verify])
  show ?thesis
    unfolding disable_2fa_def
  proof (rule act_valid_bind [OF user], rule act_valid_when)
    fix user assume "user_of user_id D = Some user"
    then have uid: "u_id user = user_id" using user_of_Some by blast
    have "act_valid ?P (act_fail e) ?Q ?E" for e by (rule act_valid_fail, rule fail_off)
    with rest show "act_valid ?P (if \<not> u_totp_enabled user then act_fail (Conflict ''2FA is not enabled'')
       else act_bind (verify_2fa_code L R now user_id code) (\<lambda>_. with_tx L (disable_tx L now (u_id user)))) ?Q ?E"
      unfolding uid by simp
  qed
qed

definition with_draft :: "timestamp \<Rightarrow> uuid \<Rightarrow> string \<Rightarrow> tables \<Rightarrow> tables" where
  "with_draft now user_id secret D =
     update_users now (\<lambda>u. u_id u = user_id \<and> \<not> u_totp_enabled u \<and> u_deleted_at u = None)
       (\<lambda>u. u\<lparr>u_totp_pending_secret := Some secret, u_totp_pending_at := Some now\<rparr>) D"

lemma setup_2fa_valid:
  "act_valid (idle n D c) (setup_2fa L now user_id issuer_name account_name)
     (\<lambda>setup w. \<exists>D'. idle n D' c w \<and>
        (case draft_of (int now) user_id D of
           Some secret \<Rightarrow> setup_from_secret L secret issuer_name account_name = Ok setup \<and> D' = D
         | None \<Rightarrow> (\<exists>i. generate_setup L i issuer_name account_name = Ok setup) \<and>
                   D' = with_draft (int now) user_id (secret_base32 setup) D))
     (\<lambda>_. idle n D c)" (is "act_valid ?P _ ?Q ?E")
proof -
  have pending: "act_valid ?P (act_map_err service_from_sqlx (get_pending_totp_secret L (int now) user_id))
      (\<lambda>pending w. ?P w \<and> draft_of (int now) user_id D = pending) ?E"
    unfolding get_pending_totp_secret_def db_read_def
    by (rule act_valid_map_err, rule db_query_valid) (auto simp: idle_def draft_of_def)
  have draw: "act_valid ?P (act_map_err internal_text (draw (\<lambda>i. generate_setup L i issuer_name account_name)))
      (\<lambda>setup w. ?P w \<and> (\<exists>i. generate_setup L i issuer_name account_name = Ok setup)) ?E"
    by (rule act_valid_map_err) (auto simp: act_valid_outcome draw_def idle_def split: res.splits)
  have store: "act_valid ?P (act_bind (act_map_err service_from_sqlx
        (set_pending_totp_secret L (int now) user_id (secret_base32 new))) (\<lambda>_. act_return new)) ?Q ?E"
    if "draft_of (int now) user_id D = None" "\<exists>i. generate_setup L i issuer_name account_name = Ok new" for new
  proof (rule act_valid_bind)
    show "act_valid ?P (act_map_err service_from_sqlx (set_pending_totp_secret L (int now) user_id (secret_base32 new)))
        (\<lambda>_. idle n (with_draft (int now) user_id (secret_base32 new) D) c) ?E"
      unfolding set_pending_totp_secret_def db_exec_def
      by (rule act_valid_map_err, rule db_query_valid) (auto simp: idle_def with_draft_def)
    show "act_valid (idle n (with_draft (int now) user_id (secret_base32 new) D) c) (act_return new) ?Q ?E"
      using that by (intro act_valid_return) auto
  qed
  have rest: "act_valid ?P
     (act_bind (act_map_err service_from_sqlx (get_pending_totp_secret L (int now) user_id)) (\<lambda>existing.
      case existing of
        Some existing \<Rightarrow> act_lift (map_err internal_text (setup_from_secret L existing issuer_name account_name))
      | None \<Rightarrow>
         act_bind (act_map_err internal_text (draw (\<lambda>i. generate_setup L i issuer_name account_name))) (\<lambda>setup.
         act_bind (act_map_err service_from_sqlx
            (set_pending_totp_secret L (int now) user_id (secret_base32 setup))) (\<lambda>_. act_return setup)))) ?Q ?E"
  proof (rule act_valid_bind [OF pending], rule act_valid_when)
    fix existing assume draft: "draft_of (int now) user_id D = existing"
    show "act_valid ?P (case existing of
        Some existing \<Rightarrow> act_lift (map_err internal_text (setup_from_secret L existing issuer_name account_name))
      | None \<Rightarrow>
         act_bind (act_map_err internal_text (draw (\<lambda>i. generate_setup L i issuer_name account_name))) (\<lambda>setup.
         act_bind (act_map_err service_from_sqlx
            (set_pending_totp_secret L (int now) user_id (secret_base32 setup))) (\<lambda>_. act_return setup))) ?Q ?E"
    proof (cases existing)
      case None
      have "act_valid ?P (act_bind (act_map_err internal_text (draw (\<lambda>i. generate_setup L i issuer_name account_name))) (\<lambda>setup.
         act_bind (act_map_err service_from_sqlx
            (set_pending_totp_secret L (int now) user_id (secret_base32 setup))) (\<lambda>_. act_return setup))) ?Q ?E"
        by (rule act_valid_bind [OF draw], rule act_valid_when, rule store) (use draft None in auto)
      with None show ?thesis by simp
    next
      case (Some secret)
      with draft show ?thesis by (auto intro!: act_valid_lift)
    qed
  qed
  show ?thesis
    unfolding setup_2fa_def
  proof (rule act_valid_bind)
    show "act_valid ?P (existing_user L user_id) (\<lambda>user w. ?P w \<and> user_of user_id D = Some user) ?E"
      by (rule act_valid_weaken [OF existing_user_valid]) (auto simp: failed_def)
  qed (rule act_valid_when, auto intro!: act_valid_fail rest)
qed

end
