(* ===== verification/Accounts.thy ===== *)
theory Accounts
  imports Totp_Service
begin

text \<open>
  The invariant of the accounts: what the tables of users and recovery codes say about the second
  factor is consistent, whatever the operations of the service have done. The lemmas here are
  about the tables; \<open>Service_Machine\<close> lifts them to the operations.
\<close>

section \<open>The invariant\<close>

definition user_ok :: "user_row \<Rightarrow> bool" where
  "user_ok u \<longleftrightarrow>
     (u_totp_enabled u \<longleftrightarrow> u_totp_secret u \<noteq> None) \<and>
     (u_totp_enabled u \<longrightarrow> u_totp_pending_secret u = None) \<and>
     (u_totp_pending_secret u = None \<longleftrightarrow> u_totp_pending_at u = None)"

definition open_codes :: "uuid \<Rightarrow> recovery_code_row list \<Rightarrow> recovery_code_row list" where
  "open_codes user_id cs = filter (\<lambda>c. c_user_id c = user_id \<and> unused c) cs"

definition has_factor :: "user_row list \<Rightarrow> uuid \<Rightarrow> bool" where
  "has_factor us user_id \<longleftrightarrow> (\<exists>u\<in>set us. u_id u = user_id \<and> u_totp_enabled u)"

definition account_inv :: "tables \<Rightarrow> bool" where
  "account_inv d \<longleftrightarrow>
     distinct (map u_id (users d)) \<and>
     (\<forall>u\<in>set (users d). user_ok u) \<and>
     (\<forall>c\<in>set (recovery_codes d). unused c \<longrightarrow> has_factor (users d) (c_user_id c)) \<and>
     (\<forall>user_id. length (open_codes user_id (recovery_codes d)) \<le> 10)"

lemma account_invI:
  assumes "distinct (map u_id (users d))" and "\<And>u. u \<in> set (users d) \<Longrightarrow> user_ok u"
    and "\<And>c. c \<in> set (recovery_codes d) \<Longrightarrow> unused c \<Longrightarrow> has_factor (users d) (c_user_id c)"
    and "\<And>user_id. length (open_codes user_id (recovery_codes d)) \<le> 10"
  shows "account_inv d"
  using assms by (simp add: account_inv_def)

lemma account_invD:
  assumes "account_inv d"
  shows "distinct (map u_id (users d))" and "u \<in> set (users d) \<Longrightarrow> user_ok u"
    and "c \<in> set (recovery_codes d) \<Longrightarrow> unused c \<Longrightarrow> has_factor (users d) (c_user_id c)"
    and "length (open_codes user_id (recovery_codes d)) \<le> 10"
  using assms by (simp_all add: account_inv_def)

lemma account_inv_frame:
  "users d' = users d \<Longrightarrow> recovery_codes d' = recovery_codes d \<Longrightarrow> account_inv d \<Longrightarrow> account_inv d'"
  by (simp add: account_inv_def)

lemma account_inv_empty: "account_inv empty_tables"
  by (simp add: account_inv_def empty_tables_def open_codes_def)

section \<open>Codes\<close>

lemma use_codes_frame [simp]:
  "users (use_codes now P d) = users d" "refresh_tokens (use_codes now P d) = refresh_tokens d"
  "identifiers (use_codes now P d) = identifiers d" "login_attempts (use_codes now P d) = login_attempts d"
  "outbox (use_codes now P d) = outbox d"
  by (simp_all add: use_codes_def)

lemma in_use_codes:
  "c \<in> set (recovery_codes (use_codes now P d)) \<Longrightarrow> unused c \<Longrightarrow> c \<in> set (recovery_codes d) \<and> \<not> P c"
proof -
  assume c: "c \<in> set (recovery_codes (use_codes now P d))" "unused c"
  from c(1) obtain r where r: "r \<in> set (recovery_codes d)"
    "c = (if P r \<and> c_used_at r = None then r\<lparr>c_used_at := Some now\<rparr> else r)"
    by (auto simp: use_codes_def in_update_where)
  with c(2) have "c = r" "\<not> (P r \<and> c_used_at r = None)" by (auto simp: unused_def split: if_splits)
  with r(1) c(2) show ?thesis by (simp add: unused_def)
qed

lemma open_codes_use_codes:
  "open_codes user_id (recovery_codes (use_codes now P d)) = filter (\<lambda>c. \<not> P c) (open_codes user_id (recovery_codes d))"
proof -
  have "filter (\<lambda>c. c_user_id c = user_id \<and> unused c)
          (update_where (\<lambda>c. P c \<and> c_used_at c = None) (\<lambda>c. c\<lparr>c_used_at := Some now\<rparr>) cs) =
        filter (\<lambda>c. \<not> P c) (filter (\<lambda>c. c_user_id c = user_id \<and> unused c) cs)" for cs
    by (induction cs) (auto simp: unused_def)
  then show ?thesis by (simp add: open_codes_def use_codes_def)
qed

lemma account_inv_use_codes:
  assumes "account_inv d"
  shows "account_inv (use_codes now P d)"
proof (rule account_invI)
  show "length (open_codes user_id (recovery_codes (use_codes now P d))) \<le> 10" for user_id
    using le_trans [OF length_filter_le account_invD(4) [OF assms]] by (simp only: open_codes_use_codes)
  show "has_factor (users (use_codes now P d)) (c_user_id c)"
    if "c \<in> set (recovery_codes (use_codes now P d))" "unused c" for c
    using in_use_codes [OF that] that(2) account_invD(3) [OF assms] by simp
qed (use account_invD [OF assms] in auto)

section \<open>Users\<close>

lemma users_update_users: "users (update_users now P f d) = update_where P (\<lambda>u. (f u)\<lparr>u_updated_at := now\<rparr>) (users d)"
  by (simp add: update_users_def)

lemma bex_update_where: "(\<exists>r\<in>set (update_where P f rows). Q r) \<longleftrightarrow> (\<exists>r\<in>set rows. Q (if P r then f r else r))"
  by (simp only: in_update_where Bex_def) blast

lemma user_ok_updated_at [simp]: "user_ok (u\<lparr>u_updated_at := t\<rparr>) \<longleftrightarrow> user_ok u"
  by (simp add: user_ok_def)

text \<open>An update of users that keeps their identity and consistency and takes no second factor away.\<close>

lemma account_inv_update_users:
  assumes inv: "account_inv d" and "\<And>u. u_id (f u) = u_id u"
    and ok: "\<And>u. user_ok u \<Longrightarrow> P u \<Longrightarrow> user_ok (f u)" and on: "\<And>u. u_totp_enabled u \<Longrightarrow> u_totp_enabled (f u)"
  shows "account_inv (update_users now P f d)"
proof (rule account_invI)
  show "distinct (map u_id (users (update_users now P f d)))"
    using account_invD(1) [OF inv] assms(2) by (simp add: users_update_users table_simps)
  show "user_ok u" if "u \<in> set (users (update_users now P f d))" for u
    using that account_invD(2) [OF inv] ok by (auto simp: users_update_users in_update_where split: if_splits)
  show "has_factor (users (update_users now P f d)) (c_user_id c)"
    if "c \<in> set (recovery_codes (update_users now P f d))" "unused c" for c
  proof -
    from account_invD(3) [OF inv, of c] that obtain u where "u \<in> set (users d)" "u_id u = c_user_id c" "u_totp_enabled u"
      by (auto simp: has_factor_def)
    then show ?thesis
      unfolding has_factor_def users_update_users bex_update_where
      using assms(2) on by (intro bexI [of _ u]) auto
  qed
qed (use account_invD(4) [OF inv] in simp)

lemma account_inv_last_login:
  "account_inv d \<Longrightarrow> account_inv (update_users now P (\<lambda>u. u\<lparr>u_last_login_at := t\<rparr>) d)"
  by (rule account_inv_update_users) (auto simp: user_ok_def)

lemma account_inv_with_draft: "account_inv d \<Longrightarrow> account_inv (with_draft now user_id secret d)"
  unfolding with_draft_def by (rule account_inv_update_users) (auto simp: user_ok_def)

lemma account_inv_drop_drafts:
  "account_inv d \<Longrightarrow> account_inv (update_users now P (\<lambda>u. u\<lparr>u_totp_pending_secret := None, u_totp_pending_at := None\<rparr>) d)"
  by (rule account_inv_update_users) (auto simp: user_ok_def)

lemma account_inv_promote:
  "account_inv d \<Longrightarrow> account_inv (update_users now (drafted user_id) (promote_draft t) d)"
  by (rule account_inv_update_users) (auto simp: user_ok_def promote_draft_def drafted_def)

lemma account_inv_new_user:
  assumes inv: "account_inv d" and "u_id u \<notin> u_id ` set (users d)" and "user_ok u"
  shows "account_inv (d\<lparr>users := users d @ [u]\<rparr>)"
proof (rule account_invI)
  show "has_factor (users (d\<lparr>users := users d @ [u]\<rparr>)) (c_user_id c)"
    if "c \<in> set (recovery_codes (d\<lparr>users := users d @ [u]\<rparr>))" "unused c" for c
    using that account_invD(3) [OF inv, of c] by (auto simp: has_factor_def)
qed (use assms account_invD [OF inv] in auto)

text \<open>The end of an enrolment: the factor goes, and with it every open code of the user.\<close>

lemma account_inv_withdrawn:
  assumes "account_inv d"
  shows "account_inv (withdrawn now user_id d)"
proof (rule account_invI)
  let ?off = "\<lambda>u. u_id u = user_id \<and> u_totp_enabled u \<and> u_deleted_at u = None"
  let ?d1 = "update_users now ?off clear_totp d"
  have users: "users (withdrawn now user_id d) = update_where ?off (\<lambda>u. (clear_totp u)\<lparr>u_updated_at := now\<rparr>) (users d)"
    by (simp add: withdrawn_def users_update_users)
  show "distinct (map u_id (users (withdrawn now user_id d)))"
    using account_invD(1) [OF assms] by (simp add: users table_simps clear_totp_def)
  show "user_ok u" if "u \<in> set (users (withdrawn now user_id d))" for u
    using that account_invD(2) [OF assms] by (auto simp: users in_update_where clear_totp_def user_ok_def split: if_splits)
  show "length (open_codes k (recovery_codes (withdrawn now user_id d))) \<le> 10" for k
    using le_trans [OF length_filter_le account_invD(4) [OF assms]]
    by (simp only: withdrawn_def open_codes_use_codes update_users_frame)
  show "has_factor (users (withdrawn now user_id d)) (c_user_id c)"
    if c: "c \<in> set (recovery_codes (withdrawn now user_id d))" "unused c" for c
  proof -
    from in_use_codes [of c now "\<lambda>c. c_user_id c = user_id" ?d1] c
    have "c \<in> set (recovery_codes d)" "c_user_id c \<noteq> user_id" by (simp_all add: withdrawn_def)
    with account_invD(3) [OF assms, of c] c(2) obtain u where
      "u \<in> set (users d)" "u_id u = c_user_id c" "u_totp_enabled u" "u_id u \<noteq> user_id"
      by (auto simp: has_factor_def)
    then show ?thesis unfolding has_factor_def users bex_update_where by (intro bexI [of _ u]) auto
  qed
qed

section \<open>Enrolment\<close>

lemma length_new_code_rows [simp]: "length (new_code_rows L now m user_id hs) = length hs"
  by (simp add: new_code_rows_def)

lemma new_code_rows_fields:
  "c \<in> set (new_code_rows L now m user_id hs) \<Longrightarrow> c_user_id c = user_id \<and> unused c \<and> c_code_hash c \<in> set hs"
  by (auto simp: new_code_rows_def unused_def in_set_enumerate_eq)

lemma hashes_new_code_rows [simp]: "map c_code_hash (new_code_rows L now m user_id hs) = hs"
  by (simp add: new_code_rows_def comp_def case_prod_beta)

lemma open_new_code_rows:
  "open_codes k (new_code_rows L now m user_id hs) = (if k = user_id then new_code_rows L now m user_id hs else [])"
  by (auto simp: open_codes_def filter_empty_conv filter_id_conv dest: new_code_rows_fields)

text \<open>The draft that a confirmation finds is the one it promotes.\<close>

lemma draft_of_drafted:
  "draft_of now user_id D = Some secret \<Longrightarrow>
   \<exists>u\<in>set (users D). drafted user_id u \<and> \<not> u_totp_enabled u \<and> u_totp_pending_secret u = Some secret"
  by (auto simp: draft_of_def drafted_def live_draft_def bind_eq_Some_conv dest!: find_SomeD)

lemma enrolled_has_factor:
  assumes "draft_of t user_id D = Some secret"
  shows "has_factor (users (enrolled L now user_id m codes D)) user_id"
proof -
  from draft_of_drafted [OF assms] obtain u where "u \<in> set (users D)" "drafted user_id u" by blast
  then have "\<exists>v\<in>set (update_where (drafted user_id) (\<lambda>u. (promote_draft now u)\<lparr>u_updated_at := now\<rparr>) (users D)).
      u_id v = user_id \<and> u_totp_enabled v"
    unfolding bex_update_where by (intro bexI [of _ u]) (auto simp: promote_draft_def drafted_def)
  then show ?thesis by (simp add: has_factor_def enrolled_def Let_def users_update_users)
qed

lemma account_inv_enrolled:
  assumes inv: "account_inv D" and draft: "draft_of t user_id D = Some secret" and codes: "length codes \<le> 10"
  shows "account_inv (enrolled L now user_id m codes D)"
proof (rule account_invI)
  let ?D1 = "use_codes now (\<lambda>c. c_user_id c = user_id) (update_users now (drafted user_id) (promote_draft now) D)"
  let ?rows = "new_code_rows L now m user_id (map (hash_recovery_code L) codes)"
  let ?D2 = "enrolled L now user_id m codes D"
  have inv1: "account_inv ?D1" by (intro account_inv_use_codes account_inv_promote inv)
  have users: "users ?D2 = users ?D1" and rows: "recovery_codes ?D2 = recovery_codes ?D1 @ ?rows"
    by (simp_all add: enrolled_def Let_def)
  have none: "open_codes user_id (recovery_codes ?D1) = []"
    unfolding open_codes_use_codes by (simp add: open_codes_def filter_empty_conv)
  show "length (open_codes k (recovery_codes ?D2)) \<le> 10" for k
    using account_invD(4) [OF inv1, of k] none codes open_new_code_rows [of k]
    by (cases "k = user_id") (simp_all add: rows open_codes_def)
  show "has_factor (users ?D2) (c_user_id c)" if c: "c \<in> set (recovery_codes ?D2)" "unused c" for c
  proof (cases "c \<in> set ?rows")
    case True
    with enrolled_has_factor [OF draft] show ?thesis by (auto dest: new_code_rows_fields)
  next
    case False
    with c account_invD(3) [OF inv1, of c] show ?thesis unfolding users rows by simp
  qed
qed (use account_invD(1,2) [OF account_inv_use_codes [OF account_inv_promote [OF inv]]] in \<open>auto simp: enrolled_def Let_def\<close>)

end
