(* ===== verification/Service_Machine.thy ===== *)
theory Service_Machine
  imports Accounts
begin

text \<open>
  The service as one machine: a step is any operation of \<open>AuthService\<close> (or a tick of the worker
  that purges abandoned drafts) at any time. The machine is an instance of the locale \<open>machine\<close>,
  and what every reachable state satisfies follows from the invariants of the components.
\<close>

section \<open>The machine\<close>

datatype service_op =
    Register register_params
  | Login string string string string ip_address "string option"
  | Refresh string string "string option"
  | Logout string
  | Setup2fa uuid string string
  | Confirm2fa uuid string
  | Verify2fa uuid string
  | Disable2fa uuid string
  | CleanupDrafts

datatype service_out =
    TokensOut "(service_error, token_pair) res"
  | LoginOut "(service_error, login_outcome) res"
  | SetupOut "(service_error, totp_setup) res"
  | CodesOut "(service_error, string list) res"
  | FactorOut "(service_error, second_factor_kind) res"
  | DoneOut "(service_error, unit) res"

fun perform ::
    "lib \<Rightarrow> 'g grace_ops \<Rightarrow> 'r replay_ops \<Rightarrow> auth_service \<Rightarrow> instant \<Rightarrow> service_op \<Rightarrow> ('g, 'r) world \<Rightarrow>
     service_out \<times> ('g, 'r) world" where
  "perform L G R svc now (Register params) w = apfst TokensOut (register L now svc params w)"
| "perform L G R svc now (Login kind value password jkt ip ua) w =
     apfst LoginOut (login L now svc kind value password jkt ip ua w)"
| "perform L G R svc now (Refresh token jkt ua) w = apfst TokensOut (refresh L G now svc token jkt ua w)"
| "perform L G R svc now (Logout token) w = apfst DoneOut (logout L now token w)"
| "perform L G R svc now (Setup2fa uid issuer_name account_name) w =
     apfst SetupOut (setup_2fa L now uid issuer_name account_name w)"
| "perform L G R svc now (Confirm2fa uid code) w = apfst CodesOut (confirm_2fa L now uid code w)"
| "perform L G R svc now (Verify2fa uid code) w = apfst FactorOut (verify_2fa_code L R now uid code w)"
| "perform L G R svc now (Disable2fa uid code) w = apfst DoneOut (disable_2fa L R now uid code w)"
| "perform L G R svc now CleanupDrafts w = apfst DoneOut (totp_cleanup_tick L now w)"

inductive service_step ::
    "lib \<Rightarrow> 'g grace_ops \<Rightarrow> 'r replay_ops \<Rightarrow> auth_service \<Rightarrow> ('g, 'r) world \<Rightarrow> ('g, 'r) world \<Rightarrow> bool"
  for L G R svc where
  step: "perform L G R svc now op w = (out, w') \<Longrightarrow> service_step L G R svc w w'"

inductive_cases service_stepE: "service_step L G R svc w w'"

definition service_init :: "('g, 'r) world \<Rightarrow> bool" where
  "service_init w \<longleftrightarrow> tx w = Auto \<and> db w = empty_tables"

section \<open>What a statement cannot break\<close>

text \<open>A condition on the tables holds now and would hold after a rollback, and the replay cache is
  as given. Statements that keep the condition keep this, and so does the end of a transaction.\<close>

definition safe :: "(tables \<Rightarrow> bool) \<Rightarrow> 'r \<Rightarrow> ('g, 'r) world \<Rightarrow> bool" where
  "safe I c w \<longleftrightarrow>
     I (db w) \<and> (case tx w of Auto \<Rightarrow> True | InTx D b \<Rightarrow> I D) \<and> totp_replay_cache w = c"

lemma safe_Auto: "tx w = Auto \<Longrightarrow> safe I c w \<longleftrightarrow> I (db w) \<and> totp_replay_cache w = c"
  by (simp add: safe_def)

lemma safe_aborted: "safe I c w \<Longrightarrow> safe I c (w\<lparr>calls := k, tx := mark_aborted (tx w)\<rparr>)"
  by (cases "tx w") (auto simp: safe_def)

lemma safe_query:
  assumes "keeps I stmt"
  shows "act_keeps (safe I c) (db_query L texts stmt :: ('g, 'r, sqlx_error, 'a) sact)"
  unfolding act_valid_outcome
proof (intro allI impI)
  fix w :: "('g, 'r) world" and r w'
  assume w: "safe I c w" "db_query L texts stmt w = (r, w')"
  show "case r of Ok a \<Rightarrow> safe I c w' | Err e \<Rightarrow> safe I c w' | Panic \<Rightarrow> safe I c w'"
  proof (cases r)
    case (Ok a)
    with w obtain d k where st: "stmt (db w) (pg_draws w) = Ok (a, d, k)"
      "w' = w\<lparr>calls := calls w + 1, db := d, pg_draws := k\<rparr>"
      by (auto simp: db_query_Ok_iff)
    have "case stmt (db w) (pg_draws w) of Ok (a, d', n') \<Rightarrow> I d' | Err e \<Rightarrow> True | Panic \<Rightarrow> False"
      using assms w(1) by (simp add: keeps_def safe_def)
    with st w(1) Ok show ?thesis by (simp add: safe_def)
  qed (use w db_query_failed [OF w(2)] safe_aborted [OF w(1)] in auto)
qed

lemma safe_read: "act_keeps (safe I c) (db_read L texts g)"
  unfolding db_read_def by (rule safe_query) (simp add: keeps_def)

lemma safe_exec: "(\<And>d. I d \<Longrightarrow> I (f d)) \<Longrightarrow> act_keeps (safe I c) (db_exec L texts f)"
  unfolding db_exec_def by (rule safe_query) (simp add: keeps_def)

lemma safe_drop: "safe I c w \<Longrightarrow> safe I c (drop_tx w)"
  by (cases "tx w") (auto simp: safe_def drop_tx_def)

lemma safe_commit: "act_keeps (safe I c) (commit L)"
proof -
  have "safe I c (drop_tx (w\<lparr>calls := k\<rparr>))" "safe I c (w\<lparr>calls := k, tx := Auto, session_settings := m, tx_settings := []\<rparr>)"
    if "safe I c w" for w :: "('a, 'b) world" and k m
    using that safe_drop [of I c "w\<lparr>calls := k\<rparr>"] by (auto simp: safe_def)
  then show ?thesis
    by (auto simp: act_valid_outcome commit_def Let_def split: option.splits if_splits)
qed

lemma safe_with_tx:
  assumes "act_keeps (safe I c) body"
  shows "act_keeps (safe I c) (with_tx L body)"
  unfolding with_tx_def begin_tx_def
proof (intro act_keeps_bind act_keeps_map_err safe_read)
  show "act_keeps (safe I c) (\<lambda>w. (Ok (), w\<lparr>tx := InTx (db w) False\<rparr>))"
    by (auto simp: act_valid_outcome safe_def)
  show "act_keeps (safe I c) (\<lambda>w. case body w of (r, w') \<Rightarrow> (r, drop_tx w'))"
    using assms safe_drop by (fastforce simp: act_valid_outcome split: res.splits prod.splits)
qed auto

lemma safe_pure:
  "act_keeps (safe I c) (draw f)" "act_keeps (safe I c) (grace_get G now k)"
  "act_keeps (safe I c) (grace_insert G now k v)"
  by (auto simp: act_valid_outcome draw_def grace_get_def grace_insert_def safe_def split: res.splits)

lemma safe_acquire: "act_keeps (safe I c) (acquire L)"
  unfolding acquire_def by (rule safe_read)

lemmas safe_intros = act_keeps_bind act_keeps_map_err act_keeps_ok act_keeps_pure safe_pure safe_acquire safe_commit safe_with_tx

text \<open>The statements of the service and the accounts.\<close>

abbreviation safe_accounts :: "'r \<Rightarrow> ('g, 'r) world \<Rightarrow> bool" where
  "safe_accounts \<equiv> safe account_inv"

lemma user_statements_safe:
  "act_keeps (safe_accounts c) (find_user_by_identifier L kind value)"
  "act_keeps (safe_accounts c) (find_user_by_id L uid)"
  "act_keeps (safe_accounts c) (record_login_attempt L t kind value ip b reason)"
  "act_keeps (safe_accounts c) (update_last_login_at L t uid)"
  "act_keeps (safe_accounts c) (create_identifier L t uid kind value prim ver)"
  by (auto simp: find_user_by_identifier_def find_user_by_id_def record_login_attempt_def update_last_login_at_def
      create_identifier_def Let_def keeps_def intro!: safe_query safe_read safe_exec account_inv_last_login
      elim!: account_inv_frame [rotated 2])

lemma create_user_safe: "act_keeps (safe_accounts c) (create_user L t name h changed)"
  unfolding create_user_def
  by (rule safe_query) (auto simp: keeps_def Let_def user_ok_def intro!: account_inv_new_user)

lemma token_statements_safe:
  "act_keeps (safe_accounts c) (create_refresh_token L t p)"
  "act_keeps (safe_accounts c) (find_refresh_token_by_hash L h)"
  "act_keeps (safe_accounts c) (revoke_refresh_token_family L t fam)"
  "act_keeps (safe_accounts c) (revoke_refresh_token_if_active L t h)"
  "act_keeps (safe_accounts c) (revoke_refresh_token_by_hash L t h)"
  by (auto simp: create_refresh_token_def find_refresh_token_by_hash_def revoke_refresh_token_family_def
      revoke_refresh_token_if_active_def revoke_refresh_token_by_hash_def Let_def keeps_def
      intro!: safe_query safe_read safe_exec elim!: account_inv_frame [rotated 2])

text \<open>The operations of \<open>service/auth.rs\<close> and the accounts.\<close>

lemma new_family_safe: "act_keeps (safe_accounts c) (new_family L now cfg uid jkt ua)"
  unfolding new_family_def by (intro safe_intros token_statements_safe)

lemma issue_user_token_safe: "act_keeps (safe_accounts c) (issue_user_token L now cfg user jkt)"
  unfolding issue_user_token_def by (rule safe_pure)

lemma authenticate_user_safe: "act_keeps (safe_accounts c) (authenticate_user L now svc kind value pw ip)"
  unfolding authenticate_user_def Let_def
  by (auto intro!: safe_intros user_statements_safe split: option.splits)

lemma login_safe: "act_keeps (safe_accounts c) (login L now svc kind value pw jkt ip ua)"
  unfolding login_def issue_session_def
  by (auto intro!: safe_intros user_statements_safe authenticate_user_safe new_family_safe issue_user_token_safe)

lemma register_safe: "act_keeps (safe_accounts c) (register L now svc params)"
  unfolding register_def register_tx_def Let_def
  by (auto intro!: safe_intros user_statements_safe create_user_safe new_family_safe issue_user_token_safe
      split: prod.splits)

lemma logout_safe: "act_keeps (safe_accounts c) (logout L now token)"
  unfolding logout_def by (intro safe_intros token_statements_safe)

lemma refresh_safe: "act_keeps (safe_accounts c) (refresh L G now svc token jkt ua)"
  unfolding refresh_def refresh_inactive_def refresh_active_def Let_def
  by (auto intro!: safe_intros user_statements_safe token_statements_safe issue_user_token_safe split: option.splits)

lemma cleanup_safe: "act_keeps (safe_accounts c) (totp_cleanup_tick L now)"
  unfolding totp_cleanup_tick_def cleanup_expired_drafts_def
  by (intro safe_intros safe_exec account_inv_drop_drafts)

section \<open>Every operation is a step of the families\<close>

lemma act_valid_end:
  "act_valid P m (\<lambda>_. Q) (\<lambda>_. Q) \<Longrightarrow> P w \<Longrightarrow> m w = (r, w') \<Longrightarrow> Q w'"
  by (cases r) (auto dest: act_validD)

lemma here: "tx w = Auto \<Longrightarrow> tok no_tx (w_draws w) (refresh_tokens (db w)) w"
  by (simp add: holds_def)

definition tokens_moved :: "lib \<Rightarrow> ('g, 'r) world \<Rightarrow> ('g, 'r) world \<Rightarrow> bool" where
  "tokens_moved L w w' \<longleftrightarrow> tx w' = Auto \<and> token_step L (view w) (view w')"

lemma tokens_movedI: "stepped L no_tx (w_draws w) (refresh_tokens (db w)) w' \<Longrightarrow> tokens_moved L w w'"
  by (simp add: stepped_def tokens_moved_def view_def no_tx_def)

lemma tokens_kept:
  "idle (w_draws w) D' c' w' \<Longrightarrow> refresh_tokens D' = refresh_tokens (db w) \<Longrightarrow> tokens_moved L w w'"
  by (auto simp: idle_def tokens_moved_def view_def intro: token_step.idle)

lemma totp_tables_frame [simp]:
  "refresh_tokens (enrolled L t uid m codes D) = refresh_tokens D"
  "refresh_tokens (withdrawn t uid D) = refresh_tokens D"
  "refresh_tokens (with_draft t uid secret D) = refresh_tokens D"
  by (simp_all add: enrolled_def withdrawn_def with_draft_def use_codes_def Let_def)

lemma verified_tokens: "verified L R now uid code D c kind D' c' \<Longrightarrow> refresh_tokens D' = refresh_tokens D"
  by (cases kind) (auto simp: verified_def use_codes_def)

lemma refresh_moved:
  assumes "tx w = Auto" and "refresh L G now svc token jkt ua w = (r, w')"
  shows "tokens_moved L w w'"
proof -
  have "(w_draws w \<le> w_draws w \<and> grace_cache w = grace_cache w) \<and> tx w = Auto \<and> db w = db w"
    using assms(1) by simp
  from act_validD [OF refresh_valid this, of L G now svc token jkt ua] assms(2) show ?thesis
    by (cases r) (auto simp: refresh_post_def refresh_fail_def tokens_moved_def view_def
        intro: rotated_step reused_step token_step.idle)
qed

lemma setup_moved:
  assumes "tx w = Auto" and "setup_2fa L now uid issuer_name account_name w = (r, w')"
  shows "tokens_moved L w w'"
  using act_validD [OF setup_2fa_valid idleI [OF assms(1)], of L now uid issuer_name account_name] assms(2)
  by (cases r) (auto split: option.splits intro: tokens_kept)

lemma confirm_moved:
  assumes "tx w = Auto" and "confirm_2fa L now uid code w = (r, w')"
  shows "tokens_moved L w w'"
  using act_validD [OF confirm_2fa_valid idleI [OF assms(1)], of L now uid code] assms(2)
  by (cases r) (auto simp: confirmed_def intro: tokens_kept)

lemma verify_moved:
  assumes "tx w = Auto" and "verify_2fa_code L R now uid code w = (r, w')"
  shows "tokens_moved L w w'"
  using act_validD [OF verify_2fa_code_valid idleI [OF assms(1)], of L R now uid code] assms(2)
  by (cases r) (auto simp: failed_def dest: verified_tokens intro: tokens_kept)

lemma disable_moved:
  assumes "tx w = Auto" and "disable_2fa L R now uid code w = (r, w')"
  shows "tokens_moved L w w'"
  using act_validD [OF disable_2fa_valid idleI [OF assms(1)], of L R now uid code] assms(2)
  by (cases r) (fastforce simp: failed_def dest: verified_tokens intro: tokens_kept)+

lemma cleanup_moved:
  assumes "tx w = Auto" and "totp_cleanup_tick L now w = (r, w')"
  shows "tokens_moved L w w'"
proof -
  have "act_keeps (tok no_tx n ts) (totp_cleanup_tick L now)" for n ts
    unfolding totp_cleanup_tick_def cleanup_expired_drafts_def
    by (auto intro!: act_keeps_ok act_keeps_bind store_tok db_exec_keeps)
  from act_keepsD [OF this here [OF assms(1)] assms(2)] show ?thesis
    by (intro tokens_movedI tok_stepped)
qed

lemma perform_moved:
  assumes "tx w = Auto" and "perform L G R svc now op w = (out, w')"
  shows "tokens_moved L w w'"
proof (cases op)
  case (Register params)
  have "tok no_tx (w_draws w) (refresh_tokens (db w)) w \<and> db w = db w" using here [OF assms(1)] by simp
  from act_valid_end [OF register_stepped this] assms(2) Register show ?thesis
    by (auto simp: apfst_def map_prod_def split: prod.splits intro!: tokens_movedI)
next
  case (Login kind v pw jkt ip ua)
  from act_valid_end [OF login_stepped here [OF assms(1)]] assms(2) Login show ?thesis
    by (auto simp: apfst_def map_prod_def split: prod.splits intro!: tokens_movedI)
next
  case (Logout token)
  from act_valid_end [OF logout_stepped here [OF assms(1)]] assms(2) Logout show ?thesis
    by (auto simp: apfst_def map_prod_def split: prod.splits intro!: tokens_movedI)
qed (use assms refresh_moved setup_moved confirm_moved verify_moved disable_moved cleanup_moved in
    \<open>auto simp: apfst_def map_prod_def split: prod.splits\<close>)

section \<open>Every operation keeps the accounts\<close>

lemma generate_recovery_codes_length:
  assumes "getrandom_laws L" and "generate_recovery_codes L i n = Ok codes"
  shows "length codes = n"
proof -
  from assms(2) obtain bs where bs: "getrandom L i (n * 10) = Inr bs" and
    codes: "collect_results (map (\<lambda>chunk. hyphenated (hex_encode L chunk)) (as_chunks 10 bs)) = (Ok codes :: (dpop_error, string list) res)"
    by (auto simp: generate_recovery_codes_def res_bind_Ok_iff split: if_splits)
  have "length (as_chunks 10 bs) = n"
    using as_chunks_whole [of bs n 10] getrandom_laws.getrandom_length [OF assms(1) bs] by simp
  moreover from codes have "length (map (\<lambda>chunk. hyphenated (hex_encode L chunk) :: (dpop_error, string) res) (as_chunks 10 bs)) = length codes"
    by (simp only: collect_results_Ok_iff length_map)
  ultimately show ?thesis by simp
qed

text \<open>What an operation may do to the replay cache.\<close>

definition claimed_once :: "'r replay_ops \<Rightarrow> instant \<Rightarrow> 'r \<Rightarrow> 'r \<Rightarrow> bool" where
  "claimed_once R now c c' \<longleftrightarrow> c' = c \<or> (\<exists>key. c' = snd (cache_or_insert R now key () c))"

lemma claimed_onceI: "cache_or_insert R now key () c = (b, c') \<Longrightarrow> claimed_once R now c c'"
  unfolding claimed_once_def by (metis snd_conv)

lemma claimed_once_refl [simp]: "claimed_once R now c c"
  by (simp add: claimed_once_def)

lemma verified_account:
  "verified L R now uid code D c kind D' c' \<Longrightarrow> account_inv D \<Longrightarrow> account_inv D' \<and> claimed_once R now c c'"
  by (cases kind) (auto simp: verified_def intro: account_inv_use_codes claimed_onceI)

lemma rejected_claimed: "rejected R now uid code c c' \<Longrightarrow> claimed_once R now c c'"
  by (auto simp: rejected_def intro: claimed_onceI)

definition accounts_kept :: "'r replay_ops \<Rightarrow> instant \<Rightarrow> ('g, 'r) world \<Rightarrow> ('g, 'r) world \<Rightarrow> bool" where
  "accounts_kept R now w w' \<longleftrightarrow>
     account_inv (db w') \<and> claimed_once R now (totp_replay_cache w) (totp_replay_cache w')"

lemma safe_accounts_kept:
  assumes "act_keeps (safe_accounts (totp_replay_cache w)) m" and "tx w = Auto" and "account_inv (db w)"
    and "m w = (r, w')"
  shows "accounts_kept R now w w'"
  using act_keepsD [OF assms(1) _ assms(4)] assms(2,3) by (simp add: safe_def accounts_kept_def claimed_once_def)

lemma idle_accounts_kept:
  "idle n D c w' \<Longrightarrow> account_inv D \<Longrightarrow> claimed_once R now (totp_replay_cache w) c \<Longrightarrow> accounts_kept R now w w'"
  by (simp add: accounts_kept_def idle_def)

lemma setup_accounts:
  assumes "tx w = Auto" "account_inv (db w)" "setup_2fa L now uid issuer_name account_name w = (r, w')"
  shows "accounts_kept R now w w'"
  using act_validD [OF setup_2fa_valid idleI [OF assms(1)], of L now uid issuer_name account_name] assms(2,3)
  by (cases r) (auto simp: claimed_once_def split: option.splits intro!: idle_accounts_kept account_inv_with_draft)

lemma confirm_accounts:
  assumes "getrandom_laws L" "tx w = Auto" "account_inv (db w)" "confirm_2fa L now uid code w = (r, w')"
  shows "accounts_kept R now w w'"
proof (cases r)
  case (Ok codes)
  then obtain D' where D': "confirmed L now uid code (db w) codes D'" "idle (w_draws w) D' (totp_replay_cache w) w'"
    using act_validD(1) [OF confirm_2fa_valid idleI [OF assms(2)], of L now uid code] assms(4) by auto
  from D'(1) obtain secret i m where "draft_of (int now) uid (db w) = Some secret"
    "generate_recovery_codes L i 10 = Ok codes" "D' = enrolled L (int now) uid m codes (db w)"
    by (auto simp: confirmed_def)
  then have "account_inv D'"
    using account_inv_enrolled [OF assms(3)] generate_recovery_codes_length [OF assms(1)] by fastforce
  with D'(2) show ?thesis by (auto simp: claimed_once_def intro!: idle_accounts_kept)
qed (use act_validD(2,3) [OF confirm_2fa_valid idleI [OF assms(2)], of L now uid code] assms(3,4) in
    \<open>auto simp: claimed_once_def intro!: idle_accounts_kept\<close>)

lemma verify_accounts:
  assumes "tx w = Auto" "account_inv (db w)" "verify_2fa_code L R now uid code w = (r, w')"
  shows "accounts_kept R now w w'"
  using act_validD [OF verify_2fa_code_valid idleI [OF assms(1)], of L R now uid code] assms(2,3)
  by (cases r) (auto simp: failed_def dest: verified_account rejected_claimed intro: idle_accounts_kept)

lemma disable_accounts:
  assumes "tx w = Auto" "account_inv (db w)" "disable_2fa L R now uid code w = (r, w')"
  shows "accounts_kept R now w w'"
  using act_validD [OF disable_2fa_valid idleI [OF assms(1)], of L R now uid code] assms(2,3)
  by (cases r) (auto simp: failed_def dest!: verified_account rejected_claimed
      intro!: idle_accounts_kept account_inv_withdrawn)

lemma perform_accounts:
  assumes "getrandom_laws L" and "tx w = Auto" and "account_inv (db w)" and "perform L G R svc now op w = (out, w')"
  shows "accounts_kept R now w w'"
proof -
  note kept = safe_accounts_kept [OF register_safe assms(2,3)] safe_accounts_kept [OF login_safe assms(2,3)]
    safe_accounts_kept [OF refresh_safe assms(2,3)] safe_accounts_kept [OF logout_safe assms(2,3)]
    safe_accounts_kept [OF cleanup_safe assms(2,3)] setup_accounts [OF assms(2,3)]
    confirm_accounts [OF assms(1,2,3)] verify_accounts [OF assms(2,3)] disable_accounts [OF assms(2,3)]
  show ?thesis
    using assms(4) kept by (cases op) (auto simp: apfst_def map_prod_def split: prod.splits)
qed

section \<open>Reachable states\<close>

definition families_ok :: "lib \<Rightarrow> ('g, 'r) world \<Rightarrow> bool" where
  "families_ok L w \<longleftrightarrow> tx w = Auto \<and> (uuid_laws L \<longrightarrow> family_inv L (view w))"

definition accounts_ok :: "lib \<Rightarrow> ('g, 'r) world \<Rightarrow> bool" where
  "accounts_ok L w \<longleftrightarrow> tx w = Auto \<and> (getrandom_laws L \<longrightarrow> account_inv (db w))"

interpretation families:
  simulation service_init "service_step L G R svc" "families_ok L" "token_step L" view for L G R svc
proof
  show "service_init s \<Longrightarrow> families_ok L s" for s :: "('a, 'b) world"
    by (auto simp: service_init_def families_ok_def view_def empty_tables_def token_init_def intro: token_init_inv)
  fix s t :: "('a, 'b) world"
  assume s: "families_ok L s" "service_step L G R svc s t"
  then show "token_step L (view s) (view t)"
    by (auto simp: families_ok_def tokens_moved_def elim!: service_stepE dest!: perform_moved)
  from s show "families_ok L t"
    by (auto simp: families_ok_def tokens_moved_def elim!: service_stepE dest!: perform_moved intro: family_inv_step)
qed

interpretation accounts: machine service_init "service_step L G R svc" "accounts_ok L" for L G R svc
proof
  show "service_init s \<Longrightarrow> accounts_ok L s" for s :: "('a, 'b) world"
    by (simp add: service_init_def accounts_ok_def account_inv_empty)
  fix s t :: "('a, 'b) world"
  assume s: "accounts_ok L s" "service_step L G R svc s t"
  then obtain now op out where p: "perform L G R svc now op s = (out, t)" by (auto elim: service_stepE)
  from s(1) p show "accounts_ok L t"
    using perform_moved [OF _ p] perform_accounts [OF _ _ _ p]
    by (auto simp: accounts_ok_def tokens_moved_def accounts_kept_def)
qed

text \<open>An ended session stays ended.\<close>

lemma dead_steps:
  assumes "uuid_laws L" and "(service_step L G R svc)\<^sup>*\<^sup>* w w'" and "families_ok L w" and "dead fam (view w)"
  shows "dead fam (view w')"
  using uuid_laws.ended_session_stays [OF assms(1) families.steps_sim [OF assms(2,3)]] assms(1,3,4)
  by (simp add: families_ok_def)

section \<open>Sequences of requests\<close>

fun service_run ::
    "lib \<Rightarrow> 'g grace_ops \<Rightarrow> 'r replay_ops \<Rightarrow> auth_service \<Rightarrow> (instant \<times> service_op) list \<Rightarrow> ('g, 'r) world \<Rightarrow>
     service_out list \<times> ('g, 'r) world" where
  "service_run L G R svc [] w = ([], w)"
| "service_run L G R svc ((now, op) # reqs) w =
     (case perform L G R svc now op w of (out, w1) \<Rightarrow>
      case service_run L G R svc reqs w1 of (outs, w2) \<Rightarrow> (out # outs, w2))"

text \<open>A claim in the replay cache holds for its time to live, whatever happens meanwhile.\<close>

definition replay_room ::
    "('r \<Rightarrow> uuid \<times> string \<Rightarrow> (instant \<times> unit) option) \<Rightarrow> ('r \<Rightarrow> duration) \<Rightarrow> ('r \<Rightarrow> nat) \<Rightarrow> nat \<Rightarrow> 'r \<Rightarrow> bool" where
  "replay_room entries ttl capacity n c \<longleftrightarrow>
     ttl c = TOTP_REPLAY_TTL \<and> card (dom (entries c)) + n \<le> capacity c"

lemma replay_room_step:
  assumes "moka R entries ttl capacity" and "claimed_once R now c c'" and "replay_room entries ttl capacity (Suc n) c"
  shows "replay_room entries ttl capacity n c'"
  using assms(2,3) moka.or_insert_ttl [OF assms(1)] moka.or_insert_capacity [OF assms(1)]
    le_trans [OF add_right_mono [OF moka.card_dom_or_insert [OF assms(1)]]]
  by (auto simp: claimed_once_def replay_room_def)

lemma verify_accepted:
  assumes "tx w = Auto" and "perform L G R svc now (Verify2fa uid code) w = (FactorOut (Ok Totp), w')"
  shows "cache_or_insert R now (uid, trim code) () (totp_replay_cache w) = (True, totp_replay_cache w')"
proof -
  from assms(2) have "verify_2fa_code L R now uid code w = (Ok Totp, w')"
    by (auto simp: apfst_def map_prod_def split: prod.splits)
  from act_validD(1) [OF verify_2fa_code_valid idleI [OF assms(1)] this] show ?thesis
    by (auto simp: verified_def idle_def)
qed

definition same_factor :: "uuid \<times> string \<Rightarrow> service_op \<Rightarrow> bool" where
  "same_factor key op \<longleftrightarrow> (\<exists>code. op = Verify2fa (fst key) code \<and> trim code = snd key)"

lemma claim_holds:
  assumes "getrandom_laws L" and moka: "moka R entries ttl capacity"
    and "tx w = Auto" and "account_inv (db w)"
    and "replay_room entries ttl capacity (length reqs) (totp_replay_cache w)"
    and "entries (totp_replay_cache w) key = Some (t, ())"
    and "sorted (map fst reqs)" and "\<forall>r\<in>set reqs. t \<le> fst r"
    and "service_run L G R svc reqs w = (outs, w')"
    and "j < length reqs" and "same_factor key (snd (reqs ! j))" and "outs ! j = FactorOut (Ok Totp)"
  shows "t + TOTP_REPLAY_TTL \<le> fst (reqs ! j)"
  using assms(3-12)
proof (induction reqs arbitrary: w j outs)
  case (Cons req reqs)
  obtain now op where req: "req = (now, op)" by (cases req)
  obtain out w1 where p: "perform L G R svc now op w = (out, w1)" by (cases "perform L G R svc now op w")
  obtain outs1 w2 where run: "service_run L G R svc reqs w1 = (outs1, w2)" by (cases "service_run L G R svc reqs w1")
  have outs: "outs = out # outs1" "w' = w2" using Cons.prems(7) p run by (simp_all add: req)
  show ?case
  proof (cases "t + TOTP_REPLAY_TTL \<le> now")
    case True
    have "now \<le> fst ((req # reqs) ! j)"
      using Cons.prems(5,8) by (cases j) (auto simp: req)
    with True show ?thesis by simp
  next
    case False
    have c: "claimed_once R now (totp_replay_cache w) (totp_replay_cache w1)" and inv: "account_inv (db w1)"
      using perform_accounts [OF assms(1) Cons.prems(1,2) p] by (simp_all add: accounts_kept_def)
    have life: "now < t + ttl (totp_replay_cache w)" and room: "card (dom (entries (totp_replay_cache w))) < capacity (totp_replay_cache w)"
      using False Cons.prems(3) by (simp_all add: replay_room_def)
    show ?thesis
    proof (cases j)
      case 0
      with Cons.prems(9) obtain code where op: "op = Verify2fa (fst key) code" "trim code = snd key"
        by (auto simp: req same_factor_def)
      have "out = FactorOut (Ok Totp)" using Cons.prems(10) 0 by (simp add: outs)
      then have "cache_or_insert R now key () (totp_replay_cache w) = (True, totp_replay_cache w1)"
        using verify_accepted [OF Cons.prems(1)] p op by fastforce
      with moka.claimed_not_fresh [OF moka Cons.prems(4) life] show ?thesis by simp
    next
      case (Suc k)
      have "entries (totp_replay_cache w1) key = Some (t, ())"
        using c Cons.prems(4) moka.claimed_survives [OF moka Cons.prems(4) life room] by (auto simp: claimed_once_def)
      moreover have "replay_room entries ttl capacity (length reqs) (totp_replay_cache w1)"
        using replay_room_step [OF moka c] Cons.prems(3) by simp
      moreover have "tx w1 = Auto" using perform_moved [OF Cons.prems(1) p] by (simp add: tokens_moved_def)
      ultimately have "t + TOTP_REPLAY_TTL \<le> fst (reqs ! k)"
        using Cons.IH [OF _ inv, of outs1 k] Cons.prems(5,6,8-10) run Suc by (simp add: outs)
      with Suc show ?thesis by simp
    qed
  qed
qed simp

lemma claims_apart:
  assumes "getrandom_laws L" and moka: "moka R entries ttl capacity"
    and "tx w = Auto" and "account_inv (db w)"
    and "replay_room entries ttl capacity (length reqs) (totp_replay_cache w)"
    and "sorted (map fst reqs)" and "service_run L G R svc reqs w = (outs, w')"
    and "i < j" and "j < length reqs" and "same_factor key (snd (reqs ! i))" and "same_factor key (snd (reqs ! j))"
    and "outs ! i = FactorOut (Ok Totp)" and "outs ! j = FactorOut (Ok Totp)"
  shows "fst (reqs ! i) + TOTP_REPLAY_TTL \<le> fst (reqs ! j)"
  using assms(3-13)
proof (induction reqs arbitrary: w i j outs)
  case (Cons req reqs)
  obtain now op where req: "req = (now, op)" by (cases req)
  obtain out w1 where p: "perform L G R svc now op w = (out, w1)" by (cases "perform L G R svc now op w")
  obtain outs1 w2 where run: "service_run L G R svc reqs w1 = (outs1, w2)" by (cases "service_run L G R svc reqs w1")
  have outs: "outs = out # outs1" "w' = w2" using Cons.prems(5) p run by (simp_all add: req)
  have inv: "account_inv (db w1)" and c: "claimed_once R now (totp_replay_cache w) (totp_replay_cache w1)"
    using perform_accounts [OF assms(1) Cons.prems(1,2) p] by (simp_all add: accounts_kept_def)
  have tx: "tx w1 = Auto" using perform_moved [OF Cons.prems(1) p] by (simp add: tokens_moved_def)
  have room: "replay_room entries ttl capacity (length reqs) (totp_replay_cache w1)"
    using replay_room_step [OF moka c] Cons.prems(3) by simp
  obtain k where k: "j = Suc k" using Cons.prems(6) by (cases j) auto
  show ?case
  proof (cases i)
    case 0
    with Cons.prems(8) obtain code where op: "op = Verify2fa (fst key) code" "trim code = snd key"
      by (auto simp: req same_factor_def)
    have "out = FactorOut (Ok Totp)" using Cons.prems(10) 0 by (simp add: outs)
    then have "cache_or_insert R now key () (totp_replay_cache w) = (True, totp_replay_cache w1)"
      using verify_accepted [OF Cons.prems(1)] p op by fastforce
    then have "entries (totp_replay_cache w1) key = Some (now, ())"
      using Cons.prems(3) by (intro moka.fresh_claims [OF moka]) (auto simp: replay_room_def)
    then have "now + TOTP_REPLAY_TTL \<le> fst (reqs ! k)"
      using claim_holds [OF assms(1) moka tx inv room _ _ _ run, of key now k] Cons.prems(4,7,9,11) k
      by (simp add: outs req)
    with 0 k show ?thesis by (simp add: req)
  next
    case (Suc m)
    with k Cons.IH [OF tx inv room _ run [folded outs(2)], of m k] Cons.prems show ?thesis by (simp add: outs)
  qed
qed simp

end
