(* ===== verification/Auth_Properties.thy ===== *)
theory Auth_Properties
  imports Auth_Service
begin

text \<open>
  What registration, login, rotation and logout guarantee, with a small concrete service on which
  the statements are evaluated.
\<close>

section \<open>A concrete service\<close>

definition demo_service_config :: dpop_config where
  "demo_service_config =
     \<lparr> public_url = ''https://api.test'', issuer = ''https://api.test'', audience = ''https://api.test'',
       clock_skew = from_secs 60, nonce_required = False, allowed_algs = [ES256, PS256],
       signer = Symmetric (EncodingKey ''k'') (DecodingKey ''k''),
       access_token_ttl = from_secs 900, refresh_token_ttl = from_secs 2592000,
       grace_period = from_secs 5, allow_registration = True, config_cookie = cookie_config_default \<rparr>"

definition demo_service :: auth_service where
  "demo_service = \<lparr> svc_config = demo_service_config, dummy_hash = ref_phc_prefix \<rparr>"

type_synonym demo_world =
  "((uuid \<times> string, replacement_tokens) ref_cache, (uuid \<times> string, unit) ref_cache) world"

definition demo_user :: user_row where
  "demo_user =
     \<lparr> u_id = 100, u_public_id = 101, u_password_hash = ref_phc_prefix @ ''pw'', u_name = ''Ann'',
       u_password_changed_at = None, u_totp_secret = None, u_totp_enabled = False,
       u_totp_enabled_at = None, u_totp_pending_secret = None, u_totp_pending_at = None,
       u_last_login_at = None, u_created_at = 0, u_updated_at = 0, u_deleted_at = None \<rparr>"

definition demo_identifier :: identifier_row where
  "demo_identifier =
     \<lparr> i_id = 102, i_user_id = 100, i_kind = ''email'', i_value = ''ann@x'', i_is_primary = True,
       i_verified_at = None, i_created_at = 0, i_updated_at = 0, i_deleted_at = None \<rparr>"

definition demo_hash :: string where
  "demo_hash = hash_token ref_lib ''s1''"

definition demo_row :: refresh_token_row where
  "demo_row =
     \<lparr> r_id = 103, r_user_id = 100, r_token_hash = demo_hash, r_fam = 0, r_dpop_jkt = ''jkt1'',
       r_user_agent = None, r_expires_at = int (from_secs 5000), r_revoked_at = None, r_created_at = 0 \<rparr>"

definition demo_tables :: tables where
  "demo_tables =
     \<lparr> users = [demo_user], identifiers = [demo_identifier], refresh_tokens = [demo_row],
       login_attempts = [], recovery_codes = [], outbox = [] \<rparr>"

definition demo_world :: "tables \<Rightarrow> demo_world" where
  "demo_world d =
     \<lparr> db = d, tx = Auto, session_settings = Map.empty, tx_settings = [], calls = 0, pg_draws = 200, w_draws = 1,
       grace_cache = cache_build ref_ops (from_secs 5) GRACE_CAPACITY,
       totp_replay_cache = create_totp_replay_cache ref_ops \<rparr>"

lemma demo_reliable: "reliable ref_lib"
  by (simp add: reliable_def)

lemma demo_world_simps [simp]:
  "db (demo_world d) = d" "tx (demo_world d) = Auto" "calls (demo_world d) = 0"
  "pg_draws (demo_world d) = 200" "w_draws (demo_world d) = 1"
  "grace_cache (demo_world d) = cache_build ref_ops (from_secs 5) GRACE_CAPACITY"
  "totp_replay_cache (demo_world d) = create_totp_replay_cache ref_ops"
  by (simp_all add: demo_world_def)

lemma demo_tables_simps [simp]:
  "users demo_tables = [demo_user]" "identifiers demo_tables = [demo_identifier]"
  "refresh_tokens demo_tables = [demo_row]" "login_attempts demo_tables = []"
  "recovery_codes demo_tables = []"
  by (simp_all add: demo_tables_def)

lemma demo_row_simps [simp]:
  "r_token_hash demo_row = demo_hash" "r_dpop_jkt demo_row = ''jkt1''" "active demo_row" "r_fam demo_row = 0"
  "r_user_id demo_row = 100" "r_expires_at demo_row = int (from_secs 5000)" "r_id demo_row = 103"
  by (simp_all add: demo_row_def active_def)

lemma demo_times [simp]: "from_secs 1000 < from_secs 5000" "\<not> from_secs 6000 < from_secs 5000"
  by (simp_all add: from_secs_def NANOS_PER_SEC_def)

definition demo_secret :: string where
  "demo_secret = ref_base64url_encode (replicate 32 (char_of (1 :: nat)))"

definition demo_access :: string where
  "demo_access =
     projr (ref_jwt_encode \<lparr> header_typ = Some ''JWT'', alg = HS256, jwk_member = None \<rparr>
       (claims_to_members (issued_claims ref_lib (from_secs 1000) 2 ''https://api.test'' ''https://api.test''
          (from_secs 900) (digits_of 101) ''jkt1'' [(''name'', JStr ''Ann'')]))
       (EncodingKey ''k''))"

lemma demo_access_issued:
  "issue_access_token ref_lib (from_secs 1000) 2 (signer demo_service_config) (issuer demo_service_config)
     (audience demo_service_config) (access_token_ttl demo_service_config) (uuid_to_string ref_lib (u_public_id demo_user))
     ''jkt1'' [(''name'', JStr (u_name demo_user))] = Ok demo_access"
  by (simp add: issue_access_token_Ok_iff demo_service_config_def demo_access_def demo_user_def)

lemma demo_expired: "from_secs 5000 \<le> from_secs 6000"
  by (simp add: from_secs_def)

lemma demo_service_simps [simp]:
  "svc_config demo_service = demo_service_config" "dummy_hash demo_service = ref_phc_prefix"
  by (simp_all add: demo_service_def)

lemma demo_user_simps [simp]:
  "u_id demo_user = 100" "u_deleted_at demo_user = None" "u_totp_enabled demo_user = False"
  "u_password_hash demo_user = ref_phc_prefix @ ''pw''"
  by (simp_all add: demo_user_def)

lemma demo_hash_fold [simp]: "hash_token ref_lib ''s1'' = demo_hash"
  by (simp add: demo_hash_def)

lemma demo_new_secret: "new_refresh_secret ref_lib (Suc 0) = Ok demo_secret"
  by (simp add: new_refresh_secret_def REFRESH_SECRET_LEN_def demo_secret_def)

section \<open>Calls that succeed\<close>

lemma create_refresh_token_succeeds:
  assumes "reliable L" and "\<not> is_aborted (tx w)" and "pg_text (p_token_hash p)" and "pg_text (p_dpop_jkt p)"
    and "list_all pg_text (opt_text (p_user_agent p))" and "char_count (p_dpop_jkt p) \<le> 64"
    and "pg_uuid L (pg_draws w) \<notin> r_id ` set (refresh_tokens (db w))"
    and "p_token_hash p \<notin> r_token_hash ` set (refresh_tokens (db w))"
    and "p_user_id p \<in> u_id ` set (users (db w))"
  shows "\<exists>row. create_refresh_token L now p w =
    (Ok row, w\<lparr>calls := calls w + 1, db := (db w)\<lparr>refresh_tokens := refresh_tokens (db w) @ [row]\<rparr>,
                pg_draws := pg_draws w + 1\<rparr>)"
  using assms by (simp add: create_refresh_token_def reliable_query Let_def)

lemma claimed_frame [simp]:
  "users (claimed now h d) = users d" "r_token_hash ` set (refresh_tokens (claimed now h d)) = r_token_hash ` set (refresh_tokens d)"
  "r_id ` set (refresh_tokens (claimed now h d)) = r_id ` set (refresh_tokens d)"
proof -
  have "map r_id (refresh_tokens (claimed now h d)) = map r_id (refresh_tokens d)"
    by (simp add: claimed_def revoke_rows_def table_simps)
  then show "r_id ` set (refresh_tokens (claimed now h d)) = r_id ` set (refresh_tokens d)"
    by (metis list.set_map)
qed (simp_all add: claimed_def)

lemma refresh_active_succeeds:
  assumes "reliable L" and "tx w = InTx D False" and "users (db w) = users D"
    and row: "int now < r_expires_at row" "r_dpop_jkt row = jkt"
    and user: "find (\<lambda>u. u_id u = r_user_id row \<and> u_deleted_at u = None) (users D) = Some user"
    and secret: "new_refresh_secret L (w_draws w) = Ok secret" "pg_text (hash_token L secret)"
      "hash_token L secret \<notin> r_token_hash ` set (refresh_tokens (db w))"
    and texts: "pg_text jkt" "char_count jkt \<le> 64" "list_all pg_text (opt_text ua)"
    and fresh_id: "pg_uuid L (pg_draws w) \<notin> r_id ` set (refresh_tokens (db w))"
    and access: "issue_access_token L now (w_draws w + 1) (signer cfg) (issuer cfg) (audience cfg) (access_token_ttl cfg)
        (uuid_to_string L (u_public_id user)) jkt [(''name'', JStr (u_name user))] = Ok access"
  shows "fst (refresh_active L G now cfg h row jkt ua w) = Ok (token_pair_of cfg access secret)"
proof -
  have "r_user_id row \<in> u_id ` set (users (db w))"
    using find_SomeD [OF user] assms(3) by (auto intro!: image_eqI [of _ u_id user])
  then obtain new where create: "create_refresh_token L (int now)
         \<lparr> p_user_id = r_user_id row, p_token_hash = hash_token L secret, p_fam = r_fam row,
           p_dpop_jkt = jkt, p_user_agent = ua, p_expires_at = r_expires_at row \<rparr>
         (w\<lparr>calls := Suc (calls w), w_draws := Suc (w_draws w)\<rparr>) =
      (Ok new, w\<lparr>calls := Suc (Suc (calls w)), w_draws := Suc (w_draws w),
                 db := (db w)\<lparr>refresh_tokens := refresh_tokens (db w) @ [new]\<rparr>, pg_draws := Suc (pg_draws w)\<rparr>)"
    using create_refresh_token_succeeds [OF assms(1), of "w\<lparr>calls := Suc (calls w), w_draws := Suc (w_draws w)\<rparr>"
        "\<lparr> p_user_id = r_user_id row, p_token_hash = hash_token L secret, p_fam = r_fam row,
           p_dpop_jkt = jkt, p_user_agent = ua, p_expires_at = r_expires_at row \<rparr>" "int now"]
      assms(2) secret texts fresh_id by auto
  show ?thesis
    using row user secret(1) access assms(1,2,3) create
    by (simp add: refresh_active_def act_bind_def act_map_err_def find_user_by_id_def reliable_read draw_def
        issue_user_token_def grace_insert_def reliable_commit)
qed

text \<open>A hash is text that the database accepts.\<close>

lemma hash_token_text: "hex_laws L \<Longrightarrow> pg_text (hash_token L s)"
  using hex_laws.hex_digits [of L "CHR 0x00" "sha256 L s"]
  by (auto simp: pg_text_def hash_token_def is_ascii_hexdigit_def)

lemma hd_ref_hash: "s \<noteq> [] \<Longrightarrow> hd (hash_token ref_lib s) = hex_digit (of_char (hd s) div 16)"
  by (cases s) (simp_all add: hash_token_def ref_sha256_def ref_hex_encode_def)

lemma demo_secret_hd: "hd (hash_token ref_lib demo_secret) \<noteq> hd demo_hash"
proof -
  have "replicate 32 c = c # c # c # replicate 29 c" for c :: char
    using replicate_add [of 3 29 c] by (simp add: numeral_3_eq_3)
  then have "demo_secret \<noteq> [] \<and> hd demo_secret = sextet 0"
    by (simp add: demo_secret_def)
  moreover have "hex_digit (of_char (sextet 0) div 16) = CHR ''4''" by code_simp
  ultimately have "demo_secret \<noteq> [] \<and> hex_digit (of_char (hd demo_secret) div 16) = CHR ''4''" by simp
  then have "hd (hash_token ref_lib demo_secret) = CHR ''4''" by (simp add: hd_ref_hash)
  moreover have "hex_digit (of_char CHR ''s'' div 16) = CHR ''7''" by code_simp
  then have "hd demo_hash = CHR ''7''" by (simp add: demo_hash_def hd_ref_hash del: demo_hash_fold)
  ultimately show ?thesis by simp
qed

lemma demo_secret_fresh: "hash_token ref_lib demo_secret \<noteq> demo_hash"
  using demo_secret_hd by auto

lemma demo_texts: "pg_text ''jkt1''" "char_count ''jkt1'' \<le> 64"
  by code_simp+

lemma refresh_rotates:
  assumes "reliable L" and "tx w = Auto" and "pg_text (hash_token L token)"
    and "distinct (map r_token_hash (refresh_tokens (db w)))"
    and old: "old \<in> set (refresh_tokens (db w))" "r_token_hash old = hash_token L token" "active old"
      "int now < r_expires_at old" "r_dpop_jkt old = jkt"
    and user: "find (\<lambda>u. u_id u = r_user_id old \<and> u_deleted_at u = None) (users (db w)) = Some user"
    and secret: "new_refresh_secret L (w_draws w) = Ok secret" "pg_text (hash_token L secret)"
      "hash_token L secret \<notin> r_token_hash ` set (refresh_tokens (db w))"
    and texts: "pg_text jkt" "char_count jkt \<le> 64" "list_all pg_text (opt_text ua)"
    and fresh_id: "pg_uuid L (pg_draws w) \<notin> r_id ` set (refresh_tokens (db w))"
    and access: "issue_access_token L now (w_draws w + 1) (signer (svc_config svc)) (issuer (svc_config svc))
        (audience (svc_config svc)) (access_token_ttl (svc_config svc))
        (uuid_to_string L (u_public_id user)) jkt [(''name'', JStr (u_name user))] = Ok access"
  shows "fst (refresh L G now svc token jkt ua w) = Ok (token_pair_of (svc_config svc) access secret)"
proof -
  let ?w = "w\<lparr>calls := calls w + 2, tx := InTx (db w) False, db := claimed now (hash_token L token) (db w)\<rparr>"
  have "fst (refresh_active L G now (svc_config svc) (hash_token L token) (old\<lparr>r_revoked_at := Some (int now)\<rparr>) jkt ua ?w) =
      Ok (token_pair_of (svc_config svc) access secret)"
    using old user secret texts fresh_id access
    by (intro refresh_active_succeeds [OF assms(1), where D = "db w" and user = user]) simp_all
  then show ?thesis
    by (simp add: refresh_claims_active [OF assms(1-4) old(1-3)] case_prod_beta)
qed

text \<open>A login with the right password. The outcome of the audit record does not matter.\<close>

lemma record_login_attempt_frame:
  assumes "tx w = Auto"
  shows "\<exists>w1. snd (record_login_attempt L t kind value ip ok reason w) = w1 \<and> tx w1 = Auto \<and> users (db w1) = users (db w) \<and>
    refresh_tokens (db w1) = refresh_tokens (db w) \<and> w_draws w1 = w_draws w \<and> pg_draws w \<le> pg_draws w1"
  using assms
  by (auto simp: record_login_attempt_def db_query_def Let_def split: option.splits res.splits)

lemma record_login_attempt_returns: "fst (record_login_attempt L t kind value ip ok reason w) \<noteq> Panic"
  by (auto simp: record_login_attempt_def db_query_def Let_def split: option.splits)

lemma authenticate_user_succeeds:
  assumes "reliable L" and "tx w = Auto" and "pg_text kind" "pg_text (to_lowercase L value)"
    and "user_by_identifier L kind (to_lowercase L value) (db w) = Some user"
    and "phc_parse L (u_password_hash user) = None" "argon2_verify L password (u_password_hash user)"
  shows "authenticate_user L now svc kind value password ip w =
    (Ok user, w\<lparr>calls := calls w + 1, w_draws := w_draws w + 1\<rparr>)"
proof -
  have "verify_password_async L i password (u_password_hash user) = Ok True" for i
    using assms(1,6,7) by (simp add: verify_password_async_Ok reliable_def)
  then show ?thesis
    using assms(1-5)
    by (simp add: authenticate_user_def act_bind_def act_map_err_def find_user_by_identifier_def reliable_read draw_def
        act_return_def Let_def)
qed

lemma issue_session_succeeds:
  assumes "reliable L" and "tx w = Auto" and "u_id user \<in> u_id ` set (users (db w))"
    and secret: "new_refresh_secret L (w_draws w) = Ok secret" "pg_text (hash_token L secret)"
      "hash_token L secret \<notin> r_token_hash ` set (refresh_tokens (db w))"
    and "refresh_expiry L now cfg = Some expires"
    and texts: "pg_text jkt" "char_count jkt \<le> 64" "list_all pg_text (opt_text ua)"
    and fresh_id: "pg_uuid L (pg_draws w) \<notin> r_id ` set (refresh_tokens (db w))"
    and access: "issue_access_token L now (w_draws w + 2) (signer cfg) (issuer cfg) (audience cfg) (access_token_ttl cfg)
        (uuid_to_string L (u_public_id user)) jkt [(''name'', JStr (u_name user))] = Ok access"
  shows "\<exists>w'. issue_session L now cfg user jkt ua w = (Ok (token_pair_of cfg access secret), w')"
proof -
  let ?w = "w\<lparr>w_draws := w_draws w + 2\<rparr>"
  let ?p = "\<lparr> p_user_id = u_id user, p_token_hash = hash_token L secret, p_fam = new_v4 L (w_draws w + 1),
      p_dpop_jkt = jkt, p_user_agent = ua, p_expires_at = expires \<rparr>"
  obtain row where "create_refresh_token L (int now) ?p ?w =
      (Ok row, ?w\<lparr>calls := calls ?w + 1, db := (db ?w)\<lparr>refresh_tokens := refresh_tokens (db ?w) @ [row]\<rparr>,
                   pg_draws := pg_draws ?w + 1\<rparr>)"
    using create_refresh_token_succeeds [OF assms(1), of ?w ?p "int now"] assms by auto
  then show ?thesis
    using assms
    by (simp add: issue_session_def new_family_def issue_user_token_def act_bind_def act_map_err_def draw_def act_lift_def
        act_return_def)
qed

lemma login_succeeds:
  assumes "reliable L" and "tx w = Auto" and kind: "pg_text kind" "pg_text (to_lowercase L value)"
    and user: "user_by_identifier L kind (to_lowercase L value) (db w) = Some user" "\<not> u_totp_enabled user"
    and password: "phc_parse L (u_password_hash user) = None" "argon2_verify L password (u_password_hash user)"
    and secret: "new_refresh_secret L (w_draws w + 1) = Ok secret" "pg_text (hash_token L secret)"
      "hash_token L secret \<notin> r_token_hash ` set (refresh_tokens (db w))"
    and expiry: "refresh_expiry L now (svc_config svc) = Some expires"
    and texts: "pg_text jkt" "char_count jkt \<le> 64" "list_all pg_text (opt_text ua)"
    and fresh_id: "\<And>n. pg_draws w \<le> n \<Longrightarrow> pg_uuid L n \<notin> r_id ` set (refresh_tokens (db w))"
    and access: "issue_access_token L now (w_draws w + 3) (signer (svc_config svc)) (issuer (svc_config svc))
        (audience (svc_config svc)) (access_token_ttl (svc_config svc))
        (uuid_to_string L (u_public_id user)) jkt [(''name'', JStr (u_name user))] = Ok access"
  shows "\<exists>w'. login L now svc kind value password jkt ip ua w = (Ok (Success (token_pair_of (svc_config svc) access secret)), w')"
proof -
  define w1 where "w1 = w\<lparr>calls := calls w + 2, w_draws := w_draws w + 1\<rparr>"
  have auth: "authenticate_user L now svc kind value password ip (w\<lparr>calls := calls w + 1\<rparr>) = (Ok user, w1)"
    using authenticate_user_succeeds [of L "w\<lparr>calls := calls w + 1\<rparr>"] assms by (simp add: w1_def)
  define w2 where "w2 = snd (update_last_login_at L (int now) (u_id user) w1)"
  have "map u_id (users (db w2)) = map u_id (users (db w))"
    using assms(1,2) by (simp add: w2_def w1_def update_last_login_at_def reliable_exec update_users_def table_simps)
  then have ids: "u_id ` set (users (db w2)) = u_id ` set (users (db w))" by (metis list.set_map)
  have w2: "update_last_login_at L (int now) (u_id user) w1 = (Ok (), w2)" "tx w2 = Auto" "w_draws w2 = w_draws w + 1"
    "refresh_tokens (db w2) = refresh_tokens (db w)" "pg_draws w2 = pg_draws w"
    using assms(1,2) by (simp_all add: w2_def w1_def update_last_login_at_def reliable_exec)
  obtain r w3 where rec: "record_login_attempt L (int now) kind value ip True None w2 = (r, w3)" by force
  have w3: "r \<noteq> Panic" "tx w3 = Auto" "w_draws w3 = w_draws w + 1" "u_id ` set (users (db w3)) = u_id ` set (users (db w))"
    "refresh_tokens (db w3) = refresh_tokens (db w)" "pg_draws w \<le> pg_draws w3"
    using record_login_attempt_frame [OF w2(2), of L "int now" kind "value" ip True None] w2(3-5) ids
      record_login_attempt_returns [of L "int now" kind "value" ip True None w2] rec by auto
  have "u_id user \<in> u_id ` set (users (db w))"
    using user(1) by (auto simp: user_by_identifier_def dest: find_SomeD)
  then have "\<exists>w'. issue_session L now (svc_config svc) user jkt ua w3 = (Ok (token_pair_of (svc_config svc) access secret), w')"
    using w3 secret expiry texts fresh_id access
    by (intro issue_session_succeeds [OF assms(1) w3(2)]) (simp_all add: numeral_3_eq_3)
  then obtain w' where "issue_session L now (svc_config svc) user jkt ua w3 = (Ok (token_pair_of (svc_config svc) access secret), w')"
    by blast
  then show ?thesis
    using auth w2(1) rec w3(1) user(2) assms(1,2)
    by (cases r) (simp_all add: login_def act_bind_def act_map_err_def acquire_def reliable_read act_ok_def act_return_def)
qed

section \<open>Properties\<close>

text \<open>C2. A refresh does one of four things. It rotates: the token presented was active, unexpired
  and bound to the key of the request, its user exists, it is revoked and one new token of the
  same family, user, key and expiry is stored, the pair returned is the new token with an access
  token for that key, and the pair is remembered for retries. It repeats: the token is known and
  revoked, and the pair remembered for it is returned again with no change. It detects a reuse:
  the token is known and revoked and no pair is remembered; the answer is \<open>Unauthorized\<close> and
  every token of the family is revoked. Otherwise it fails and leaves every table as it was, even
  when the store fails at any point or the call panics.\<close>

theorem refresh_contract:
  assumes "tx w = Auto"
  shows "case refresh L G now svc token jkt ua w of (r, w') \<Rightarrow>
    tx w' = Auto \<and>
    (case r of
       Ok pair \<Rightarrow>
         rotated L G now (svc_config svc) (hash_token L token) jkt ua pair (db w) (grace_cache w) (db w') (grace_cache w') \<or>
         repeated G now (hash_token L token) pair (db w) (grace_cache w) \<and> db w' = db w \<and> grace_cache w' = grace_cache w
     | Err e \<Rightarrow> db w' = db w \<or> e = Unauthorized \<and> reused G now (hash_token L token) (db w) (grace_cache w) (db w')
     | Panic \<Rightarrow> db w' = db w)"
  by (rule refresh_outcome [OF assms])

theorem refresh_contract_witness:
  "case refresh ref_lib ref_ops (from_secs 1000) demo_service ''s1'' ''jkt2'' None (demo_world demo_tables) of (r, w') \<Rightarrow>
    tx w' = Auto \<and> \<not> is_ok r \<and> db w' = demo_tables"
proof -
  have "\<not> rotated ref_lib ref_ops (from_secs 1000) demo_service_config demo_hash ''jkt2'' None pair demo_tables g D g'"
    "\<not> repeated ref_ops (from_secs 1000) demo_hash pair demo_tables g"
    "\<not> reused ref_ops (from_secs 1000) demo_hash demo_tables g D" for pair g D g'
    by (auto simp: rotated_def repeated_def reused_def)
  then show ?thesis
    using refresh_contract [of "demo_world demo_tables" ref_lib ref_ops "from_secs 1000" demo_service "''s1''" "''jkt2''" None]
    by (auto split: prod.splits res.splits)
qed

text \<open>C23. The owner of a refresh token gets a new pair: with an active, unexpired token, its key and
  an existing user, when the store answers and the new secret is not one already stored, a refresh
  returns the new secret with an access token.\<close>

theorem refresh_succeeds:
  assumes "reliable L" and "hex_laws L" and "tx w = Auto"
    and "distinct (map r_token_hash (refresh_tokens (db w)))"
    and old: "old \<in> set (refresh_tokens (db w))" "r_token_hash old = hash_token L token" "active old"
      "int now < r_expires_at old" "r_dpop_jkt old = jkt"
    and user: "find (\<lambda>u. u_id u = r_user_id old \<and> u_deleted_at u = None) (users (db w)) = Some user"
    and secret: "new_refresh_secret L (w_draws w) = Ok secret"
      "hash_token L secret \<notin> r_token_hash ` set (refresh_tokens (db w))"
    and texts: "pg_text jkt" "char_count jkt \<le> 64" "list_all pg_text (opt_text ua)"
    and fresh_id: "pg_uuid L (pg_draws w) \<notin> r_id ` set (refresh_tokens (db w))"
    and access: "issue_access_token L now (w_draws w + 1) (signer (svc_config svc)) (issuer (svc_config svc))
        (audience (svc_config svc)) (access_token_ttl (svc_config svc))
        (uuid_to_string L (u_public_id user)) jkt [(''name'', JStr (u_name user))] = Ok access"
  shows "fst (refresh L G now svc token jkt ua w) = Ok (token_pair_of (svc_config svc) access secret)"
  by (rule refresh_rotates [OF assms(1,3) hash_token_text [OF assms(2)] assms(4) old user secret(1)
        hash_token_text [OF assms(2)] secret(2) texts fresh_id access])

theorem refresh_succeeds_witness:
  "fst (refresh ref_lib ref_ops (from_secs 1000) demo_service ''s1'' ''jkt1'' None (demo_world demo_tables)) =
     Ok (token_pair_of demo_service_config demo_access demo_secret)"
  using refresh_succeeds [OF demo_reliable ref_hex.hex_laws_axioms, where w = "demo_world demo_tables" and
      old = demo_row and user = demo_user and secret = demo_secret and access = demo_access and
      svc = demo_service and token = "''s1''" and jkt = "''jkt1''" and ua = None and
      now = "from_secs 1000" and G = ref_ops]
    demo_secret_fresh demo_texts demo_access_issued
  by (simp add: demo_new_secret opt_text_def numeral_2_eq_2)

text \<open>A refresh token is worth nothing without its key, and nothing after its expiry: as long as
  it is active, a request with another key or too late gets no tokens and leaves the token as it
  was, so that the legitimate owner can still use it.\<close>

theorem refresh_needs_key_and_time:
  assumes "tx w = Auto" and "distinct (map r_token_hash (refresh_tokens (db w)))"
    and "old \<in> set (refresh_tokens (db w))" "r_token_hash old = hash_token L token" "active old"
    and "r_dpop_jkt old \<noteq> jkt \<or> r_expires_at old \<le> int now"
  shows "case refresh L G now svc token jkt ua w of (r, w') \<Rightarrow>
    (case r of Ok pair \<Rightarrow> False | _ \<Rightarrow> db w' = db w)"
proof -
  have uniq: "r = old" if "r \<in> set (refresh_tokens (db w))" "r_token_hash r = hash_token L token" for r
    using that assms(2-4) by (auto simp: distinct_map inj_on_def)
  have "\<not> rotated L G now cfg (hash_token L token) jkt ua pair (db w) g D' g'" for cfg pair g D' g'
    using uniq assms(6) by (auto simp: rotated_def)
  moreover have "\<not> repeated G now (hash_token L token) pair (db w) g" for pair g
    using uniq assms(5) by (auto simp: repeated_def)
  moreover have "\<not> reused G now (hash_token L token) (db w) g D'" for g D'
    using uniq assms(5) by (auto simp: reused_def)
  ultimately show ?thesis
    using refresh_outcome [OF assms(1), of L G now svc token jkt ua] by (auto split: res.splits prod.splits)
qed

theorem refresh_needs_key_and_time_witness:
  "case refresh ref_lib ref_ops (from_secs 6000) demo_service ''s1'' ''jkt1'' None (demo_world demo_tables) of (r, w') \<Rightarrow>
    (case r of Ok pair \<Rightarrow> False | _ \<Rightarrow> db w' = demo_tables)"
  using refresh_needs_key_and_time [of "demo_world demo_tables" demo_row ref_lib "''s1''" "''jkt1''" "from_secs 6000"
      ref_ops demo_service None]
  by (auto simp: demo_expired split: prod.splits res.splits)

text \<open>C24. Tokens are issued by a login only to the user with the identifier, whose password verifies
  and who has no second factor: then one refresh token is stored, for that user, for the key of
  the request and with the configured lifetime, and its hash is the hash of the secret returned.
  With a second factor the answer is \<open>Requires2fa\<close>, no token is stored and no table changes.\<close>

theorem login_contract:
  assumes "tx w = Auto"
  shows "case login L now svc kind value password jkt ip ua w of
      (Ok (Success pair), w') \<Rightarrow>
        (\<exists>user row. credentials_match L kind value password (db w) user \<and> \<not> u_totp_enabled user \<and>
           refresh_tokens (db w') = refresh_tokens (db w) @ [row] \<and>
           r_token_hash row = hash_token L (tp_refresh_token pair) \<and> r_user_id row = u_id user \<and>
           r_dpop_jkt row = jkt \<and> r_user_agent row = ua \<and> active row \<and>
           refresh_expiry L now (svc_config svc) = Some (r_expires_at row))
    | (Ok Requires2fa, w') \<Rightarrow>
        (\<exists>user. credentials_match L kind value password (db w) user \<and> u_totp_enabled user) \<and> db w' = db w
    | (Err e, w') \<Rightarrow> True
    | (Panic, w') \<Rightarrow> True"
proof -
  let ?D = "db w" and ?ts = "refresh_tokens (db w)"
  let ?Q = "\<lambda>out w'. case out of
      Success pair \<Rightarrow> \<exists>user row. credentials_match L kind value password ?D user \<and> \<not> u_totp_enabled user \<and>
           refresh_tokens (db w') = ?ts @ [row] \<and>
           r_token_hash row = hash_token L (tp_refresh_token pair) \<and> r_user_id row = u_id user \<and>
           r_dpop_jkt row = jkt \<and> r_user_agent row = ua \<and> active row \<and>
           refresh_expiry L now (svc_config svc) = Some (r_expires_at row)
    | Requires2fa \<Rightarrow> (\<exists>user. credentials_match L kind value password ?D user \<and> u_totp_enabled user) \<and> db w' = ?D"
  have "act_valid (\<lambda>w. tx w = Auto \<and> db w = ?D) (login L now svc kind value password jkt ip ua) ?Q (\<lambda>_ _. True)"
    by (rule login_valid)
  from act_validD [OF this, of w] assms show ?thesis
    by (auto split: prod.splits res.splits login_outcome.splits)
qed

theorem login_contract_witness:
  "\<not> (\<exists>pair w'. login ref_lib (from_secs 1000) demo_service ''email'' ''ann@x'' ''other'' ''jkt1'' ''ip'' None
       (demo_world demo_tables) = (Ok (Success pair), w'))"
proof -
  have "\<not> credentials_match ref_lib ''email'' ''ann@x'' ''other'' demo_tables user" for user
    by (auto simp: credentials_match_def user_by_identifier_def strip_prefix_Some_iff demo_identifier_def
        split: if_splits)
  then show ?thesis
    using login_contract [of "demo_world demo_tables" ref_lib "''email''" "''ann@x''" "''other''" "''jkt1''" None
        "from_secs 1000" demo_service "''ip''"]
    by (auto split: prod.splits res.splits login_outcome.splits)
qed

section \<open>From registration to login\<close>

lemma new_family_Ok:
  assumes "new_family L now cfg uid jkt ua w = (Ok rt, w')"
  shows "tx w' = tx w \<and> users (db w') = users (db w) \<and> identifiers (db w') = identifiers (db w) \<and>
    login_attempts (db w') = login_attempts (db w) \<and> pg_draws w \<le> pg_draws w'"
  using assms
  by (auto simp: new_family_def act_bind_Ok_iff act_map_err_Ok_iff draw_def create_refresh_token_def db_query_Ok_iff Let_def
      split: if_splits)

text \<open>The rows that a registration stores for its account.\<close>

definition account_stored :: "lib \<Rightarrow> register_params \<Rightarrow> string \<Rightarrow> user_row \<Rightarrow> tables \<Rightarrow> tables \<Rightarrow> bool" where
  "account_stored L params h user D D' \<longleftrightarrow>
     u_password_hash user = h \<and> u_name user = reg_name params \<and> \<not> u_totp_enabled user \<and> u_deleted_at user = None \<and>
     u_id user \<notin> u_id ` set (users D) \<and> users D' = users D @ [user] \<and>
     \<not> identifier_taken L (reg_kind params) (to_lowercase L (reg_value params)) D \<and>
     (\<exists>i. identifiers D' = identifiers D @ [i] \<and> i_user_id i = u_id user \<and> i_kind i = reg_kind params \<and>
        i_value i = to_lowercase L (reg_value params) \<and> i_deleted_at i = None)"

lemma register_tx_stores:
  assumes "reliable L" and "tx w = InTx D False" and "register_tx L now cfg params h w = (Ok (user, rt), w')"
    and audit: "\<And>n. pg_draws w \<le> n \<Longrightarrow> pg_uuid L n \<notin> l_id ` set (login_attempts (db w))"
  shows "tx w' = Auto \<and> u_public_id user = pg_uuid L (pg_draws w + 1) \<and>
    (\<exists>user'. account_stored L params h user' (db w) (db w') \<and> u_public_id user' = u_public_id user \<and> u_name user' = u_name user)"
proof -
  let ?v = "to_lowercase L (reg_value params)"
  obtain wc wd we wf wg i where steps:
    "create_user L (int now) (reg_name params) h (Some (int now)) w = (Ok user, wc)"
    "create_identifier L (int now) (u_id user) (reg_kind params) (reg_value params) True (Some (int now)) wc = (Ok i, wd)"
    "update_last_login_at L (int now) (u_id user) wd = (Ok (), we)"
    "new_family L now cfg (u_id user) (reg_jkt params) (reg_user_agent params) we = (Ok rt, wf)"
    "act_ok (record_login_attempt L (int now) (reg_kind params) (reg_value params) (reg_client_ip params) True None) wf =
       (Ok () :: (service_error, unit) res, wg)"
    "commit L wg = (Ok (), w')"
    using assms(3) by (auto simp: register_tx_def act_bind_Ok_iff act_map_err_Ok_iff)
  have c: "tx wc = tx w" "pg_draws w \<le> pg_draws wc" "db wc = (db w)\<lparr>users := users (db w) @ [user]\<rparr>" "u_password_hash user = h"
    "u_name user = reg_name params" "\<not> u_totp_enabled user" "u_deleted_at user = None" "u_id user \<notin> u_id ` set (users (db w))"
    "u_public_id user = pg_uuid L (pg_draws w + 1)"
    using steps(1) by (auto simp: create_user_def db_query_Ok_iff Let_def split: if_splits)
  have d: "tx wd = tx wc" "pg_draws wc \<le> pg_draws wd" "db wd = (db wc)\<lparr>identifiers := identifiers (db wc) @ [i]\<rparr>" "i_user_id i = u_id user"
    "i_kind i = reg_kind params" "i_value i = ?v" "i_deleted_at i = None" "\<not> identifier_taken L (reg_kind params) ?v (db wc)"
    "char_count (reg_kind params) \<le> 32" "char_count ?v \<le> 255" "pg_text (reg_kind params)" "pg_text ?v"
    using steps(2) by (auto simp: create_identifier_def db_query_Ok_iff Let_def split: if_splits)
  have e: "tx we = tx wd" "pg_draws we = pg_draws wd"
    "db we = update_users (int now) (\<lambda>u. u_id u = u_id user) (\<lambda>u. u\<lparr>u_last_login_at := Some (int now)\<rparr>) (db wd)"
    using steps(3) by (auto simp: update_last_login_at_def db_exec_def db_query_Ok_iff)
  note f = new_family_Ok [OF steps(4)]
  have "pg_uuid L (pg_draws wf) \<notin> l_id ` set (login_attempts (db wf))"
    using audit [of "pg_draws wf"] c(2,3) d(2,3) e(2,3) f by simp
  moreover have "tx wf = InTx D False" using assms(2) c(1) d(1) e(1) f by simp
  ultimately have g: "tx wg = InTx D False" "users (db wg) = users (db wf)" "identifiers (db wg) = identifiers (db wf)"
    using steps(5) d(9-12)
    by (auto simp: act_ok_def record_login_attempt_def reliable_query [OF assms(1)] Let_def split: prod.splits res.splits if_splits)
  then have h: "tx w' = Auto" "db w' = db wg"
    using steps(6) reliable_commit [OF assms(1), of wg] by auto
  let ?user = "user\<lparr>u_last_login_at := Some (int now), u_updated_at := int now\<rparr>"
  have "update_where (\<lambda>u. u_id u = u_id user) (\<lambda>u. u\<lparr>u_last_login_at := Some (int now), u_updated_at := int now\<rparr>) (users (db w)) = users (db w)"
    using c(8) by (intro update_where_none) (metis image_eqI)
  then have "users (db w') = users (db w) @ [?user]" "identifiers (db w') = identifiers (db w) @ [i]"
    using g f e(3) d(3) c(3) h by (simp_all add: update_users_def)
  moreover have "\<not> identifier_taken L (reg_kind params) ?v (db w)"
    using d(8) c(3) by (simp add: identifier_taken_def)
  ultimately have "account_stored L params h ?user (db w) (db w')"
    using c d by (simp add: account_stored_def)
  with h c show ?thesis by (intro conjI exI [of _ ?user]) simp_all
qed

lemma find_last_added: "(\<And>x. x \<in> set xs \<Longrightarrow> \<not> P x) \<Longrightarrow> P y \<Longrightarrow> find P (xs @ [y]) = Some y"
  by (induction xs) simp_all

lemma account_found:
  assumes "lowercase_laws L" and "account_stored L params h user D D'"
  shows "user_by_identifier L (reg_kind params) (to_lowercase L (reg_value params)) D' = Some user"
proof -
  let ?v = "to_lowercase L (reg_value params)"
  let ?P = "\<lambda>u. u_deleted_at u = None \<and> (\<exists>i\<in>set (identifiers D'). i_user_id i = u_id u \<and> i_kind i = reg_kind params \<and>
      pg_lower L (i_value i) = ?v \<and> i_deleted_at i = None)"
  note st = assms(2) [unfolded account_stored_def]
  have low: "pg_lower L ?v = ?v" by (rule lowercase_laws.pg_lower_lower [OF assms(1)])
  obtain i where i: "identifiers D' = identifiers D @ [i]" "i_user_id i = u_id user" "i_kind i = reg_kind params" "i_value i = ?v"
    "i_deleted_at i = None" using st by blast
  then have "?P user" using st low by auto
  moreover have "\<not> ?P u" if "u \<in> set (users D)" for u
  proof
    assume P: "?P u"
    have "u_id u \<noteq> u_id user" using that st by (metis image_eqI)
    with P i obtain j where "j \<in> set (identifiers D)" "i_kind j = reg_kind params" "pg_lower L (i_value j) = ?v" "i_deleted_at j = None"
      by auto
    then have "identifier_taken L (reg_kind params) ?v D" unfolding identifier_taken_def using low by metis
    with st show False by simp
  qed
  ultimately have "find ?P (users D') = Some user"
    using st find_last_added [of "users D" ?P user] by simp
  then show ?thesis by (simp add: user_by_identifier_def)
qed

text \<open>C25. Whoever registers can log in: when the store answers and the audit record of the registration has a
  fresh id, a registration that returned tokens stored the account, and a later login with the
  same identifier and password returns a new session for the same public id, for any key.\<close>

theorem registered_user_logs_in:
  assumes laws: "reliable L" "hex_laws L" "argon2_laws L" "lowercase_laws L" and w: "tx w = Auto"
    and reg: "register L t0 svc params w = (Ok pair, w1)"
    and audit: "\<And>n. pg_draws w \<le> n \<Longrightarrow> pg_uuid L n \<notin> l_id ` set (login_attempts (db w))"
    and texts: "pg_text (reg_kind params)" "pg_text (to_lowercase L (reg_value params))" "pg_text jkt" "char_count jkt \<le> 64"
      "list_all pg_text (opt_text ua)"
    and secret: "new_refresh_secret L (w_draws w1 + 1) = Ok secret" "hash_token L secret \<notin> r_token_hash ` set (refresh_tokens (db w1))"
    and expiry: "refresh_expiry L t1 (svc_config svc) = Some expires"
    and fresh_id: "\<And>n. pg_draws w1 \<le> n \<Longrightarrow> pg_uuid L n \<notin> r_id ` set (refresh_tokens (db w1))"
    and access: "issue_access_token L t1 (w_draws w1 + 3) (signer (svc_config svc)) (issuer (svc_config svc))
        (audience (svc_config svc)) (access_token_ttl (svc_config svc))
        (uuid_to_string L (pg_uuid L (pg_draws w + 1))) jkt [(''name'', JStr (reg_name params))] = Ok access"
  shows "fst (login L t1 svc (reg_kind params) (reg_value params) (reg_password params) jkt ip ua w1) =
    Ok (Success (token_pair_of (svc_config svc) access secret))"
proof -
  obtain h user rt wa wb where steps: "hash_password_async L (w_draws w) (reg_password params) = Ok h"
    "with_tx L (register_tx L t0 (svc_config svc) params h) (w\<lparr>w_draws := w_draws w + 1\<rparr>) = (Ok (user, rt), wb)"
    "tx w1 = tx wb" "db w1 = db wb"
    using reg by (auto simp: register_def Let_def act_bind_Ok_iff draw_def issue_user_token_def split: if_splits)
  let ?w = "w\<lparr>w_draws := w_draws w + 1, calls := calls w + 1, tx := InTx (db w) False\<rparr>"
  obtain wc where body: "register_tx L t0 (svc_config svc) params h ?w = (Ok (user, rt), wc)" "wb = drop_tx wc"
    using steps(2) w by (auto simp: reliable_with_tx [OF laws(1)] split: prod.splits)
  from register_tx_stores [OF laws(1) _ body(1), of "db w"] audit obtain user' where
    st: "tx wc = Auto" "account_stored L params h user' (db w) (db wc)" "u_public_id user' = pg_uuid L (pg_draws w + 1)"
    "u_name user' = u_name user" by auto
  then have w1: "tx w1 = Auto" "db w1 = db wc" using steps(3,4) body(2) by (simp_all add: drop_tx_Auto)
  have user: "user_by_identifier L (reg_kind params) (to_lowercase L (reg_value params)) (db w1) = Some user'"
    "\<not> u_totp_enabled user'" "u_password_hash user' = h" "u_name user' = reg_name params"
    using account_found [OF laws(4) st(2)] st(2) w1 by (simp_all add: account_stored_def)
  have "argon2_hash L (w_draws w) (reg_password params) = Inr h"
    using steps(1) by (auto simp: hash_password_async_def spawn_blocking_def hash_password_def split: option.splits)
  then have pw: "phc_parse L (u_password_hash user') = None" "argon2_verify L (reg_password params) (u_password_hash user')"
    using argon2_laws.hash_parses [OF laws(3)] argon2_laws.hash_verifies [OF laws(3)] user(3) by simp_all
  have "\<exists>w'. login L t1 svc (reg_kind params) (reg_value params) (reg_password params) jkt ip ua w1 =
      (Ok (Success (token_pair_of (svc_config svc) access secret)), w')"
    using access user(4) st(3)
    by (intro login_succeeds [OF laws(1) w1(1) texts(1,2) user(1,2) pw secret(1) hash_token_text [OF laws(2)] secret(2) expiry
          texts(3-5) fresh_id]) simp_all
  then show ?thesis by auto
qed

definition demo_registration :: register_params where
  "demo_registration =
     \<lparr> reg_kind = ''email'', reg_value = ''bob@x'', reg_password = ''pw'', reg_name = ''Bob'', reg_jkt = ''jkt1'',
       reg_client_ip = ''ip'', reg_user_agent = None \<rparr>"

lemma demo_lower: "map ascii_lower ''bob@x'' = ''bob@x''" by code_simp

lemma demo_registration_texts:
  "pg_text ''email''" "pg_text ''bob@x''" "char_count ''email'' \<le> 32" "char_count ''bob@x'' \<le> 255" "pg_text ''Bob''"
  "pg_text ''$argon2id$pw''"
  by code_simp+

lemma demo_month: "refresh_expiry ref_lib (from_secs 1000) demo_service_config = Some (int (from_secs 1000) + 2592000 * int NANOS_PER_SEC)"
proof -
  have "as_secs (from_secs 2592000) = 2592000"
    by (rule word_unat_eq_iff [THEN iffD2]) (use as_secs_from_secs [of 2592000] in simp)
  then show ?thesis
    by (simp add: refresh_expiry_def demo_service_config_def ref_chrono_max_def from_secs_def NANOS_PER_SEC_def)
qed

lemma demo_registers:
  "\<exists>pair w1. register ref_lib (from_secs 1000) demo_service demo_registration (demo_world empty_tables) = (Ok pair, w1) \<and>
     w_draws w1 = 5 \<and> pg_draws w1 = 205 \<and> map r_id (refresh_tokens (db w1)) = [203] \<and>
     map r_token_hash (refresh_tokens (db w1)) = [hash_token ref_lib (ref_base64url_encode (replicate 32 (char_of (2 :: nat))))]"
proof -
  have "allow_registration demo_service_config" "signer_encoding_key (signer demo_service_config) = EncodingKey ''k''"
    by (simp_all add: demo_service_config_def)
  then show ?thesis
  using demo_registration_texts demo_texts hash_token_text [OF ref_hex.hex_laws_axioms] demo_lower
  by (simp add: register_def register_tx_def demo_registration_def Let_def act_bind_def act_map_err_def act_ok_def draw_def
      hash_password_async_def spawn_blocking_def hash_password_def ref_phc_prefix_def reliable_with_tx [OF demo_reliable]
      create_user_def create_identifier_def update_last_login_at_def reliable_exec [OF demo_reliable] reliable_query [OF demo_reliable]
      new_family_def create_refresh_token_def record_login_attempt_def reliable_commit [OF demo_reliable] empty_tables_def
      identifier_taken_def primary_taken_def update_users_def new_refresh_secret_def REFRESH_SECRET_LEN_def demo_month opt_text_def
      issue_user_token_def drop_tx_def issue_access_token_def numeral_2_eq_2)
qed

lemma second_ref_hash: "s \<noteq> [] \<Longrightarrow> hash_token ref_lib s ! 1 = hex_digit (of_char (hd s) mod 16)"
  by (cases s) (simp_all add: hash_token_def ref_sha256_def ref_hex_encode_def)

lemma demo_secrets_differ:
  "hash_token ref_lib (ref_base64url_encode (replicate 32 (char_of (6 :: nat)))) \<noteq>
   hash_token ref_lib (ref_base64url_encode (replicate 32 (char_of (2 :: nat))))"
proof -
  have three: "replicate 32 c = c # c # c # replicate 29 c" for c :: char
    using replicate_add [of 3 29 c] by (simp add: numeral_3_eq_3)
  have "hash_token ref_lib (ref_base64url_encode (replicate 32 c)) ! 1 = hex_digit (of_char (sextet (of_char c div 4)) mod 16)" for c
    by (subst second_ref_hash) (simp_all add: three Let_def)
  moreover have "hex_digit (of_char (sextet (of_char (char_of (6 :: nat) :: char) div 4)) mod 16) \<noteq>
      hex_digit (of_char (sextet (of_char (char_of (2 :: nat) :: char) div 4)) mod 16)" by code_simp
  ultimately show ?thesis by metis
qed

theorem registered_user_logs_in_witness:
  "\<exists>pair w1 tokens. register ref_lib (from_secs 1000) demo_service demo_registration (demo_world empty_tables) = (Ok pair, w1) \<and>
     fst (login ref_lib (from_secs 1000) demo_service ''email'' ''bob@x'' ''pw'' ''jkt1'' ''ip'' None w1) = Ok (Success tokens)"
proof -
  obtain pair w1 where reg: "register ref_lib (from_secs 1000) demo_service demo_registration (demo_world empty_tables) = (Ok pair, w1)"
    "w_draws w1 = 5" "pg_draws w1 = 205" "map r_id (refresh_tokens (db w1)) = [203]"
    "map r_token_hash (refresh_tokens (db w1)) = [hash_token ref_lib (ref_base64url_encode (replicate 32 (char_of (2 :: nat))))]"
    using demo_registers by (elim exE conjE) (rule that)
  then have rows: "r_id ` set (refresh_tokens (db w1)) = {203}"
    "r_token_hash ` set (refresh_tokens (db w1)) = {hash_token ref_lib (ref_base64url_encode (replicate 32 (char_of (2 :: nat))))}"
    by (metis empty_set list.set_map list.simps(15))+
  obtain access where access: "issue_access_token ref_lib (from_secs 1000) (w_draws w1 + 3) (signer (svc_config demo_service))
      (issuer (svc_config demo_service)) (audience (svc_config demo_service)) (access_token_ttl (svc_config demo_service))
      (uuid_to_string ref_lib (pg_uuid ref_lib (pg_draws (demo_world empty_tables) + 1))) ''jkt1'' [(''name'', JStr (reg_name demo_registration))] = Ok access"
    by (simp add: issue_access_token_Ok_iff demo_service_config_def)
  have secret: "new_refresh_secret ref_lib (w_draws w1 + 1) = Ok (ref_base64url_encode (replicate 32 (char_of (6 :: nat))))"
    by (simp add: new_refresh_secret_def REFRESH_SECRET_LEN_def reg(2))
  have "fst (login ref_lib (from_secs 1000) demo_service (reg_kind demo_registration) (reg_value demo_registration)
      (reg_password demo_registration) ''jkt1'' ''ip'' None w1) =
    Ok (Success (token_pair_of (svc_config demo_service) access (ref_base64url_encode (replicate 32 (char_of (6 :: nat))))))"
    by (rule registered_user_logs_in [OF demo_reliable ref_hex.hex_laws_axioms ref_argon2.argon2_laws_axioms
          ref_lowercase.lowercase_laws_axioms _ reg(1) _ _ _ _ _ _ secret _ _ _ access])
      (use rows demo_secrets_differ demo_registration_texts demo_texts demo_lower demo_month reg(3) in
        \<open>simp_all add: demo_registration_def opt_text_def empty_tables_def\<close>)
  then show ?thesis using reg(1) by (auto simp: demo_registration_def)
qed

end
