(* ===== verification/Totp_Properties.thy ===== *)
theory Totp_Properties
  imports Service_Machine Auth_Properties
begin

text \<open>
  What the second factor guarantees: enrolment, the check of a code, the single use of recovery
  codes and the end of an enrolment, with a concrete service on which the statements are
  evaluated.
\<close>

section \<open>Looking up an account\<close>

lemma find_update_where:
  assumes "\<And>u. P u \<Longrightarrow> Q (f u) = Q u"
  shows "find Q (update_where P f us) = map_option (\<lambda>u. if P u then f u else u) (find Q us)"
  by (induction us) (auto simp: assms)

lemma user_of_update_users:
  assumes "\<And>u. u_id (f u) = u_id u" and "\<And>u. u_deleted_at (f u) = u_deleted_at u"
  shows "user_of uid (update_users now P f d) =
    map_option (\<lambda>u. if P u then (f u)\<lparr>u_updated_at := now\<rparr> else u) (user_of uid d)"
  unfolding user_of_def users_update_users by (rule find_update_where) (simp add: assms)

lemma user_of_use_codes [simp]: "user_of uid (use_codes now P d) = user_of uid d"
  by (simp add: user_of_def)

lemma user_of_enrolled:
  "user_of uid (enrolled L now uid' m codes d) =
     map_option (\<lambda>u. if drafted uid' u then (promote_draft now u)\<lparr>u_updated_at := now\<rparr> else u) (user_of uid d)"
proof -
  have "user_of uid (enrolled L now uid' m codes d) = user_of uid (update_users now (drafted uid') (promote_draft now) d)"
    by (simp add: user_of_def enrolled_def Let_def)
  then show ?thesis by (simp add: user_of_update_users promote_draft_def)
qed

text \<open>With one row per identifier, the draft of a user is the one of the row that is looked up.\<close>

lemma find_first:
  assumes "distinct (map u_id us)" and "u \<in> set us" and "P u" and "\<And>v. P v \<Longrightarrow> u_id v = u_id u"
  shows "find P us = Some u"
  using assms(1,2)
proof (induction us)
  case (Cons v us)
  show ?case
  proof (cases "v = u")
    case False
    with Cons.prems(1,2) have u: "u \<in> set us" "u_id v \<noteq> u_id u" by auto
    then have "\<not> P v" using assms(4) by blast
    with Cons.IH Cons.prems(1) u(1) assms(3,4) show ?thesis by simp
  qed (use assms(3) in simp)
qed simp

lemma draft_of_user:
  assumes "distinct (map u_id (users d))" and "user_of uid d = Some user"
  shows "draft_of now uid d = (if live_draft now uid user then u_totp_pending_secret user else None)"
proof -
  have user: "user \<in> set (users d)" "u_id user = uid" using user_of_Some [OF assms(2)] by simp_all
  have "find (live_draft now uid) (users d) = (if live_draft now uid user then Some user else None)"
  proof (cases "live_draft now uid user")
    case True
    have "find (live_draft now uid) (users d) = Some user"
      using True user by (intro find_first [OF assms(1)]) (auto simp: live_draft_def)
    with True show ?thesis by simp
  next
    case False
    have "u = user" if "u \<in> set (users d)" "u_id u = uid" for u
      using that user assms(1) by (auto simp: distinct_map inj_on_def)
    with False show ?thesis by (auto simp: find_None_iff live_draft_def)
  qed
  then show ?thesis by (simp add: draft_of_def)
qed

section \<open>Calls that succeed\<close>

lemma reliable_acquire: "reliable L \<Longrightarrow> \<not> is_aborted (tx w) \<Longrightarrow> acquire L w = (Ok (), w\<lparr>calls := calls w + 1\<rparr>)"
  by (simp add: acquire_def reliable_read)

lemma existing_user_succeeds:
  assumes "reliable L" and "tx w = Auto" and "user_of uid (db w) = Some user"
  shows "existing_user L uid w = (Ok user, w\<lparr>calls := calls w + 2\<rparr>)"
  using assms by (simp add: existing_user_def act_bind_def act_map_err_def reliable_acquire find_user_by_id_def
      reliable_read user_of_def)

lemma verify_totp_succeeds:
  assumes "reliable L" and "tx w = Auto" and "user_of uid (db w) = Some user" and "u_totp_enabled user"
    and "u_totp_secret user = Some secret" and "\<not> is_recovery_code code" and "verify_code L now secret code"
    and "fst (cache_or_insert R now (uid, trim code) () (totp_replay_cache w))"
  shows "fst (verify_2fa_code L R now uid code w) = Ok Totp"
proof -
  have "u_id user = uid" using user_of_Some [OF assms(3)] by simp
  with assms show ?thesis
    by (auto simp: verify_2fa_code_def act_bind_def existing_user_succeeds [OF assms(1-3)] verify_totp_once_def
        replay_claim_def split: prod.splits)
qed

text \<open>What the database must not object to when codes are stored: fresh identifiers, hashes that
  differ.\<close>

definition storable :: "lib \<Rightarrow> nat \<Rightarrow> string list \<Rightarrow> tables \<Rightarrow> bool" where
  "storable L m hashes D \<longleftrightarrow>
     distinct hashes \<and> distinct (map (\<lambda>i. pg_uuid L (m + i)) [0..<length hashes]) \<and>
     (\<forall>i<length hashes. pg_uuid L (m + i) \<notin> c_id ` set (recovery_codes D))"

lemma ids_new_code_rows: "map c_id (new_code_rows L now m uid hs) = map (\<lambda>i. pg_uuid L (m + i)) [0..<length hs]"
  by (rule nth_equalityI) (simp_all add: new_code_rows_def nth_enumerate_eq)

lemma c_ids_use_codes: "c_id ` set (recovery_codes (use_codes now P D)) = c_id ` set (recovery_codes D)"
proof -
  have "map c_id (recovery_codes (use_codes now P D)) = map c_id (recovery_codes D)"
    by (simp add: use_codes_def table_simps)
  then show ?thesis by (metis list.set_map)
qed

lemma create_codes_succeeds:
  assumes "reliable L" and "\<not> is_aborted (tx w)" and "list_all pg_text hs" and "storable L (pg_draws w) hs (db w)"
    and "\<forall>c\<in>set (recovery_codes (db w)). c_user_id c = uid \<longrightarrow> \<not> unused c" and "uid \<in> u_id ` set (users (db w))"
  shows "\<exists>k. create_recovery_codes L t uid hs w =
    (Ok (), w\<lparr>calls := k,
       db := (db w)\<lparr>recovery_codes := recovery_codes (db w) @ new_code_rows L t (pg_draws w) uid hs\<rparr>,
       pg_draws := pg_draws w + length hs\<rparr>)"
proof (cases "hs = []")
  case True
  then show ?thesis
    by (intro exI [of _ "calls w"]) (cases w, simp add: create_recovery_codes_def new_code_rows_def)
next
  case False
  let ?rows = "new_code_rows L t (pg_draws w) uid hs"
  have "distinct (map c_id ?rows)" using assms(4) by (simp add: ids_new_code_rows storable_def)
  moreover have "\<not> (\<exists>r\<in>set ?rows. c_id r \<in> c_id ` set (recovery_codes (db w)))"
  proof
    assume "\<exists>r\<in>set ?rows. c_id r \<in> c_id ` set (recovery_codes (db w))"
    then have "\<exists>x\<in>set (map c_id ?rows). x \<in> c_id ` set (recovery_codes (db w))" by simp
    with assms(4) show False unfolding ids_new_code_rows by (auto simp: storable_def)
  qed
  ultimately show ?thesis
    using False assms by (auto simp: create_recovery_codes_def reliable_query Let_def storable_def)
qed

lemma confirm_tx_succeeds:
  assumes "reliable L" and "tx w = InTx D False" and "db w = D"
    and short: "\<forall>u\<in>set (users D). drafted uid u \<longrightarrow> char_count (the (u_totp_pending_secret u)) \<le> 64"
    and "list_all pg_text (map (hash_recovery_code L) codes)"
    and "storable L (pg_draws w) (map (hash_recovery_code L) codes) D" and "uid \<in> u_id ` set (users D)"
  shows "case confirm_tx L now uid (map (hash_recovery_code L) codes) w of (r, w') \<Rightarrow>
    r = Ok () \<and> tx w' = Auto \<and> db w' = enrolled L (int now) uid (pg_draws w) codes D \<and>
    totp_replay_cache w' = totp_replay_cache w"
proof -
  let ?hs = "map (hash_recovery_code L) codes"
  let ?t = "int now"
  let ?D1 = "update_users ?t (drafted uid) (promote_draft ?t) D"
  let ?D2 = "use_codes ?t (\<lambda>c. c_user_id c = uid) ?D1"
  let ?w1 = "w\<lparr>calls := Suc (calls w), db := ?D1\<rparr>"
  let ?w2 = "w\<lparr>calls := Suc (Suc (calls w)), db := ?D2\<rparr>"
  have "\<not> (\<exists>u\<in>set (users (db w)). drafted uid u \<and> 64 < char_count (the (u_totp_pending_secret u)))"
    using short assms(3) by auto
  then have a: "activate_totp L ?t uid w = (Ok (), ?w1)"
    using assms(1,2,3) by (simp add: activate_totp_def reliable_query Let_def)
  have b: "invalidate_recovery_codes_for_user L ?t uid ?w1 = (Ok (), ?w2)"
    using assms(1,2) by (simp add: invalidate_recovery_codes_for_user_def reliable_exec)
  have "map u_id (users ?D2) = map u_id (users D)"
    by (simp add: users_update_users table_simps promote_draft_def)
  then have "u_id ` set (users ?D2) = u_id ` set (users D)" by (metis list.set_map)
  then obtain k where c: "create_recovery_codes L ?t uid ?hs ?w2 =
      (Ok (), ?w2\<lparr>calls := k,
         db := ?D2\<lparr>recovery_codes := recovery_codes ?D2 @ new_code_rows L ?t (pg_draws w) uid ?hs\<rparr>,
         pg_draws := pg_draws w + length ?hs\<rparr>)"
    using create_codes_succeeds [OF assms(1), of ?w2 ?hs uid ?t] assms(2,5-7) in_use_codes [of _ ?t "\<lambda>c. c_user_id c = uid" ?D1]
    by (auto simp: storable_def c_ids_use_codes)
  show ?thesis
    using assms(1,2) by (simp add: confirm_tx_def act_bind_def act_map_err_def a b c reliable_commit enrolled_def Let_def)
qed

lemma confirm_succeeds:
  assumes "reliable L" and "hex_laws L" and "tx w = Auto" and "distinct (map u_id (users (db w)))"
    and user: "user_of uid (db w) = Some user" "\<not> u_totp_enabled user" "live_draft (int now) uid user"
      "u_totp_pending_secret user = Some secret" "char_count secret \<le> 64"
    and "verify_code L now secret code" and codes: "generate_recovery_codes L (w_draws w) 10 = Ok codes"
      "storable L (pg_draws w) (map (hash_recovery_code L) codes) (db w)"
  shows "case confirm_2fa L now uid code w of (r, w') \<Rightarrow>
    r = Ok codes \<and> tx w' = Auto \<and> db w' = enrolled L (int now) uid (pg_draws w) codes (db w) \<and>
    totp_replay_cache w' = totp_replay_cache w"
proof -
  let ?hs = "map (hash_recovery_code L) codes"
  let ?w3 = "w\<lparr>calls := calls w + 3, w_draws := w_draws w + 1\<rparr>"
  let ?w4 = "?w3\<lparr>calls := 4 + calls w, tx := InTx (db w) False\<rparr>"
  have uid: "u_id user = uid" "user \<in> set (users (db w))" using user_of_Some [OF user(1)] by simp_all
  have "u = user" if "u \<in> set (users (db w))" "drafted uid u" for u
    using that uid assms(4) by (auto simp: distinct_map inj_on_def drafted_def)
  then have short: "\<forall>u\<in>set (users (db w)). drafted uid u \<longrightarrow> char_count (the (u_totp_pending_secret u)) \<le> 64"
    using user(4,5) by auto
  have texts: "list_all pg_text ?hs"
    by (simp add: list_all_iff hash_recovery_code_def hash_token_text [OF assms(2)])
  have tx: "case confirm_tx L now uid ?hs ?w4 of (r, w') \<Rightarrow>
    r = Ok () \<and> tx w' = Auto \<and> db w' = enrolled L (int now) uid (pg_draws w) codes (db w) \<and>
    totp_replay_cache w' = totp_replay_cache w"
    using confirm_tx_succeeds [OF assms(1), of ?w4 "db w" uid codes now] short texts codes(2) uid
    by (auto split: prod.splits)
  have "get_pending_totp_secret L (int now) uid (w\<lparr>calls := calls w + 2\<rparr>) = (Ok (Some secret), w\<lparr>calls := calls w + 3\<rparr>)"
    using draft_of_user [OF assms(4) user(1), of "int now"] user(3,4) assms(1,3)
    by (simp add: get_pending_totp_secret_def reliable_read draft_of_def)
  then show ?thesis
    using tx assms(1,3,10) user(2) codes(1) uid(1)
    by (auto simp: confirm_2fa_def act_bind_def act_map_err_def existing_user_succeeds [OF assms(1,3) user(1)] draw_def
        reliable_with_tx drop_tx_Auto split: prod.splits)
qed

section \<open>A concrete account\<close>

definition demo_2fa_user :: user_row where
  "demo_2fa_user = demo_user\<lparr>u_totp_secret := Some ''KEY'', u_totp_enabled := True\<rparr>"

definition demo_code :: string where
  "demo_code = ''ababa-babab-ababa-babab''"

definition demo_code_row :: recovery_code_row where
  "demo_code_row =
     \<lparr> c_id = 300, c_user_id = 100, c_code_hash = hash_recovery_code ref_lib demo_code, c_used_at = None, c_created_at = 0 \<rparr>"

definition demo_2fa_tables :: tables where
  "demo_2fa_tables = demo_tables\<lparr>users := [demo_2fa_user], recovery_codes := [demo_code_row]\<rparr>"

definition demo_draft_user :: user_row where
  "demo_draft_user = demo_user\<lparr>u_totp_pending_secret := Some ''KEY'', u_totp_pending_at := Some (int (from_secs 900))\<rparr>"

definition demo_draft_tables :: tables where
  "demo_draft_tables = demo_tables\<lparr>users := [demo_draft_user]\<rparr>"

lemma demo_2fa_simps [simp]:
  "users demo_2fa_tables = [demo_2fa_user]" "recovery_codes demo_2fa_tables = [demo_code_row]"
  "users demo_draft_tables = [demo_draft_user]" "recovery_codes demo_draft_tables = []"
  "u_id demo_2fa_user = 100" "u_totp_enabled demo_2fa_user" "u_totp_secret demo_2fa_user = Some ''KEY''"
  "u_id demo_draft_user = 100" "\<not> u_totp_enabled demo_draft_user" "u_totp_pending_secret demo_draft_user = Some ''KEY''"
  "u_totp_pending_at demo_draft_user = Some (int (from_secs 900))"
  "user_of 100 demo_2fa_tables = Some demo_2fa_user" "user_of 100 demo_draft_tables = Some demo_draft_user"
  by (simp_all add: demo_2fa_tables_def demo_draft_tables_def demo_2fa_user_def demo_draft_user_def user_of_def)

lemma demo_code_recognised: "is_recovery_code demo_code" "is_recovery_code '' ABABA-babab-ababa-babab''" "\<not> is_recovery_code ''KEY33''"
  by code_simp+

lemma demo_code_hash:
  "hash_recovery_code ref_lib '' ABABA-babab-ababa-babab'' = hash_recovery_code ref_lib demo_code"
proof -
  have "map ascii_lower (trim '' ABABA-babab-ababa-babab'') = map ascii_lower (trim demo_code)" by code_simp
  then show ?thesis by (simp add: hash_recovery_code_def)
qed

lemma demo_verifies: "verify_code ref_lib (from_secs 1000) ''KEY'' ''KEY33''"
proof -
  have "trim ''KEY33'' = ''KEY33''" "digits_of 33 = ''33''" by code_simp+
  then show ?thesis
    by (simp add: verify_code_def build_totp_def Let_def TOTP_STEP_def TOTP_SKEW_def from_secs_def NANOS_PER_SEC_def
        ref_totp_code_def image_iff) (rule exI [of _ 33], simp)
qed

section \<open>Properties\<close>



text \<open>C18. A recovery code works once. After it was accepted, no spelling of the same code is accepted
  for this user again from the state it left, at any later time and whatever the replay cache
  holds, and the open codes of every other user are untouched.\<close>

theorem recovery_code_single_use:
  assumes "tx w = Auto" and "verify_2fa_code L R now uid code w = (Ok RecoveryCode, w')"
    and "is_recovery_code code'" and "hash_recovery_code L code' = hash_recovery_code L code"
  shows "(\<forall>kind. fst (verify_2fa_code L R now' uid code' w') \<noteq> Ok kind) \<and>
    (\<forall>uid'. uid' \<noteq> uid \<longrightarrow> open_codes uid' (recovery_codes (db w')) = open_codes uid' (recovery_codes (db w)))"
proof -
  let ?P = "\<lambda>r. c_user_id r = uid \<and> c_code_hash r = hash_recovery_code L code"
  from act_validD(1) [OF verify_2fa_code_valid idleI [OF assms(1)] assms(2)]
  have w': "tx w' = Auto" "db w' = use_codes (int now) ?P (db w)"
    by (auto simp: verified_def idle_def)
  have none: "\<not> (unused row \<and> ?P row)" if "row \<in> set (recovery_codes (db w'))" for row
    using in_use_codes [of row "int now" ?P "db w"] that w'(2) by auto
  have "fst (verify_2fa_code L R now' uid code' w') \<noteq> Ok kind" for kind
  proof
    assume "fst (verify_2fa_code L R now' uid code' w') = Ok kind"
    then obtain w2 where "verify_2fa_code L R now' uid code' w' = (Ok kind, w2)" by (metis prod.collapse)
    from act_validD(1) [OF verify_2fa_code_valid idleI [OF w'(1)] this] none assms(3,4) show False
      by (cases kind) (auto simp: verified_def)
  qed
  moreover have "open_codes uid' (recovery_codes (db w')) = open_codes uid' (recovery_codes (db w))" if "uid' \<noteq> uid" for uid'
    using that unfolding w'(2) open_codes_use_codes by (auto simp: open_codes_def intro!: filter_cong)
  ultimately show ?thesis by blast
qed

lemma consume_succeeds:
  assumes "reliable L" and "tx w = Auto" and "user_of uid (db w) = Some user" and "u_totp_enabled user"
    and "is_recovery_code code" and "hex_laws L"
    and "row \<in> set (recovery_codes (db w))" "unused row" "c_user_id row = uid" "c_code_hash row = hash_recovery_code L code"
  shows "fst (verify_2fa_code L R now uid code w) = Ok RecoveryCode"
proof -
  let ?P = "\<lambda>c. (c_user_id c = uid \<and> c_code_hash c = hash_recovery_code L code) \<and> c_used_at c = None"
  have uid: "u_id user = uid" using user_of_Some [OF assms(3)] by simp
  have "find ?P (recovery_codes (db w)) \<noteq> None"
    using assms(7-10) by (auto simp: find_None_iff unused_def)
  then obtain c where "find ?P (recovery_codes (db w)) = Some c" by blast
  moreover have "pg_text (hash_recovery_code L code)"
    by (simp add: hash_recovery_code_def hash_token_text [OF assms(6)])
  ultimately show ?thesis
    using assms(1,2,4,5) uid
    by (simp add: verify_2fa_code_def act_bind_def act_map_err_def existing_user_succeeds [OF assms(1-3)]
        consume_recovery_code_def reliable_query Let_def)
qed

theorem recovery_code_single_use_witness:
  "\<exists>w'. verify_2fa_code ref_lib ref_ops (from_secs 1000) 100 demo_code (demo_world demo_2fa_tables) = (Ok RecoveryCode, w') \<and>
     (\<forall>kind. fst (verify_2fa_code ref_lib ref_ops (from_secs 2000) 100 '' ABABA-babab-ababa-babab'' w') \<noteq> Ok kind)"
proof -
  have "fst (verify_2fa_code ref_lib ref_ops (from_secs 1000) 100 demo_code (demo_world demo_2fa_tables)) = Ok RecoveryCode"
    by (rule consume_succeeds [OF demo_reliable, where user = demo_2fa_user and row = demo_code_row])
      (simp_all add: demo_code_recognised ref_hex.hex_laws_axioms demo_code_row_def unused_def)
  then obtain w' where w': "verify_2fa_code ref_lib ref_ops (from_secs 1000) 100 demo_code (demo_world demo_2fa_tables) =
      (Ok RecoveryCode, w')"
    by (metis prod.collapse)
  with recovery_code_single_use [OF _ w' demo_code_recognised(2) demo_code_hash, of "from_secs 2000"] show ?thesis
    by simp
qed

text \<open>C19. An enrolment is confirmed only by its owner's authenticator: codes are handed out only when
  the user exists and is not enrolled, has a draft at most ten minutes old, and the code presented
  verifies against that draft. Then the draft is the secret, the factor is on, every earlier code
  of the user is void, and exactly the hashes of the new codes are stored. Otherwise, whatever
  fails and even if the call panics, no table changes: activation and codes come together or not
  at all.\<close>

theorem confirm_contract:
  assumes "tx w = Auto"
  shows "case confirm_2fa L now uid code w of (r, w') \<Rightarrow>
    tx w' = Auto \<and> totp_replay_cache w' = totp_replay_cache w \<and>
    (case r of Ok codes \<Rightarrow> confirmed L now uid code (db w) codes (db w') | _ \<Rightarrow> db w' = db w)"
proof -
  obtain r w' where run: "confirm_2fa L now uid code w = (r, w')" by (cases "confirm_2fa L now uid code w")
  from act_validD [OF confirm_2fa_valid idleI [OF assms], of L now uid code] run show ?thesis
    by (cases r) (auto simp: idle_def)
qed

theorem confirm_contract_witness:
  "case confirm_2fa ref_lib (from_secs 6000) 100 ''KEY33'' (demo_world demo_draft_tables) of (r, w') \<Rightarrow>
     \<not> is_ok r \<and> db w' = demo_draft_tables"
proof -
  have "draft_of (int (from_secs 6000)) 100 demo_draft_tables = None"
    by (simp add: draft_of_def live_draft_def PENDING_TTL_def from_secs_def NANOS_PER_SEC_def)
  then have "\<not> confirmed ref_lib (from_secs 6000) 100 ''KEY33'' demo_draft_tables codes D'" for codes D'
    by (simp add: confirmed_def)
  then show ?thesis
    using confirm_contract [of "demo_world demo_draft_tables" ref_lib "from_secs 6000" 100 "''KEY33''"]
    by (auto split: prod.splits res.splits)
qed

text \<open>Enrolment works end to end. With a live draft and a code that verifies against it, when the
  store answers and the random codes are storable, a confirmation hands out ten codes of the
  advertised form, the user then has the factor with the secret of the draft, and every code
  handed out is accepted as a second factor.\<close>

theorem enrolment_completes:
  assumes "reliable L" and laws: "hex_laws L" "getrandom_laws L" and "tx w = Auto"
    and "distinct (map u_id (users (db w)))"
    and user: "user_of uid (db w) = Some user" "\<not> u_totp_enabled user" "live_draft (int now) uid user"
      "u_totp_pending_secret user = Some secret" "char_count secret \<le> 64"
    and "verify_code L now secret code" and rand: "getrandom L (w_draws w) 100 = Inr bs"
    and storable: "\<forall>codes. generate_recovery_codes L (w_draws w) 10 = Ok codes \<longrightarrow>
        storable L (pg_draws w) (map (hash_recovery_code L) codes) (db w)"
  shows "\<exists>codes w'. confirm_2fa L now uid code w = (Ok codes, w') \<and> length codes = 10 \<and>
    (\<exists>u. user_of uid (db w') = Some u \<and> u_totp_enabled u \<and> u_totp_secret u = Some secret) \<and>
    (\<forall>c\<in>set codes. recovery_code c \<and> (\<forall>R now'. fst (verify_2fa_code L R now' uid c w') = Ok RecoveryCode))"
proof -
  obtain codes where codes: "generate_recovery_codes L (w_draws w) 10 = Ok codes" "length codes = 10"
    "\<forall>c\<in>set codes. recovery_code c"
    using generate_recovery_codes_ok [OF laws, of "w_draws w" 10] rand by auto
  obtain r w' where run: "confirm_2fa L now uid code w = (r, w')" by (cases "confirm_2fa L now uid code w")
  have w': "r = Ok codes" "tx w' = Auto" "db w' = enrolled L (int now) uid (pg_draws w) codes (db w)"
    using confirm_succeeds [OF assms(1) laws(1) assms(4,5) user assms(11) codes(1)] storable codes(1) run by auto
  have drafted: "drafted uid user" using user user_of_Some [OF user(1)] by (simp add: drafted_def)
  let ?u = "(promote_draft (int now) user)\<lparr>u_updated_at := int now\<rparr>"
  have u: "user_of uid (db w') = Some ?u" "u_totp_enabled ?u" "u_totp_secret ?u = Some secret"
    using user drafted by (simp_all add: w'(3) user_of_enrolled promote_draft_def)
  have "fst (verify_2fa_code L R now' uid c w') = Ok RecoveryCode" if c: "c \<in> set codes" for R now' c
  proof -
    let ?rows = "new_code_rows L (int now) (pg_draws w) uid (map (hash_recovery_code L) codes)"
    have "hash_recovery_code L c \<in> set (map c_code_hash ?rows)" using c by simp
    then obtain row where row: "row \<in> set ?rows" "c_code_hash row = hash_recovery_code L c"
      by (auto simp del: hashes_new_code_rows simp: image_iff)
    then have "row \<in> set (recovery_codes (db w'))" by (simp add: w'(3) enrolled_def Let_def)
    moreover have "is_recovery_code c"
      using typed_code(2) [of c c "[]" "[]"] codes(3) c by (auto simp: recovery_code_def map_idI)
    ultimately show ?thesis
      using consume_succeeds [OF assms(1) w'(2) u(1,2) _ laws(1)] row(2) new_code_rows_fields [OF row(1)] by simp
  qed
  with run w'(1) codes u show ?thesis by auto
qed

text \<open>A source of randomness whose ten codes differ.\<close>

definition demo_bytes :: "nat \<Rightarrow> string" where
  "demo_bytes n = concat (map (\<lambda>k. replicate 10 (char_of k)) [0..<n div 10]) @ replicate (n mod 10) CHR 0x00"

definition demo_lib :: lib where
  "demo_lib = ref_lib\<lparr>getrandom := (\<lambda>i n. Inr (demo_bytes n))\<rparr>"

lemma demo_bytes_length: "length (demo_bytes n) = n"
  by (simp add: demo_bytes_def length_concat comp_def sum_list_triv)

lemma demo_lib_laws: "reliable demo_lib" "hex_laws demo_lib" "getrandom_laws demo_lib"
  by (auto simp: demo_lib_def reliable_def hex_laws_def getrandom_laws_def ref_hex_length demo_bytes_length dest: ref_hex_digits)

lemma as_chunks_concat:
  assumes "0 < n" and "\<forall>x\<in>set xs. length x = n"
  shows "as_chunks n (concat xs) = xs"
  using assms(2)
proof (induction xs)
  case Nil
  then show ?case using assms(1) by (simp add: as_chunks.simps)
next
  case (Cons x xs)
  then show ?case using assms(1) by (simp add: as_chunks.simps [of n "x @ concat xs"])
qed

definition demo_batch :: "string list" where
  "demo_batch =
     map (\<lambda>d. [CHR ''0'', d, CHR ''0'', d, CHR ''0'', CHR ''-'', d, CHR ''0'', d, CHR ''0'', d, CHR ''-'',
               CHR ''0'', d, CHR ''0'', d, CHR ''0'', CHR ''-'', d, CHR ''0'', d, CHR ''0'', d]) ''0123456789''"

definition demo_chunk :: "nat \<Rightarrow> (dpop_error, string) res" where
  "demo_chunk k = hyphenated (ref_hex_encode (replicate 10 (char_of k)))"

definition demo_code_hash_of :: "string \<Rightarrow> string" where
  "demo_code_hash_of c = ref_hex_encode (ref_sha256 (map ascii_lower (trim c)))"

lemma demo_batch_generated: "generate_recovery_codes demo_lib i 10 = Ok demo_batch"
proof -
  let ?chunks = "map (\<lambda>k. replicate 10 (char_of k)) [0..<10] :: string list"
  have ten: "[0..<10] = [0, 1, 2, 3, 4, 5, 6, 7, 8, 9 :: nat]" by (simp add: upt_rec)
  have "map demo_chunk [0, 1, 2, 3, 4, 5, 6, 7, 8, 9] = map Ok demo_batch"
    by code_simp
  then have "collect_results (map (\<lambda>chunk. hyphenated (ref_hex_encode chunk)) ?chunks) = (Ok demo_batch :: (dpop_error, string list) res)"
    unfolding collect_results_Ok_iff ten by (simp add: demo_chunk_def)
  moreover have "as_chunks 10 (demo_bytes 100) = ?chunks"
    unfolding demo_bytes_def using as_chunks_concat [of 10 ?chunks] by simp
  ultimately show ?thesis by (simp add: generate_recovery_codes_def demo_lib_def)
qed

lemma demo_batch_distinct: "distinct (map (hash_recovery_code demo_lib) demo_batch)"
proof -
  have "hash_recovery_code demo_lib = demo_code_hash_of"
    by (simp add: fun_eq_iff hash_recovery_code_def hash_token_def demo_lib_def demo_code_hash_of_def)
  moreover have "distinct (map demo_code_hash_of demo_batch)" by code_simp
  ultimately show ?thesis by simp
qed

lemma demo_verifies': "verify_code demo_lib (from_secs 1000) ''KEY'' ''KEY33''"
  using demo_verifies by (simp add: verify_code_def build_totp_def demo_lib_def)

lemma demo_draft_live: "live_draft (int (from_secs 1000)) 100 demo_draft_user"
  by (simp add: live_draft_def PENDING_TTL_def from_secs_def NANOS_PER_SEC_def demo_draft_user_def)

lemma demo_key_short: "char_count ''KEY'' \<le> 64"
  by code_simp

lemma demo_batch_storable: "storable demo_lib 200 (map (hash_recovery_code demo_lib) demo_batch) demo_draft_tables"
  using demo_batch_distinct by (simp add: storable_def) (simp add: demo_lib_def distinct_map inj_on_def)

theorem enrolment_completes_witness:
  "\<exists>codes w'. confirm_2fa demo_lib (from_secs 1000) 100 ''KEY33'' (demo_world demo_draft_tables) = (Ok codes, w') \<and>
     length codes = 10 \<and> (\<exists>u. user_of 100 (db w') = Some u \<and> u_totp_enabled u \<and> u_totp_secret u = Some ''KEY'')"
proof -
  show ?thesis
    using enrolment_completes [OF demo_lib_laws, of "demo_world demo_draft_tables" 100 demo_draft_user "from_secs 1000"
        "''KEY''" "''KEY33''"] demo_draft_live demo_key_short demo_batch_storable demo_verifies'
    by (fastforce simp: demo_batch_generated demo_lib_def [THEN arg_cong, of getrandom])
qed

text \<open>C20. The second factor is turned off only by someone who holds it: \<open>disable_2fa\<close> succeeds only
  after a code of the user was accepted, and then the user has no factor, no secret and no draft,
  and no open recovery code. If it fails, the factor stays on; the tables are as before, except
  that a recovery code which was accepted stays used when the database failed afterwards.\<close>

theorem disable_contract:
  assumes "tx w = Auto"
  shows "case disable_2fa L R now uid code w of (r, w') \<Rightarrow>
    tx w' = Auto \<and>
    (case r of
       Ok _ \<Rightarrow> (\<exists>kind D c. verified L R now uid code (db w) (totp_replay_cache w) kind D c) \<and>
         open_codes uid (recovery_codes (db w')) = [] \<and>
         (\<exists>u. user_of uid (db w') = Some u \<and> \<not> u_totp_enabled u \<and> u_totp_secret u = None \<and> u_totp_pending_secret u = None)
     | Err e \<Rightarrow> db w' = db w \<or>
         (\<exists>c. verified L R now uid code (db w) (totp_replay_cache w) RecoveryCode (db w') c)
     | Panic \<Rightarrow> False)"
proof -
  obtain r w' where run: "disable_2fa L R now uid code w = (r, w')" by (cases "disable_2fa L R now uid code w")
  note valid = act_validD [OF disable_2fa_valid idleI [OF assms], of L R now uid code]
  let ?c = "totp_replay_cache w"
  have off: "open_codes uid (recovery_codes (withdrawn t uid D1)) = [] \<and>
      (\<exists>u. user_of uid (withdrawn t uid D1) = Some u \<and> \<not> u_totp_enabled u \<and> u_totp_secret u = None \<and> u_totp_pending_secret u = None)"
    if v: "verified L R now uid code (db w) ?c kind D1 c'" for kind D1 c' t
  proof -
    from v obtain u where u: "user_of uid (db w) = Some u" "u_totp_enabled u" by (auto simp: verified_def)
    have "user_of uid D1 = Some u" using v u by (cases kind) (auto simp: verified_def)
    moreover have "u_id u = uid" "u_deleted_at u = None" using user_of_Some [OF u(1)] by simp_all
    ultimately have "user_of uid (withdrawn t uid D1) = Some ((clear_totp u)\<lparr>u_updated_at := t\<rparr>)"
      using u(2) by (simp add: withdrawn_def user_of_update_users clear_totp_def)
    moreover have "open_codes uid (recovery_codes (withdrawn t uid D1)) = []"
      unfolding withdrawn_def open_codes_use_codes by (simp add: open_codes_def filter_empty_conv)
    ultimately show ?thesis by (simp add: clear_totp_def)
  qed
  show ?thesis
  proof (cases r)
    case (Ok a)
    with valid(1) run obtain kind D1 c' where v: "verified L R now uid code (db w) ?c kind D1 c'"
      "idle (w_draws w) (withdrawn (int now) uid D1) c' w'" by auto
    then have "tx w' = Auto" "db w' = withdrawn (int now) uid D1" by (simp_all add: idle_def)
    with off [OF v(1)] v(1) run Ok show ?thesis by auto
  next
    case (Err e)
    with valid(2) run obtain D1 c' where D1: "idle (w_draws w) D1 c' w'"
      "D1 = db w \<or> (\<exists>kind. verified L R now uid code (db w) ?c kind D1 c')"
      by (auto simp: failed_def)
    have "D1 = db w" if "verified L R now uid code (db w) ?c Totp D1 c'"
      using that by (auto simp: verified_def)
    then have "D1 = db w \<or> verified L R now uid code (db w) ?c RecoveryCode D1 c'"
      using D1(2) by (metis second_factor_kind.exhaust)
    moreover have "tx w' = Auto" "db w' = D1" using D1(1) by (simp_all add: idle_def)
    ultimately show ?thesis unfolding run Err by auto
  next
    case Panic
    with valid(3) run show ?thesis by (auto simp: failed_def)
  qed
qed

theorem disable_contract_witness:
  "case disable_2fa ref_lib ref_ops (from_secs 1000) 100 ''KEY99'' (demo_world demo_2fa_tables) of (r, w') \<Rightarrow>
    (\<exists>e. r = Err e) \<and> db w' = demo_2fa_tables"
proof -
  have "\<not> verify_code ref_lib (from_secs 1000) ''KEY'' ''KEY99''"
  proof -
    have "trim ''KEY99'' = ''KEY99''" "digits_of 32 = ''32''" "digits_of 33 = ''33''" "digits_of 34 = ''34''" by code_simp+
    moreover from this have "''99'' \<noteq> digits_of x" if "x = 34 \<or> 32 \<le> x \<and> x < 34" for x
    proof -
      from that have "x = 32 \<or> x = 33 \<or> x = 34" by auto
      with \<open>digits_of 32 = _\<close> \<open>digits_of 33 = _\<close> \<open>digits_of 34 = _\<close> show ?thesis by auto
    qed
    ultimately show ?thesis
      by (auto simp: verify_code_def build_totp_def Let_def TOTP_STEP_def TOTP_SKEW_def from_secs_def NANOS_PER_SEC_def
          ref_totp_code_def image_iff)
  qed
  moreover have "\<not> is_recovery_code ''KEY99''" by code_simp
  ultimately have "\<not> verified ref_lib ref_ops (from_secs 1000) 100 ''KEY99'' demo_2fa_tables c kind D c'" for c kind D c'
    by (cases kind) (auto simp: verified_def)
  then show ?thesis
    using disable_contract [of "demo_world demo_2fa_tables" ref_lib ref_ops "from_secs 1000" 100 "''KEY99''"]
    by (auto split: prod.splits res.splits)
qed

text \<open>Reloading the enrolment page does not change the QR code: a second \<open>setup_2fa\<close> within ten
  minutes of the first returns the same secret and the same URL and changes no table.\<close>

theorem setup_resumes:
  assumes "totp_laws L code_at" and "reliable L" and "tx w = Auto" and "distinct (map u_id (users (db w)))"
    and first: "draft_of (int now) uid (db w) = None" "setup_2fa L now uid issuer_name account_name w = (Ok s, w')"
    and "now \<le> now'" and "int now' < int now + PENDING_TTL"
  shows "case setup_2fa L now' uid issuer_name account_name w' of (r, w'') \<Rightarrow> r = Ok s \<and> db w'' = db w'"
proof -
  from act_validD(1) [OF setup_2fa_valid idleI [OF assms(3)] first(2)] first(1) obtain i where
    w': "tx w' = Auto" "db w' = with_draft (int now) uid (secret_base32 s) (db w)"
    and gen: "generate_setup L i issuer_name account_name = Ok s"
    by (auto simp: idle_def)
  have user: "\<exists>user. user_of uid (db w) = Some user \<and> \<not> u_totp_enabled user"
    using first(2) assms(2,3)
    by (auto simp: setup_2fa_def act_bind_def existing_user_def act_map_err_def reliable_acquire find_user_by_id_def
        reliable_read user_of_def split: if_splits option.splits)
       (cases "find (\<lambda>u. u_id u = uid \<and> u_deleted_at u = None) (users (db w))"; simp split: if_splits)+
  then obtain user where user: "user_of uid (db w) = Some user" "\<not> u_totp_enabled user" by blast
  have uid: "u_id user = uid" "u_deleted_at user = None" using user_of_Some [OF user(1)] by simp_all
  let ?u = "user\<lparr>u_totp_pending_secret := Some (secret_base32 s), u_totp_pending_at := Some (int now), u_updated_at := int now\<rparr>"
  have u: "user_of uid (db w') = Some ?u"
    using user uid by (simp add: w'(2) with_draft_def user_of_update_users)
  have "distinct (map u_id (users (db w')))"
    using assms(4) by (simp add: w'(2) with_draft_def users_update_users table_simps)
  from draft_of_user [OF this u, of "int now'"] assms(7,8) user(2) uid
  have draft: "draft_of (int now') uid (db w') = Some (secret_base32 s)"
    by (simp add: live_draft_def)
  from gen have "secret_base32 s = secret_to_base32 L (secret_generate L i)"
    by (auto simp: generate_setup_def setup_from_secret_def build_totp_def res_bind_Ok_iff Let_def
        totp_laws.base32_round_trip [OF assms(1)] split: option.splits)
  with gen have again: "setup_from_secret L (secret_base32 s) issuer_name account_name = Ok s"
    by (simp add: generate_setup_def Let_def)
  have "get_pending_totp_secret L (int now') uid (w'\<lparr>calls := Suc (Suc (calls w'))\<rparr>) =
      (Ok (Some (secret_base32 s)), w'\<lparr>calls := calls w' + 3\<rparr>)"
    using draft assms(2) w'(1) by (simp add: get_pending_totp_secret_def reliable_read draft_of_def)
  with again user(2) show ?thesis
    by (simp add: setup_2fa_def act_bind_def act_map_err_def existing_user_succeeds [OF assms(2) w'(1) u])
qed

lemma demo_unclaimed: "fst (cache_or_insert ref_ops now k () (create_totp_replay_cache ref_ops))"
  by (simp add: create_totp_replay_cache_def ref_ops_def ref_or_insert_def ref_get_def ref_lookup_def)

lemma demo_setup:
  "\<exists>s w'. setup_2fa ref_lib (from_secs 1000) 100 ''acme'' ''alice'' (demo_world demo_tables) = (Ok s, w')"
proof -
  let ?s = "replicate 20 (char_of (1 :: nat)) :: string"
  have pending: "u_totp_pending_at demo_user = None" by (simp add: demo_user_def)
  have "pg_text ?s" by code_simp
  moreover have "user_of 100 demo_tables = Some demo_user" by (simp add: user_of_def)
  moreover have "\<exists>s. generate_setup ref_lib 1 ''acme'' ''alice'' = Ok s \<and> secret_base32 s = ?s"
    by (simp add: generate_setup_def setup_from_secret_def build_totp_def Let_def)
  ultimately show ?thesis
    by (auto simp: setup_2fa_def act_bind_def act_map_err_def existing_user_succeeds [OF demo_reliable]
        get_pending_totp_secret_def reliable_read [OF demo_reliable] live_draft_def draw_def pending
        set_pending_totp_secret_def reliable_exec [OF demo_reliable])
qed

theorem setup_resumes_witness:
  "\<exists>s w'. setup_2fa ref_lib (from_secs 1000) 100 ''acme'' ''alice'' (demo_world demo_tables) = (Ok s, w') \<and>
    (case setup_2fa ref_lib (from_secs 1100) 100 ''acme'' ''alice'' w' of (r, w'') \<Rightarrow> r = Ok s \<and> db w'' = db w')"
proof -
  obtain s w' where run: "setup_2fa ref_lib (from_secs 1000) 100 ''acme'' ''alice'' (demo_world demo_tables) = (Ok s, w')"
    using demo_setup by blast
  moreover have "draft_of (int (from_secs 1000)) 100 demo_tables = None"
    by (simp add: draft_of_def live_draft_def demo_user_def)
  ultimately show ?thesis
    using setup_resumes [OF ref_totp.totp_laws_axioms, of "demo_world demo_tables" "from_secs 1000" 100 "''acme''" "''alice''"
        s w' "from_secs 1100"] demo_reliable
    by (simp add: from_secs_def NANOS_PER_SEC_def PENDING_TTL_def)
qed

text \<open>The code that confirms an enrolment can be used once more: the confirmation does not enter
  it into the replay cache, so a login within the same window accepts it as a second factor.\<close>

theorem confirmed_code_replayable:
  assumes "reliable L" and laws: "hex_laws L" and "tx w = Auto" and "distinct (map u_id (users (db w)))"
    and user: "user_of uid (db w) = Some user" "\<not> u_totp_enabled user" "live_draft (int now) uid user"
      "u_totp_pending_secret user = Some secret" "char_count secret \<le> 64"
    and code: "verify_code L now secret code" "\<not> is_recovery_code code"
    and codes: "generate_recovery_codes L (w_draws w) 10 = Ok codes"
      "storable L (pg_draws w) (map (hash_recovery_code L) codes) (db w)"
    and fresh: "fst (cache_or_insert R now (uid, trim code) () (totp_replay_cache w))"
  shows "case confirm_2fa L now uid code w of (r, w') \<Rightarrow>
    r = Ok codes \<and> fst (verify_2fa_code L R now uid code w') = Ok Totp"
proof -
  obtain r w' where run: "confirm_2fa L now uid code w = (r, w')" by (cases "confirm_2fa L now uid code w")
  have w': "r = Ok codes" "tx w' = Auto" "db w' = enrolled L (int now) uid (pg_draws w) codes (db w)"
    "totp_replay_cache w' = totp_replay_cache w"
    using confirm_succeeds [OF assms(1,2,3,4) user code(1) codes] run by auto
  have drafted: "drafted uid user" using user user_of_Some [OF user(1)] by (simp add: drafted_def)
  let ?u = "(promote_draft (int now) user)\<lparr>u_updated_at := int now\<rparr>"
  have "user_of uid (db w') = Some ?u" "u_totp_enabled ?u" "u_totp_secret ?u = Some secret"
    using user drafted by (simp_all add: w'(3) user_of_enrolled promote_draft_def)
  from verify_totp_succeeds [OF assms(1) w'(2) this code(2,1)] fresh w'(1,4) run show ?thesis by simp
qed

theorem confirmed_code_replayable_witness:
  "case confirm_2fa demo_lib (from_secs 1000) 100 ''KEY33'' (demo_world demo_draft_tables) of (r, w') \<Rightarrow>
    r = Ok demo_batch \<and> fst (verify_2fa_code demo_lib ref_ops (from_secs 1000) 100 ''KEY33'' w') = Ok Totp"
  using confirmed_code_replayable [OF demo_lib_laws(1,2), of "demo_world demo_draft_tables" 100 demo_draft_user "from_secs 1000"
        "''KEY''" "''KEY33''" demo_batch ref_ops] demo_draft_live demo_key_short demo_batch_storable demo_verifies'
      demo_code_recognised(3) demo_unclaimed
  by (simp add: demo_batch_generated)

end
