(* ===== verification/Refresh_Race.thy ===== *)
theory Refresh_Race
  imports Auth_Properties
begin

text \<open>
  \<open>AuthService::refresh\<close> under concurrency: any number of refreshes, with sign-ins and sign-outs
  between them, whose statements interleave on one PostgreSQL server at its default isolation
  level, READ COMMITTED. \<open>Auth_Service\<close> runs one operation at a time; here a transaction is a
  sequence of steps that others may come between.

  What is assumed of the server is its documented behaviour for this table: a statement sees the
  rows committed when it starts; an \<open>UPDATE\<close> that meets a row locked by an open transaction waits
  for its end, reads the row again and leaves it alone when it no longer satisfies the condition;
  nothing a transaction wrote is visible to others before its \<open>COMMIT\<close>, after which its locks
  are gone. An \<open>UPDATE\<close> of a single row therefore takes effect when it has the lock. The grace
  cache is memory of the process: an insertion is visible at once and is not rolled back.
\<close>

section \<open>Requests and their steps\<close>

text \<open>How far a request has come in \<open>refresh\<close>; \<open>Revoking seen todo locked\<close> is the family
  \<open>UPDATE\<close> with the hashes of the rows it saw at its start, those it has still to lock and those
  it has.\<close>

datatype refresh_phase =
    Begun
  | Not_active
  | Claimed refresh_token_row
  | Prepared refresh_token_row refresh_token_row instant replacement_tokens
  | Reuse_found uuid
  | Revoking uuid "string list" "string list" "string list"
  | Rotated refresh_token_row refresh_token_row instant replacement_tokens
  | Repeated replacement_tokens
  | Reuse_answered uuid "string list"
  | Turned_away
  | Failed
  | Undone

record refresh_request =
  q_hash :: string
  q_jkt :: string
  q_user_agent :: "string option"
  q_begun :: instant
  q_phase :: refresh_phase

record 'g race =
  rc_now :: instant
  rc_draws :: nat
  rc_pg :: nat
  rc_db :: tables
  rc_grace :: 'g
  rc_requests :: "refresh_request list"

text \<open>The rows, by their hashes, that the open transaction of a request has locked or inserted.\<close>

definition held :: "refresh_request \<Rightarrow> string list" where
  "held q =
     (case q_phase q of
        Claimed old \<Rightarrow> [r_token_hash old]
      | Prepared old new t pair \<Rightarrow> [r_token_hash old, r_token_hash new]
      | Revoking fam seen todo locked \<Rightarrow> locked
      | _ \<Rightarrow> [])"

definition lockable :: "'g race \<Rightarrow> nat \<Rightarrow> string \<Rightarrow> bool" where
  "lockable s j h \<longleftrightarrow>
     list_all (\<lambda>i. i = j \<or> h \<notin> set (held (rc_requests s ! i))) [0..<length (rc_requests s)]"

definition set_phase :: "nat \<Rightarrow> refresh_phase \<Rightarrow> 'g race \<Rightarrow> 'g race" where
  "set_phase j p s = s\<lparr>rc_requests := (rc_requests s)[j := (rc_requests s ! j)\<lparr>q_phase := p\<rparr>]\<rparr>"

text \<open>The rows a condition of the table selects; \<open>None\<close> as the result of a step says that the
  step cannot be taken, because the request is elsewhere or has to wait.\<close>

definition active_row :: "string \<Rightarrow> refresh_token_row list \<Rightarrow> refresh_token_row option" where
  "active_row h ts = find (\<lambda>r. r_token_hash r = h \<and> r_revoked_at r = None) ts"

definition revoke_own :: "nat \<Rightarrow> 'g race \<Rightarrow> 'g race option" where
  "revoke_own j s =
     (case active_row (q_hash (rc_requests s ! j)) (refresh_tokens (rc_db s)) of
        None \<Rightarrow> Some (set_phase j Not_active s)
      | Some old \<Rightarrow>
          if lockable s j (r_token_hash old) then Some (set_phase j (Claimed old) s) else None)"

text \<open>What the table refuses of an \<open>INSERT\<close>: a text that PostgreSQL does not take, a thumbprint that is
  too long, an identifier or a hash that is there already.\<close>

definition row_refused :: "tables \<Rightarrow> refresh_token_row \<Rightarrow> bool" where
  "row_refused d row \<longleftrightarrow>
     \<not> list_all pg_text ([r_token_hash row, r_dpop_jkt row] @ opt_text (r_user_agent row)) \<or>
     64 < char_count (r_dpop_jkt row) \<or> r_id row \<in> r_id ` set (refresh_tokens d) \<or>
     r_token_hash row \<in> r_token_hash ` set (refresh_tokens d)"

definition insert_next ::
    "lib \<Rightarrow> 'g grace_ops \<Rightarrow> dpop_config \<Rightarrow> nat \<Rightarrow> refresh_token_row \<Rightarrow> 'g race \<Rightarrow> 'g race option" where
  "insert_next L G cfg j old s =
     (let q = rc_requests s ! j; now = rc_now s in
      if r_expires_at old \<le> int now then Some (set_phase j Turned_away s)
      else if r_dpop_jkt old \<noteq> q_jkt q then Some (set_phase j Turned_away s)
      else
      case find (\<lambda>u. u_id u = r_user_id old \<and> u_deleted_at u = None) (users (rc_db s)) of
        None \<Rightarrow> Some (set_phase j Turned_away s)
      | Some user \<Rightarrow>
          (case new_refresh_secret L (rc_draws s) of
             Ok secret \<Rightarrow>
               (let row = \<lparr> r_id = pg_uuid L (rc_pg s), r_user_id = r_user_id old,
                            r_token_hash = hash_token L secret, r_fam = r_fam old,
                            r_dpop_jkt = q_jkt q, r_user_agent = q_user_agent q,
                            r_expires_at = r_expires_at old, r_revoked_at = None,
                            r_created_at = int (q_begun q) \<rparr> in
                if row_refused (rc_db s) row \<or> \<not> lockable s j (r_token_hash row)
                then Some (set_phase j Failed s)
                else
                case issue_access_token L now (rc_draws s + 1) (signer cfg) (issuer cfg) (audience cfg)
                   (access_token_ttl cfg) (uuid_to_string L (u_public_id user)) (q_jkt q)
                   [(''name'', JStr (u_name user))] of
                  Ok access \<Rightarrow>
                    (let pair = \<lparr> rt_access_token = access, rt_refresh_token = secret,
                                  rt_expires_in = as_secs (access_token_ttl cfg) \<rparr>
                     in Some (set_phase j (Prepared old row now pair)
                          (s\<lparr>rc_draws := rc_draws s + 2, rc_pg := rc_pg s + 1,
                             rc_grace := cache_insert G now (r_fam old, q_hash q) pair (rc_grace s)\<rparr>)))
                | _ \<Rightarrow> Some (set_phase j Failed s))
           | _ \<Rightarrow> Some (set_phase j Failed s)))"

definition commit_next :: "nat \<Rightarrow> refresh_token_row \<Rightarrow> refresh_token_row \<Rightarrow> instant \<Rightarrow> replacement_tokens \<Rightarrow>
    'g race \<Rightarrow> 'g race option" where
  "commit_next j old new t pair s =
     Some (set_phase j (Rotated old new t pair)
       (s\<lparr>rc_db := (rc_db s)\<lparr>refresh_tokens :=
            revoke_rows (int (q_begun (rc_requests s ! j))) (\<lambda>r. r_token_hash r = r_token_hash old)
              (refresh_tokens (rc_db s)) @ [new]\<rparr>\<rparr>))"

definition find_used :: "'g grace_ops \<Rightarrow> nat \<Rightarrow> 'g race \<Rightarrow> 'g race option" where
  "find_used G j s =
     (let h = q_hash (rc_requests s ! j) in
      case find (\<lambda>r. r_token_hash r = h) (refresh_tokens (rc_db s)) of
        None \<Rightarrow> Some (set_phase j Turned_away s)
      | Some existing \<Rightarrow>
          (case cache_get G (rc_now s) (r_fam existing, h) (rc_grace s) of
             Some cached \<Rightarrow> Some (set_phase j (Repeated cached) s)
           | None \<Rightarrow> Some (set_phase j (Reuse_found (r_fam existing)) s)))"

definition revoke_family :: "nat \<Rightarrow> uuid \<Rightarrow> 'g race \<Rightarrow> 'g race option" where
  "revoke_family j fam s =
     (let seen = map r_token_hash (active_in fam (refresh_tokens (rc_db s)))
      in Some (set_phase j (Revoking fam seen seen []) s))"

definition lock_row :: "nat \<Rightarrow> uuid \<Rightarrow> string list \<Rightarrow> string list \<Rightarrow> string list \<Rightarrow> string \<Rightarrow>
    'g race \<Rightarrow> 'g race option" where
  "lock_row j fam seen todo locked h s =
     (if h \<in> set todo \<and> lockable s j h
      then Some (set_phase j (Revoking fam seen (removeAll h todo)
             (if active_row h (refresh_tokens (rc_db s)) = None then locked else h # locked)) s)
      else None)"

definition commit_revoked :: "nat \<Rightarrow> uuid \<Rightarrow> string list \<Rightarrow> string list \<Rightarrow> 'g race \<Rightarrow> 'g race option" where
  "commit_revoked j fam seen locked s =
     Some (set_phase j (Reuse_answered fam seen)
       (s\<lparr>rc_db := revoke_where (int (q_begun (rc_requests s ! j)))
                     (\<lambda>r. r_token_hash r \<in> set locked) (rc_db s)\<rparr>))"

text \<open>A failed statement or commit, or a request that is cancelled: its transaction is rolled
  back. A cache entry that was written stays.\<close>

definition give_up :: "nat \<Rightarrow> 'g race \<Rightarrow> 'g race option" where
  "give_up j s =
     (case q_phase (rc_requests s ! j) of
        Prepared old new t pair \<Rightarrow> Some (set_phase j Undone s)
      | Rotated old new t pair \<Rightarrow> None | Repeated pair \<Rightarrow> None | Reuse_answered fam seen \<Rightarrow> None
      | Turned_away \<Rightarrow> None | Failed \<Rightarrow> None | Undone \<Rightarrow> None
      | _ \<Rightarrow> Some (set_phase j Failed s))"

text \<open>The other operations on the table: the single \<open>UPDATE\<close> of a logout, and the row that a
  login or a registration inserts.\<close>

definition sign_out :: "string \<Rightarrow> 'g race \<Rightarrow> 'g race option" where
  "sign_out h s =
     (case active_row h (refresh_tokens (rc_db s)) of
        None \<Rightarrow> Some s
      | Some r \<Rightarrow>
          if lockable s (length (rc_requests s)) h
          then Some (s\<lparr>rc_db := revoke_where (int (rc_now s)) (\<lambda>r. r_token_hash r = h) (rc_db s)\<rparr>)
          else None)"

definition sign_in :: "lib \<Rightarrow> dpop_config \<Rightarrow> uuid \<Rightarrow> string \<Rightarrow> string option \<Rightarrow> 'g race \<Rightarrow> 'g race option" where
  "sign_in L cfg uid jkt ua s =
     (case (new_refresh_secret L (rc_draws s), refresh_expiry L (rc_now s) cfg) of
        (Ok secret, Some expires_at) \<Rightarrow>
          (let row = \<lparr> r_id = pg_uuid L (rc_pg s), r_user_id = uid, r_token_hash = hash_token L secret,
                       r_fam = new_v4 L (rc_draws s + 1), r_dpop_jkt = jkt, r_user_agent = ua,
                       r_expires_at = expires_at, r_revoked_at = None, r_created_at = int (rc_now s) \<rparr> in
           if r_token_hash row \<in> r_token_hash ` set (refresh_tokens (rc_db s)) \<or>
              \<not> lockable s (length (rc_requests s)) (r_token_hash row)
           then None
           else Some (s\<lparr>rc_draws := rc_draws s + 2, rc_pg := rc_pg s + 1,
                        rc_db := (rc_db s)\<lparr>refresh_tokens := refresh_tokens (rc_db s) @ [row]\<rparr>\<rparr>))
      | _ \<Rightarrow> None)"

definition arrive :: "string \<Rightarrow> string \<Rightarrow> string option \<Rightarrow> 'g race \<Rightarrow> 'g race" where
  "arrive h jkt ua s =
     s\<lparr>rc_requests := rc_requests s @
        [\<lparr> q_hash = h, q_jkt = jkt, q_user_agent = ua, q_begun = rc_now s, q_phase = Begun \<rparr>]\<rparr>"

datatype race_event =
    Clock instant
  | Arrive string string "string option"
  | Advance nat
  | Lock_row nat string
  | Drop_request nat
  | Sign_out string
  | Sign_in uuid string "string option"

text \<open>The next statement of a request.\<close>

definition advance :: "lib \<Rightarrow> 'g grace_ops \<Rightarrow> dpop_config \<Rightarrow> nat \<Rightarrow> 'g race \<Rightarrow> 'g race option" where
  "advance L G cfg j s =
     (case q_phase (rc_requests s ! j) of
        Begun \<Rightarrow> revoke_own j s
      | Not_active \<Rightarrow> find_used G j s
      | Claimed old \<Rightarrow> insert_next L G cfg j old s
      | Prepared old new t pair \<Rightarrow> commit_next j old new t pair s
      | Reuse_found fam \<Rightarrow> revoke_family j fam s
      | Revoking fam seen todo locked \<Rightarrow> (if todo = [] then commit_revoked j fam seen locked s else None)
      | _ \<Rightarrow> None)"

fun fire :: "lib \<Rightarrow> 'g grace_ops \<Rightarrow> dpop_config \<Rightarrow> race_event \<Rightarrow> 'g race \<Rightarrow> 'g race option" where
  "fire L G cfg (Clock t) s = (if rc_now s \<le> t then Some (s\<lparr>rc_now := t\<rparr>) else None)"
| "fire L G cfg (Arrive h jkt ua) s = Some (arrive h jkt ua s)"
| "fire L G cfg (Advance j) s = (if j < length (rc_requests s) then advance L G cfg j s else None)"
| "fire L G cfg (Lock_row j h) s =
     (if j < length (rc_requests s) then
        (case q_phase (rc_requests s ! j) of
           Revoking fam seen todo locked \<Rightarrow> lock_row j fam seen todo locked h s
         | _ \<Rightarrow> None)
      else None)"
| "fire L G cfg (Drop_request j) s = (if j < length (rc_requests s) then give_up j s else None)"
| "fire L G cfg (Sign_out h) s = sign_out h s"
| "fire L G cfg (Sign_in uid jkt ua) s = sign_in L cfg uid jkt ua s"

fun_cases fire_AdvanceE: "fire L G cfg (Advance j) s = Some s'"

inductive race_step :: "lib \<Rightarrow> 'g grace_ops \<Rightarrow> dpop_config \<Rightarrow> 'g race \<Rightarrow> 'g race \<Rightarrow> bool" for L G cfg where
  fired: "fire L G cfg e s = Some s' \<Longrightarrow> race_step L G cfg s s'"

inductive_simps race_step_iff: "race_step L G cfg s s'"

text \<open>Any consistent table may be there at the start.\<close>

definition race_view :: "'g race \<Rightarrow> token_view" where
  "race_view s = (rc_draws s, refresh_tokens (rc_db s))"

definition race_init :: "lib \<Rightarrow> 'g grace_ops \<Rightarrow> dpop_config \<Rightarrow> 'g race \<Rightarrow> bool" where
  "race_init L G cfg s \<longleftrightarrow>
     rc_requests s = [] \<and> family_inv L (race_view s) \<and>
     rc_grace s = cache_build G (grace_period cfg) GRACE_CAPACITY"

section \<open>What holds in every interleaving\<close>

text \<open>A token that is there and has been revoked.\<close>

definition settled :: "refresh_token_row list \<Rightarrow> string \<Rightarrow> bool" where
  "settled ts h \<longleftrightarrow>
     h \<in> r_token_hash ` set ts \<and> (\<forall>r\<in>set ts. r_token_hash r = h \<longrightarrow> \<not> active r)"

definition phase_ok :: "refresh_token_row list \<Rightarrow> refresh_request \<Rightarrow> bool" where
  "phase_ok ts q \<longleftrightarrow>
     (case q_phase q of
        Claimed old \<Rightarrow> old \<in> set ts \<and> active old \<and> r_token_hash old = q_hash q
      | Prepared old new t pair \<Rightarrow>
          old \<in> set ts \<and> active old \<and> r_token_hash old = q_hash q \<and>
          same_session old new \<and> active new \<and> r_token_hash new \<notin> r_token_hash ` set ts
      | Revoking fam seen todo locked \<Rightarrow>
          (\<forall>h\<in>set seen. h \<in> r_token_hash ` set ts \<and> (h \<in> set todo \<or> h \<in> set locked \<or> settled ts h))
      | Rotated old new t pair \<Rightarrow>
          r_token_hash old = q_hash q \<and> settled ts (q_hash q) \<and>
          (\<forall>r\<in>set ts. r_token_hash r = q_hash q \<longrightarrow> r_fam r = r_fam old)
      | Reuse_answered fam seen \<Rightarrow> (\<forall>h\<in>set seen. settled ts h)
      | _ \<Rightarrow> True)"

definition is_rotated :: "refresh_request \<Rightarrow> bool" where
  "is_rotated q \<longleftrightarrow> (case q_phase q of Rotated old new t pair \<Rightarrow> True | _ \<Rightarrow> False)"

definition apart :: "refresh_request \<Rightarrow> refresh_request \<Rightarrow> bool" where
  "apart q p \<longleftrightarrow> set (held q) \<inter> set (held p) = {} \<and> (is_rotated q \<and> is_rotated p \<longrightarrow> q_hash q \<noteq> q_hash p)"

definition requests_ok :: "refresh_token_row list \<Rightarrow> refresh_request list \<Rightarrow> bool" where
  "requests_ok ts qs \<longleftrightarrow>
     (\<forall>i<length qs. phase_ok ts (qs ! i) \<and> (\<forall>j<length qs. i \<noteq> j \<longrightarrow> apart (qs ! i) (qs ! j)))"

lemma apart_sym: "apart q p \<longleftrightarrow> apart p q"
  by (auto simp: apart_def)

lemma set_phase_simps [simp]:
  "rc_now (set_phase j p s) = rc_now s" "rc_draws (set_phase j p s) = rc_draws s"
  "rc_db (set_phase j p s) = rc_db s" "rc_grace (set_phase j p s) = rc_grace s"
  "rc_requests (set_phase j p s) = (rc_requests s)[j := (rc_requests s ! j)\<lparr>q_phase := p\<rparr>]"
  by (simp_all add: set_phase_def)

lemma active_row_Some: "active_row h ts = Some r \<Longrightarrow> r \<in> set ts \<and> active r \<and> r_token_hash r = h"
  by (auto simp: active_row_def active_def dest: find_SomeD)

lemma active_row_None: "active_row h ts = None \<Longrightarrow> r \<in> set ts \<Longrightarrow> r_token_hash r = h \<Longrightarrow> \<not> active r"
  by (auto simp: active_row_def active_def find_None_iff)

lemma lockable_not_held:
  "lockable s j h \<Longrightarrow> i < length (rc_requests s) \<Longrightarrow> i \<noteq> j \<Longrightarrow> h \<notin> set (held (rc_requests s ! i))"
  by (auto simp: lockable_def list_all_iff)

lemma settled_revoke: "settled ts h \<Longrightarrow> settled (revoke_rows now P ts) h"
  unfolding settled_def hash_set_revoke_rows
  by (auto simp: revoke_rows_def in_update_where active_def)

lemma settled_append: "settled ts h \<Longrightarrow> r_token_hash row \<notin> r_token_hash ` set ts \<Longrightarrow> settled (ts @ [row]) h"
  by (auto simp: settled_def)

lemma settled_revoked:
  "h \<in> r_token_hash ` set ts \<Longrightarrow> (\<And>r. r \<in> set ts \<Longrightarrow> r_token_hash r = h \<Longrightarrow> P r) \<Longrightarrow>
   settled (revoke_rows now P ts) h"
  unfolding settled_def hash_set_revoke_rows
  by (auto simp: revoke_rows_def in_update_where active_def)

lemma revoke_rows_untouched: "r \<in> set ts \<Longrightarrow> \<not> P r \<Longrightarrow> r \<in> set (revoke_rows now P ts)"
  by (auto simp: revoke_rows_def in_update_where)

text \<open>A change to the table leaves the requests alone whose rows it does not touch.\<close>

lemma phase_ok_revoke:
  assumes "phase_ok ts q" and "\<And>r. r \<in> set ts \<Longrightarrow> P r \<Longrightarrow> r_token_hash r \<notin> set (held q)"
  shows "phase_ok (revoke_rows now P ts) q"
  using assms
  by (auto simp: phase_ok_def held_def split: refresh_phase.splits
      intro!: revoke_rows_untouched settled_revoke)
    (auto simp: revoke_rows_def in_update_where split: if_splits)

lemma phase_ok_append:
  assumes "phase_ok ts q" and "r_token_hash row \<notin> r_token_hash ` set ts" and "r_token_hash row \<notin> set (held q)"
  shows "phase_ok (ts @ [row]) q"
  using assms by (auto simp: phase_ok_def held_def settled_def split: refresh_phase.splits)

lemma requests_okD:
  assumes "requests_ok ts qs" and "i < length qs"
  shows "phase_ok ts (qs ! i)" and "j < length qs \<Longrightarrow> i \<noteq> j \<Longrightarrow> apart (qs ! i) (qs ! j)"
  using assms by (auto simp: requests_ok_def)

lemma requests_ok_table:
  "requests_ok ts qs \<Longrightarrow> (\<And>i. i < length qs \<Longrightarrow> phase_ok ts (qs ! i) \<Longrightarrow> phase_ok ts' (qs ! i)) \<Longrightarrow> requests_ok ts' qs"
  by (simp add: requests_ok_def)

lemma requests_ok_update:
  assumes "requests_ok ts qs" and "j < length qs" and "phase_ok ts' q"
    and "\<And>i. i < length qs \<Longrightarrow> i \<noteq> j \<Longrightarrow> phase_ok ts (qs ! i) \<Longrightarrow> phase_ok ts' (qs ! i)"
    and "\<And>i. i < length qs \<Longrightarrow> i \<noteq> j \<Longrightarrow> apart q (qs ! i)"
  shows "requests_ok ts' (qs[j := q])"
  using assms by (auto simp: requests_ok_def nth_list_update apart_sym [of _ q])

text \<open>A step that changes no row and locks nothing new.\<close>

lemma requests_ok_phase:
  assumes "requests_ok ts qs" and "j < length qs"
    and "phase_ok ts ((qs ! j)\<lparr>q_phase := p\<rparr>)"
    and "set (held ((qs ! j)\<lparr>q_phase := p\<rparr>)) \<subseteq> set (held (qs ! j))"
    and "\<not> is_rotated ((qs ! j)\<lparr>q_phase := p\<rparr>)"
  shows "requests_ok ts (qs[j := (qs ! j)\<lparr>q_phase := p\<rparr>])"
proof (rule requests_ok_update [OF assms(1-3)])
  fix i assume "i < length qs" "i \<noteq> j"
  then have "apart (qs ! j) (qs ! i)" using requests_okD(2) [OF assms(1,2)] by simp
  then show "apart ((qs ! j)\<lparr>q_phase := p\<rparr>) (qs ! i)" using assms(4,5) by (auto simp: apart_def)
qed

text \<open>Each step keeps the requests apart and is a step of the machine of the families.\<close>

abbreviation race_ok :: "'g race \<Rightarrow> bool" where
  "race_ok s \<equiv> requests_ok (refresh_tokens (rc_db s)) (rc_requests s)"

definition sound_move :: "lib \<Rightarrow> 'g race \<Rightarrow> 'g race \<Rightarrow> bool" where
  "sound_move L s s' \<longleftrightarrow> race_ok s' \<and> token_step L (race_view s) (race_view s')"

text \<open>Steps that only change the phase of a request.\<close>

lemma sound_phase:
  assumes "race_ok s" and "j < length (rc_requests s)"
    and "phase_ok (refresh_tokens (rc_db s)) ((rc_requests s ! j)\<lparr>q_phase := p\<rparr>)"
    and "set (held ((rc_requests s ! j)\<lparr>q_phase := p\<rparr>)) \<subseteq> set (held (rc_requests s ! j))"
    and "\<not> is_rotated ((rc_requests s ! j)\<lparr>q_phase := p\<rparr>)"
  shows "sound_move L s (set_phase j p s)"
  using requests_ok_phase [OF assms]
  by (auto simp: sound_move_def race_view_def intro: token_step.idle)

lemma sound_leave:
  assumes "race_ok s" and "j < length (rc_requests s)"
    and "p \<in> {Begun, Not_active, Turned_away, Failed, Undone} \<or> (\<exists>c. p = Repeated c) \<or> (\<exists>fam. p = Reuse_found fam)"
  shows "sound_move L s (set_phase j p s)"
  using assms(3) by (intro sound_phase [OF assms(1,2)]) (auto simp: phase_ok_def held_def is_rotated_def)

lemma apart_lock:
  assumes "race_ok s" and "j < length (rc_requests s)" and "i < length (rc_requests s)" and "i \<noteq> j"
    and "\<not> is_rotated q" and "\<And>h. h \<in> set (held q) \<Longrightarrow> h \<in> set (held (rc_requests s ! j)) \<or> lockable s j h"
  shows "apart q (rc_requests s ! i)"
  using requests_okD(2) [OF assms(1,2,3)] assms(3-6) lockable_not_held [of s j _ i]
  by (auto simp: apart_def)

lemma revoke_own_sound:
  assumes "race_ok s" and "j < length (rc_requests s)" and "revoke_own j s = Some s'"
  shows "sound_move L s s'"
proof (cases "active_row (q_hash (rc_requests s ! j)) (refresh_tokens (rc_db s))")
  case None
  with assms show ?thesis by (auto simp: revoke_own_def intro: sound_leave)
next
  case (Some old)
  with assms(3) have s': "s' = set_phase j (Claimed old) s" and free: "lockable s j (r_token_hash old)"
    by (auto simp: revoke_own_def split: if_splits)
  have "race_ok s'"
    unfolding s' set_phase_simps
    by (rule requests_ok_update [OF assms(1,2)], use active_row_Some [OF Some] in \<open>simp add: phase_ok_def\<close>, assumption)
      (rule apart_lock [OF assms(1,2)], use free in \<open>auto simp: held_def is_rotated_def\<close>)
  then show ?thesis by (auto simp: sound_move_def race_view_def s' intro: token_step.idle)
qed

lemma lock_row_sound:
  assumes "race_ok s" and "j < length (rc_requests s)" and "lock_row j fam seen todo locked h s = Some s'"
    and "q_phase (rc_requests s ! j) = Revoking fam seen todo locked"
  shows "sound_move L s s'"
proof -
  let ?ts = "refresh_tokens (rc_db s)"
  let ?p = "Revoking fam seen (removeAll h todo) (if active_row h ?ts = None then locked else h # locked)"
  let ?q = "(rc_requests s ! j)\<lparr>q_phase := ?p\<rparr>"
  from assms(3) have s': "s' = set_phase j ?p s" and free: "lockable s j h"
    by (auto simp: lock_row_def split: if_splits)
  have old: "phase_ok ?ts (rc_requests s ! j)" by (rule requests_okD(1) [OF assms(1,2)])
  have "settled ?ts h" if "active_row h ?ts = None" "h \<in> set seen"
    using old that assms(4) active_row_None [OF that(1)] by (auto simp: phase_ok_def settled_def)
  then have ok: "phase_ok ?ts ?q"
    using old assms(4) by (auto simp: phase_ok_def)
  have "apart ?q (rc_requests s ! i)" if "i < length (rc_requests s)" "i \<noteq> j" for i
    by (rule apart_lock [OF assms(1,2) that])
      (use free assms(4) in \<open>auto simp: held_def is_rotated_def split: if_splits\<close>)
  then have "race_ok s'"
    unfolding s' set_phase_simps by (intro requests_ok_update [OF assms(1,2) ok])
  then show ?thesis by (auto simp: sound_move_def race_view_def s' intro: token_step.idle)
qed

lemma revoke_family_sound:
  assumes "race_ok s" and "j < length (rc_requests s)" and "revoke_family j fam s = Some s'"
  shows "sound_move L s s'"
  using assms
  by (auto simp: revoke_family_def Let_def phase_ok_def held_def is_rotated_def active_in_def intro!: sound_phase)

lemma find_used_sound:
  assumes "race_ok s" and "j < length (rc_requests s)" and "find_used G j s = Some s'"
  shows "sound_move L s s'"
  using assms by (auto simp: find_used_def Let_def split: option.splits intro: sound_leave)

lemma give_up_sound:
  assumes "race_ok s" and "j < length (rc_requests s)" and "give_up j s = Some s'"
  shows "sound_move L s s'"
  using assms by (auto simp: give_up_def split: refresh_phase.splits intro: sound_leave)

text \<open>Steps that change the table.\<close>

lemma held_disjoint:
  "race_ok s \<Longrightarrow> j < length (rc_requests s) \<Longrightarrow> i < length (rc_requests s) \<Longrightarrow> i \<noteq> j \<Longrightarrow>
   h \<in> set (held (rc_requests s ! j)) \<Longrightarrow> h \<notin> set (held (rc_requests s ! i))"
  using requests_okD(2) [of "refresh_tokens (rc_db s)" "rc_requests s" j i] by (auto simp: apart_def)

lemma sign_out_sound:
  assumes "race_ok s" and "sign_out h s = Some s'"
  shows "sound_move L s s'"
proof (cases "active_row h (refresh_tokens (rc_db s))")
  case None
  with assms show ?thesis by (auto simp: sign_out_def sound_move_def race_view_def intro: token_step.idle)
next
  case (Some r)
  with assms(2) have free: "lockable s (length (rc_requests s)) h"
    and s': "refresh_tokens (rc_db s') = revoke_rows (int (rc_now s)) (\<lambda>r. r_token_hash r = h) (refresh_tokens (rc_db s))"
      "rc_requests s' = rc_requests s" "rc_draws s' = rc_draws s"
    by (auto simp: sign_out_def split: if_splits)
  have "race_ok s'"
    unfolding s'
    by (rule requests_ok_table [OF assms(1)], rule phase_ok_revoke) (use lockable_not_held [OF free] in auto)
  then show ?thesis by (auto simp: sound_move_def race_view_def s' intro: token_step.revoke)
qed

lemma sound_new_row:
  assumes "race_ok s" and "r_token_hash row \<notin> r_token_hash ` set (refresh_tokens (rc_db s))"
    and "lockable s (length (rc_requests s)) (r_token_hash row)"
    and "r_fam row = new_v4 L (rc_draws s + 1)" and "active row"
  shows "sound_move L s (s\<lparr>rc_draws := rc_draws s + 2, rc_pg := n,
           rc_db := (rc_db s)\<lparr>refresh_tokens := refresh_tokens (rc_db s) @ [row]\<rparr>\<rparr>)"
  using requests_ok_table [OF assms(1), of "refresh_tokens (rc_db s) @ [row]"]
    phase_ok_append [OF _ assms(2)] lockable_not_held [OF assms(3)]
    token_step.new_session [OF _ _ assms(4,5,2), of "rc_draws s" "rc_draws s + 2"]
  by (simp add: sound_move_def race_view_def)

lemma sign_in_cases:
  assumes "sign_in L cfg uid jkt ua s = Some s'"
  obtains row where "r_token_hash row \<notin> r_token_hash ` set (refresh_tokens (rc_db s))"
    and "lockable s (length (rc_requests s)) (r_token_hash row)"
    and "r_fam row = new_v4 L (rc_draws s + 1)" and "active row"
    and "s' = s\<lparr>rc_draws := rc_draws s + 2, rc_pg := rc_pg s + 1,
               rc_db := (rc_db s)\<lparr>refresh_tokens := refresh_tokens (rc_db s) @ [row]\<rparr>\<rparr>"
proof -
  from assms obtain secret expires_at where drawn: "new_refresh_secret L (rc_draws s) = Ok secret"
    "refresh_expiry L (rc_now s) cfg = Some expires_at"
    by (auto simp: sign_in_def split: res.splits option.splits)
  let ?row = "\<lparr> r_id = pg_uuid L (rc_pg s), r_user_id = uid, r_token_hash = hash_token L secret,
                r_fam = new_v4 L (rc_draws s + 1), r_dpop_jkt = jkt, r_user_agent = ua,
                r_expires_at = expires_at, r_revoked_at = None, r_created_at = int (rc_now s) \<rparr>"
  show thesis
    by (rule that [of ?row])
      (use assms drawn in \<open>simp_all add: sign_in_def Let_def active_def split: if_splits\<close>)
qed

lemma sign_in_sound:
  assumes "race_ok s" and "sign_in L cfg uid jkt ua s = Some s'"
  shows "sound_move L s s'"
proof (rule sign_in_cases [OF assms(2)])
  fix row
  assume row: "r_token_hash row \<notin> r_token_hash ` set (refresh_tokens (rc_db s))"
      "lockable s (length (rc_requests s)) (r_token_hash row)" "r_fam row = new_v4 L (rc_draws s + 1)" "active row"
    and s': "s' = s\<lparr>rc_draws := rc_draws s + 2, rc_pg := rc_pg s + 1,
               rc_db := (rc_db s)\<lparr>refresh_tokens := refresh_tokens (rc_db s) @ [row]\<rparr>\<rparr>"
  have "sound_move L s (s\<lparr>rc_draws := rc_draws s + 2, rc_pg := rc_pg s + 1,
      rc_db := (rc_db s)\<lparr>refresh_tokens := refresh_tokens (rc_db s) @ [row]\<rparr>\<rparr>)"
    by (rule sound_new_row) (use assms(1) row in simp_all)
  with s' show ?thesis by simp
qed

lemma commit_revoked_sound:
  assumes "race_ok s" and "j < length (rc_requests s)" and "commit_revoked j fam seen locked s = Some s'"
    and "q_phase (rc_requests s ! j) = Revoking fam seen [] locked"
  shows "sound_move L s s'"
proof -
  let ?ts = "refresh_tokens (rc_db s)" and ?q = "(rc_requests s ! j)\<lparr>q_phase := Reuse_answered fam seen\<rparr>"
  let ?ts' = "revoke_rows (int (q_begun (rc_requests s ! j))) (\<lambda>r. r_token_hash r \<in> set locked) ?ts"
  have s': "refresh_tokens (rc_db s') = ?ts'" "rc_requests s' = (rc_requests s)[j := ?q]" "rc_draws s' = rc_draws s"
    using assms(3) by (auto simp: commit_revoked_def)
  have old: "phase_ok ?ts (rc_requests s ! j)" by (rule requests_okD(1) [OF assms(1,2)])
  have settles: "settled ?ts' h" if "h \<in> r_token_hash ` set ?ts" "h \<in> set locked \<or> settled ?ts h" for h
    using that(2) by (elim disjE) (intro settled_revoked that(1), simp, rule settled_revoke)
  have "h \<in> r_token_hash ` set ?ts \<and> (h \<in> set locked \<or> settled ?ts h)" if "h \<in> set seen" for h
    using old assms(4) that by (simp add: phase_ok_def)
  then have ok: "phase_ok ?ts' ?q"
    using settles by (simp add: phase_ok_def)
  have "race_ok s'"
    unfolding s'
  proof (rule requests_ok_update [OF assms(1,2) ok])
    fix i assume i: "i < length (rc_requests s)" "i \<noteq> j"
    have apart: "h \<notin> set (held (rc_requests s ! i))" if "h \<in> set locked" for h
      using held_disjoint [OF assms(1,2) i, of h] that assms(4) by (simp add: held_def)
    show "phase_ok ?ts' (rc_requests s ! i)" if "phase_ok ?ts (rc_requests s ! i)"
      by (rule phase_ok_revoke [OF that]) (use apart in auto)
    show "apart ?q (rc_requests s ! i)" by (simp add: apart_def held_def is_rotated_def)
  qed
  then show ?thesis by (auto simp: sound_move_def race_view_def s' intro: token_step.revoke)
qed

lemma distinct_map_eq:
  "distinct (map f xs) \<Longrightarrow> x \<in> set xs \<Longrightarrow> y \<in> set xs \<Longrightarrow> f x = f y \<Longrightarrow> x = y"
  by (auto simp: distinct_map inj_on_def)

lemma commit_next_sound:
  assumes "race_ok s" and "j < length (rc_requests s)" and "commit_next j old new t pair s = Some s'"
    and "q_phase (rc_requests s ! j) = Prepared old new t pair"
    and "distinct (map r_token_hash (refresh_tokens (rc_db s)))"
  shows "sound_move L s s'"
proof -
  let ?ts = "refresh_tokens (rc_db s)" and ?q = "(rc_requests s ! j)\<lparr>q_phase := Rotated old new t pair\<rparr>"
  let ?P = "\<lambda>r. r_token_hash r = r_token_hash old"
  let ?rs = "revoke_rows (int (q_begun (rc_requests s ! j))) ?P ?ts"
  have s': "refresh_tokens (rc_db s') = ?rs @ [new]" "rc_requests s' = (rc_requests s)[j := ?q]"
    "rc_draws s' = rc_draws s"
    using assms(3) by (auto simp: commit_next_def)
  have "phase_ok ?ts (rc_requests s ! j)" by (rule requests_okD(1) [OF assms(1,2)])
  then have old: "old \<in> set ?ts" "active old" "r_token_hash old = q_hash (rc_requests s ! j)"
    and new: "same_session old new" "active new" "r_token_hash new \<notin> r_token_hash ` set ?ts"
    using assms(4) by (auto simp: phase_ok_def)
  have held: "r_token_hash old \<in> set (held (rc_requests s ! j))" "r_token_hash new \<in> set (held (rc_requests s ! j))"
    using assms(4) by (auto simp: held_def)
  have fresh: "r_token_hash new \<notin> r_token_hash ` set ?rs" using new(3) by simp
  have dead: "settled ?rs (r_token_hash old)" using old(1) by (intro settled_revoked) auto
  have "r_fam r = r_fam old" if "r \<in> set ?ts" "r_token_hash r = r_token_hash old" for r
    using distinct_map_eq [OF assms(5) that(1) old(1) that(2)] by simp
  then have fam: "r_fam r = r_fam old" if "r \<in> set ?rs" "r_token_hash r = r_token_hash old" for r
    using that by (auto simp: revoke_rows_def in_update_where split: if_splits)
  have "r_fam new = r_fam old" using new(1) by (simp add: same_session_def)
  then have ok: "phase_ok (?rs @ [new]) ?q"
    using old(3) settled_append [OF dead fresh] fam fresh old(1) new(3) by (auto simp: phase_ok_def)
  have "race_ok s'"
    unfolding s'
  proof (rule requests_ok_update [OF assms(1,2) ok])
    fix i assume i: "i < length (rc_requests s)" "i \<noteq> j"
    have free: "h \<notin> set (held (rc_requests s ! i))" if "h \<in> set (held (rc_requests s ! j))" for h
      by (rule held_disjoint [OF assms(1,2) i that])
    show "phase_ok (?rs @ [new]) (rc_requests s ! i)" if "phase_ok ?ts (rc_requests s ! i)"
      by (rule phase_ok_append [OF phase_ok_revoke [OF that] fresh]) (use free held in auto)
    have "settled ?ts (q_hash (rc_requests s ! i))" if "is_rotated (rc_requests s ! i)"
      using requests_okD(1) [OF assms(1) i(1)] that
      by (auto simp: phase_ok_def is_rotated_def split: refresh_phase.splits)
    then have "is_rotated (rc_requests s ! i) \<Longrightarrow> q_hash (rc_requests s ! i) \<noteq> q_hash (rc_requests s ! j)"
      using old by (auto simp: settled_def)
    then show "apart ?q (rc_requests s ! i)" by (auto simp: apart_def held_def)
  qed
  moreover have "token_step L (race_view s) (race_view s')"
    unfolding race_view_def s' by (rule token_step.rotate [OF _ old(1,2) new(1,2,3)]) simp
  ultimately show ?thesis by (simp add: sound_move_def)
qed

text \<open>The claimed row and the user are checked, the successor inserted and remembered.\<close>

lemma insert_next_cases:
  assumes "insert_next L G cfg j old s = Some s'"
  obtains "s' = set_phase j Turned_away s" | "s' = set_phase j Failed s"
  | row pair user where "same_session old row" "active row" "int (rc_now s) < r_expires_at old"
      "r_dpop_jkt old = q_jkt (rc_requests s ! j)" "r_user_agent row = q_user_agent (rc_requests s ! j)"
      "r_token_hash row = hash_token L (rt_refresh_token pair)"
      "rt_expires_in pair = as_secs (access_token_ttl cfg)"
      "user \<in> set (users (rc_db s))" "u_id user = r_user_id old" "u_deleted_at user = None"
      "issue_access_token L (rc_now s) (rc_draws s + 1) (signer cfg) (issuer cfg) (audience cfg)
         (access_token_ttl cfg) (uuid_to_string L (u_public_id user)) (q_jkt (rc_requests s ! j))
         [(''name'', JStr (u_name user))] = Ok (rt_access_token pair)"
      "r_token_hash row \<notin> r_token_hash ` set (refresh_tokens (rc_db s))" "lockable s j (r_token_hash row)"
      "s' = set_phase j (Prepared old row (rc_now s) pair)
              (s\<lparr>rc_draws := rc_draws s + 2, rc_pg := rc_pg s + 1,
                 rc_grace := cache_insert G (rc_now s) (r_fam old, q_hash (rc_requests s ! j)) pair (rc_grace s)\<rparr>)"
proof (cases "r_expires_at old \<le> int (rc_now s) \<or> r_dpop_jkt old \<noteq> q_jkt (rc_requests s ! j)")
  case True
  with assms that(1) show thesis by (auto simp: insert_next_def Let_def split: if_splits)
next
  case alive: False
  show thesis
  proof (cases "find (\<lambda>u. u_id u = r_user_id old \<and> u_deleted_at u = None) (users (rc_db s))")
    case None
    with assms alive that(1) show thesis by (auto simp: insert_next_def Let_def)
  next
    case (Some user)
    show thesis
    proof (cases "new_refresh_secret L (rc_draws s)")
      case (Ok secret)
      let ?row = "\<lparr> r_id = pg_uuid L (rc_pg s), r_user_id = r_user_id old,
                    r_token_hash = hash_token L secret, r_fam = r_fam old,
                    r_dpop_jkt = q_jkt (rc_requests s ! j), r_user_agent = q_user_agent (rc_requests s ! j),
                    r_expires_at = r_expires_at old, r_revoked_at = None,
                    r_created_at = int (q_begun (rc_requests s ! j)) \<rparr>"
      show thesis
      proof (cases "row_refused (rc_db s) ?row \<or> \<not> lockable s j (hash_token L secret)")
        case True
        with assms alive Some Ok that(2) show thesis by (auto simp: insert_next_def Let_def)
      next
        case False
        show thesis
        proof (cases "issue_access_token L (rc_now s) (rc_draws s + 1) (signer cfg) (issuer cfg) (audience cfg)
            (access_token_ttl cfg) (uuid_to_string L (u_public_id user)) (q_jkt (rc_requests s ! j))
            [(''name'', JStr (u_name user))]")
          case access: (Ok access)
          let ?pair = "\<lparr> rt_access_token = access, rt_refresh_token = secret,
                         rt_expires_in = as_secs (access_token_ttl cfg) \<rparr>"
          have "r_token_hash ?row \<notin> r_token_hash ` set (refresh_tokens (rc_db s))"
            using False by (simp add: row_refused_def)
          then show thesis
            by (intro that(3) [of ?row ?pair user])
              (use assms alive False Ok Some find_SomeD [OF Some] access in
                \<open>simp_all add: insert_next_def Let_def same_session_def active_def\<close>)
        qed (use assms alive False Ok Some that(2) in \<open>simp_all add: insert_next_def Let_def\<close>)
      qed
    qed (use assms alive Some that(2) in \<open>auto simp: insert_next_def Let_def\<close>)
  qed
qed

lemma insert_next_sound:
  assumes "race_ok s" and "j < length (rc_requests s)" and "insert_next L G cfg j old s = Some s'"
    and "q_phase (rc_requests s ! j) = Claimed old"
  shows "sound_move L s s'"
proof (rule insert_next_cases [OF assms(3)])
  fix row pair
  assume row: "same_session old row" "active row"
      "r_token_hash row \<notin> r_token_hash ` set (refresh_tokens (rc_db s))"
    and free: "lockable s j (r_token_hash row)"
    and s': "s' = set_phase j (Prepared old row (rc_now s) pair)
              (s\<lparr>rc_draws := rc_draws s + 2, rc_pg := rc_pg s + 1,
                 rc_grace := cache_insert G (rc_now s) (r_fam old, q_hash (rc_requests s ! j)) pair (rc_grace s)\<rparr>)"
  let ?q = "(rc_requests s ! j)\<lparr>q_phase := Prepared old row (rc_now s) pair\<rparr>"
  have "phase_ok (refresh_tokens (rc_db s)) ?q"
    using requests_okD(1) [OF assms(1,2)] assms(4) row by (simp add: phase_ok_def)
  moreover have "apart ?q (rc_requests s ! i)" if "i < length (rc_requests s)" "i \<noteq> j" for i
    by (rule apart_lock [OF assms(1,2) that]) (use free assms(4) in \<open>auto simp: held_def is_rotated_def\<close>)
  ultimately have "requests_ok (refresh_tokens (rc_db s)) ((rc_requests s)[j := ?q])"
    by (intro requests_ok_update [OF assms(1,2)])
  then have "race_ok s'" by (simp add: s')
  then show ?thesis by (simp add: sound_move_def race_view_def s' token_step.idle)
qed (auto intro: sound_leave [OF assms(1,2)])

lemma advance_sound:
  assumes "race_ok s" and "j < length (rc_requests s)" and "advance L G cfg j s = Some s'"
    and "distinct (map r_token_hash (refresh_tokens (rc_db s)))"
  shows "sound_move L s s'"
proof (cases "q_phase (rc_requests s ! j)")
  case (Claimed old)
  with insert_next_sound [OF assms(1,2)] assms(3) show ?thesis by (simp add: advance_def)
next
  case (Prepared old new t pair)
  with commit_next_sound [OF assms(1,2)] assms(3,4) show ?thesis by (simp add: advance_def)
next
  case (Revoking fam seen todo locked)
  with commit_revoked_sound [OF assms(1,2)] assms(3) show ?thesis by (simp add: advance_def split: if_splits)
qed (use assms(3) revoke_own_sound [OF assms(1,2)] find_used_sound [OF assms(1,2)]
      revoke_family_sound [OF assms(1,2)] in \<open>simp_all add: advance_def\<close>)

lemma arrive_ok: "race_ok s \<Longrightarrow> race_ok (arrive h jkt ua s)"
  by (auto simp: requests_ok_def arrive_def nth_append less_Suc_eq apart_def phase_ok_def held_def is_rotated_def)

lemma fire_sound:
  assumes "race_ok s" and "fire L G cfg e s = Some s'"
    and "distinct (map r_token_hash (refresh_tokens (rc_db s)))"
  shows "sound_move L s s'"
proof (cases e)
  case (Arrive h jkt ua)
  with assms arrive_ok show ?thesis
    by (auto simp: sound_move_def race_view_def arrive_def intro: token_step.idle)
next
  case (Advance j)
  with assms(2) have "fire L G cfg (Advance j) s = Some s'" by simp
  then show ?thesis
    by (rule fire_AdvanceE) (use advance_sound [OF assms(1) _ _ assms(3)] in \<open>auto split: if_splits\<close>)
next
  case (Lock_row j h)
  with assms show ?thesis by (auto split: if_splits refresh_phase.splits intro: lock_row_sound)
next
  case (Clock t)
  with assms show ?thesis
    by (auto simp: sound_move_def race_view_def split: if_splits intro: token_step.idle)
qed (use assms in \<open>auto split: if_splits intro: give_up_sound sign_out_sound sign_in_sound\<close>)

definition race_inv :: "lib \<Rightarrow> 'g race \<Rightarrow> bool" where
  "race_inv L s \<longleftrightarrow> race_ok s \<and> family_inv L (race_view s)"

lemma race_invD: "race_inv L s \<Longrightarrow> distinct (map r_token_hash (refresh_tokens (rc_db s)))"
  by (auto simp: race_inv_def race_view_def intro: family_invD(1))

lemma race_step_sound: "race_inv L s \<Longrightarrow> race_step L G cfg s s' \<Longrightarrow> sound_move L s s'"
  using race_invD by (auto simp: race_step_iff race_inv_def intro: fire_sound)

lemma race_step_inv:
  "uuid_laws L \<Longrightarrow> race_inv L s \<Longrightarrow> race_step L G cfg s s' \<Longrightarrow> race_inv L s'"
  using race_step_sound [of L s G cfg s'] family_inv_step [of L "race_view s" "race_view s'"]
  by (auto simp: race_inv_def sound_move_def)

lemma race_init_inv: "race_init L G cfg s \<Longrightarrow> race_inv L s"
  by (simp add: race_init_def race_inv_def requests_ok_def)

interpretation races:
  simulation "\<lambda>s. uuid_laws L \<and> race_init L G cfg s" "race_step L G cfg" "\<lambda>s. uuid_laws L \<and> race_inv L s"
    "token_step L" race_view
  for L G cfg
  by unfold_locales (auto intro: race_init_inv race_step_inv dest: race_step_sound simp: sound_move_def)

definition race_reachable :: "lib \<Rightarrow> 'g grace_ops \<Rightarrow> dpop_config \<Rightarrow> 'g race \<Rightarrow> bool" where
  "race_reachable L G cfg s \<longleftrightarrow> (\<exists>s0. race_init L G cfg s0 \<and> (race_step L G cfg)\<^sup>*\<^sup>* s0 s)"

lemma reachable_race_inv: "uuid_laws L \<Longrightarrow> race_reachable L G cfg s \<Longrightarrow> race_inv L s"
  using races.reachable_inv [of L G cfg] unfolding race_reachable_def by blast

section \<open>The grace cache in every interleaving\<close>

text \<open>The entries that requests have written: of a rotation that is under way or has been
  committed, the entry is there until its time is over, as long as there is room for one entry of
  each request.\<close>

definition wrote :: "refresh_request \<Rightarrow> bool" where
  "wrote q \<longleftrightarrow>
     (case q_phase q of Prepared old new t pair \<Rightarrow> True | Rotated old new t pair \<Rightarrow> True
      | Undone \<Rightarrow> True | _ \<Rightarrow> False)"

definition remembered ::
    "('g \<Rightarrow> uuid \<times> string \<Rightarrow> (instant \<times> replacement_tokens) option) \<Rightarrow> duration \<Rightarrow> instant \<Rightarrow> 'g \<Rightarrow>
     refresh_request \<Rightarrow> bool" where
  "remembered entries d now g q \<longleftrightarrow>
     (case q_phase q of
        Prepared old new t pair \<Rightarrow> now < t + d \<longrightarrow> entries g (r_fam old, q_hash q) = Some (t, pair)
      | Rotated old new t pair \<Rightarrow> now < t + d \<longrightarrow> entries g (r_fam old, q_hash q) = Some (t, pair)
      | _ \<Rightarrow> True)"

definition grace_ok ::
    "('g \<Rightarrow> uuid \<times> string \<Rightarrow> (instant \<times> replacement_tokens) option) \<Rightarrow> ('g \<Rightarrow> duration) \<Rightarrow> 'g race \<Rightarrow> bool" where
  "grace_ok entries ttl s \<longleftrightarrow>
     card (dom (entries (rc_grace s))) \<le> length (filter wrote (rc_requests s)) \<and>
     (\<forall>q\<in>set (rc_requests s). remembered entries (ttl (rc_grace s)) (rc_now s) (rc_grace s) q)"

lemma filter_update_length:
  "j < length xs \<Longrightarrow> (P (xs ! j) \<longrightarrow> P y) \<Longrightarrow> length (filter P xs) \<le> length (filter P (xs[j := y]))"
  by (induction xs arbitrary: j) (auto split: nat.splits)

lemma filter_update_length_Suc:
  "j < length xs \<Longrightarrow> \<not> P (xs ! j) \<Longrightarrow> P y \<Longrightarrow> length (filter P (xs[j := y])) = Suc (length (filter P xs))"
  by (induction xs arbitrary: j) (auto split: nat.splits)

lemma filter_less_length: "j < length xs \<Longrightarrow> \<not> P (xs ! j) \<Longrightarrow> length (filter P xs) < length xs"
  by (rule length_filter_less) auto

text \<open>A step that leaves the cache alone.\<close>

lemma grace_ok_phase:
  assumes "grace_ok entries ttl s" and "j < length (rc_requests s)" and "rc_grace s' = rc_grace s"
    and "rc_now s' = rc_now s" and "rc_requests s' = (rc_requests s)[j := (rc_requests s ! j)\<lparr>q_phase := p\<rparr>]"
    and "wrote (rc_requests s ! j) \<longrightarrow> wrote ((rc_requests s ! j)\<lparr>q_phase := p\<rparr>)"
    and "remembered entries (ttl (rc_grace s)) (rc_now s) (rc_grace s) (rc_requests s ! j) \<Longrightarrow>
         remembered entries (ttl (rc_grace s)) (rc_now s) (rc_grace s) ((rc_requests s ! j)\<lparr>q_phase := p\<rparr>)"
  shows "grace_ok entries ttl s'"
proof -
  have "length (filter wrote (rc_requests s)) \<le> length (filter wrote (rc_requests s'))"
    unfolding assms(5) by (rule filter_update_length [where P = wrote, OF assms(2,6)])
  moreover have "remembered entries (ttl (rc_grace s)) (rc_now s) (rc_grace s) q" if "q \<in> set (rc_requests s')" for q
    using that assms(1,2,7) unfolding assms(5)
    by (auto simp: grace_ok_def dest!: set_update_subset_insert [THEN subsetD])
  ultimately show ?thesis using assms(1,3,4) by (auto simp: grace_ok_def)
qed

text \<open>The step that writes: its key is no other request's.\<close>

lemma other_key:
  assumes "race_ok s" and "j < length (rc_requests s)" and "q_phase (rc_requests s ! j) = Claimed old"
    and "i < length (rc_requests s)" and "i \<noteq> j"
    and "q_phase (rc_requests s ! i) = Prepared old' new t pair \<or> q_phase (rc_requests s ! i) = Rotated old' new t pair"
  shows "q_hash (rc_requests s ! i) \<noteq> q_hash (rc_requests s ! j)"
proof -
  have j: "old \<in> set (refresh_tokens (rc_db s))" "active old" "r_token_hash old = q_hash (rc_requests s ! j)"
    using requests_okD(1) [OF assms(1,2)] assms(3) by (simp_all add: phase_ok_def)
  have i: "phase_ok (refresh_tokens (rc_db s)) (rc_requests s ! i)" by (rule requests_okD(1) [OF assms(1,4)])
  from assms(6) show ?thesis
  proof
    assume p: "q_phase (rc_requests s ! i) = Prepared old' new t pair"
    then have "r_token_hash old' \<in> set (held (rc_requests s ! i))" "r_token_hash old' = q_hash (rc_requests s ! i)"
      using i by (simp_all add: held_def phase_ok_def)
    moreover have "r_token_hash old \<in> set (held (rc_requests s ! j))" using assms(3) by (simp add: held_def)
    ultimately show ?thesis using held_disjoint [OF assms(1,2,4,5)] j(3) by auto
  next
    assume "q_phase (rc_requests s ! i) = Rotated old' new t pair"
    with i j show ?thesis by (auto simp: phase_ok_def settled_def)
  qed
qed

lemma grace_ok_insert:
  assumes M: "moka G entries ttl capacity" and ok: "race_ok s" and j: "j < length (rc_requests s)"
    and phase: "q_phase (rc_requests s ! j) = Claimed old" and grace: "grace_ok entries ttl s"
    and room: "length (rc_requests s) \<le> capacity (rc_grace s)"
    and g': "rc_grace s' = cache_insert G (rc_now s) (r_fam old, q_hash (rc_requests s ! j)) pair (rc_grace s)"
    and now: "rc_now s' = rc_now s"
    and qs': "rc_requests s' = (rc_requests s)[j := (rc_requests s ! j)\<lparr>q_phase := Prepared old row (rc_now s) pair\<rparr>]"
  shows "grace_ok entries ttl s'"
proof -
  let ?q = "(rc_requests s ! j)\<lparr>q_phase := Prepared old row (rc_now s) pair\<rparr>"
  let ?k = "(r_fam old, q_hash (rc_requests s ! j))"
  have unwritten: "\<not> wrote (rc_requests s ! j)" using phase by (simp add: wrote_def)
  have small: "card (dom (entries (rc_grace s))) < capacity (rc_grace s)"
    using grace room filter_less_length [of j "rc_requests s" wrote, OF j unwritten] by (simp add: grace_ok_def)
  have own: "entries (rc_grace s') ?k = Some (rc_now s, pair)"
    unfolding g' by (rule moka.insert_room [OF M small])
  have "remembered entries (ttl (rc_grace s')) (rc_now s') (rc_grace s') (rc_requests s' ! i)"
    if i: "i < length (rc_requests s)" for i
  proof (cases "i = j")
    case True
    then show ?thesis using own j by (simp add: qs' remembered_def)
  next
    case False
    have "remembered entries (ttl (rc_grace s)) (rc_now s) (rc_grace s) (rc_requests s ! i)"
      using grace i by (simp add: grace_ok_def)
    moreover have "entries (rc_grace s') (r_fam old', q_hash (rc_requests s ! i)) = Some (t, pair')"
      if "q_phase (rc_requests s ! i) = Prepared old' new t pair' \<or> q_phase (rc_requests s ! i) = Rotated old' new t pair'"
        "entries (rc_grace s) (r_fam old', q_hash (rc_requests s ! i)) = Some (t, pair')" "rc_now s < t + ttl (rc_grace s)"
      for old' new t pair'
      unfolding g'
      by (rule moka.insert_keeps [OF M small]) (use other_key [OF ok j phase i False] that in auto)
    ultimately show ?thesis
      using False by (auto simp: remembered_def qs' now g' moka.insert_ttl [OF M] split: refresh_phase.splits)
  qed
  moreover have "card (dom (entries (rc_grace s'))) \<le> length (filter wrote (rc_requests s'))"
    using moka.card_dom_insert [OF M, of "rc_now s" ?k pair "rc_grace s"] grace
      filter_update_length_Suc [where P = wrote and y = ?q, OF j unwritten]
    unfolding g' qs' by (simp add: grace_ok_def wrote_def)
  ultimately show ?thesis by (auto simp: grace_ok_def in_set_conv_nth qs')
qed

definition grace_frame ::
    "('g \<Rightarrow> duration) \<Rightarrow> ('g \<Rightarrow> nat) \<Rightarrow> 'g race \<Rightarrow> 'g race \<Rightarrow> bool" where
  "grace_frame ttl capacity s s' \<longleftrightarrow>
     ttl (rc_grace s') = ttl (rc_grace s) \<and> capacity (rc_grace s') = capacity (rc_grace s) \<and>
     length (rc_requests s) \<le> length (rc_requests s')"

lemma grace_ok_set_phase:
  assumes "grace_ok entries ttl s" and "j < length (rc_requests s)"
    and "wrote (rc_requests s ! j) \<longrightarrow> p = Undone"
    and "\<And>q. q_phase q = p \<Longrightarrow> wrote q \<longrightarrow> p = Undone"
  shows "grace_ok entries ttl (set_phase j p s)"
proof (rule grace_ok_phase [OF assms(1,2)])
  have "\<not> (\<exists>old new t pair. p = Prepared old new t pair \<or> p = Rotated old new t pair)"
    using assms(4) [of "(rc_requests s ! j)\<lparr>q_phase := p\<rparr>"] by (auto simp: wrote_def)
  then show "remembered entries (ttl (rc_grace s)) (rc_now s) (rc_grace s) ((rc_requests s ! j)\<lparr>q_phase := p\<rparr>)"
    by (auto simp: remembered_def split: refresh_phase.splits)
  show "wrote (rc_requests s ! j) \<longrightarrow> wrote ((rc_requests s ! j)\<lparr>q_phase := p\<rparr>)"
    using assms(3) by (auto simp: wrote_def)
qed simp_all

lemma advance_grace:
  assumes M: "moka G entries ttl capacity" and ok: "race_ok s" and j: "j < length (rc_requests s)"
    and grace: "grace_ok entries ttl s" and room: "length (rc_requests s) \<le> capacity (rc_grace s)"
    and step: "advance L G cfg j s = Some s'"
  shows "grace_ok entries ttl s'"
proof (cases "q_phase (rc_requests s ! j)")
  case Begun
  with step show ?thesis
    by (auto simp: advance_def revoke_own_def wrote_def split: option.splits if_splits
        intro!: grace_ok_set_phase [OF grace j])
next
  case Not_active
  with step show ?thesis
    by (auto simp: advance_def find_used_def Let_def wrote_def split: option.splits
        intro!: grace_ok_set_phase [OF grace j])
next
  case (Claimed old)
  with step have "insert_next L G cfg j old s = Some s'" by (simp add: advance_def)
  then show ?thesis
  proof (rule insert_next_cases)
    fix row pair
    assume "s' = set_phase j (Prepared old row (rc_now s) pair)
              (s\<lparr>rc_draws := rc_draws s + 2, rc_pg := rc_pg s + 1,
                 rc_grace := cache_insert G (rc_now s) (r_fam old, q_hash (rc_requests s ! j)) pair (rc_grace s)\<rparr>)"
    then show ?thesis
      by (intro grace_ok_insert [OF M ok j Claimed grace room]) simp_all
  qed (use Claimed in \<open>auto simp: wrote_def intro!: grace_ok_set_phase [OF grace j]\<close>)
next
  case (Prepared old new t pair)
  with step have "s' = the (commit_next j old new t pair s)" by (simp add: advance_def)
  then show ?thesis
    by (intro grace_ok_phase [OF grace j, of s' "Rotated old new t pair"])
      (simp_all add: commit_next_def wrote_def remembered_def Prepared)
next
  case (Reuse_found fam)
  with step show ?thesis
    by (auto simp: advance_def revoke_family_def Let_def wrote_def intro!: grace_ok_set_phase [OF grace j])
next
  case (Revoking fam seen todo locked)
  with step have "s' = the (commit_revoked j fam seen locked s)" by (simp add: advance_def split: if_splits)
  then show ?thesis
    by (intro grace_ok_phase [OF grace j, of s' "Reuse_answered fam seen"])
      (simp_all add: commit_revoked_def wrote_def remembered_def Revoking)
qed (use step in \<open>simp_all add: advance_def\<close>)

lemma grace_ok_same:
  "grace_ok entries ttl s \<Longrightarrow> rc_grace s' = rc_grace s \<Longrightarrow> rc_now s \<le> rc_now s' \<Longrightarrow>
   rc_requests s' = rc_requests s \<Longrightarrow> grace_ok entries ttl s'"
  by (fastforce simp: grace_ok_def remembered_def split: refresh_phase.splits)

lemma fire_grace:
  assumes M: "moka G entries ttl capacity" and ok: "race_ok s" and grace: "grace_ok entries ttl s"
    and room: "length (rc_requests s) \<le> capacity (rc_grace s)" and step: "fire L G cfg e s = Some s'"
  shows "grace_ok entries ttl s'"
proof (cases e)
  case (Clock t)
  with step show ?thesis by (intro grace_ok_same [OF grace]) (auto split: if_splits)
next
  case (Arrive h jkt ua)
  with step grace show ?thesis
    by (auto simp: grace_ok_def arrive_def wrote_def remembered_def split: refresh_phase.splits)
next
  case (Advance j)
  with step show ?thesis by (auto split: if_splits intro: advance_grace [OF M ok _ grace room])
next
  case (Lock_row j h)
  with step show ?thesis
    by (auto simp: lock_row_def wrote_def split: if_splits refresh_phase.splits
        intro!: grace_ok_set_phase [OF grace])
next
  case (Drop_request j)
  with step show ?thesis
    by (auto simp: give_up_def wrote_def split: if_splits refresh_phase.splits
        intro!: grace_ok_set_phase [OF grace])
next
  case (Sign_out h)
  with step show ?thesis
    by (intro grace_ok_same [OF grace]) (auto simp: sign_out_def split: option.splits if_splits)
next
  case (Sign_in uid jkt ua)
  with step have "sign_in L cfg uid jkt ua s = Some s'" by simp
  then show ?thesis by (rule sign_in_cases) (auto intro!: grace_ok_same [OF grace])
qed

lemma fire_frame:
  assumes M: "moka G entries ttl capacity" and step: "fire L G cfg e s = Some s'"
  shows "grace_frame ttl capacity s s'"
proof (cases e)
  case (Advance j)
  then have adv: "advance L G cfg j s = Some s'" using step by (simp split: if_splits)
  show ?thesis
  proof (cases "q_phase (rc_requests s ! j)")
    case (Claimed old)
    with adv have "insert_next L G cfg j old s = Some s'" by (simp add: advance_def)
    then show ?thesis
      by (rule insert_next_cases)
        (auto simp: grace_frame_def moka.insert_ttl [OF M] moka.insert_capacity [OF M])
  qed (use adv in \<open>auto simp: advance_def grace_frame_def Let_def revoke_own_def find_used_def
        revoke_family_def commit_next_def commit_revoked_def split: option.splits if_splits\<close>)
next
  case (Sign_in uid jkt ua)
  with step have "sign_in L cfg uid jkt ua s = Some s'" by simp
  then show ?thesis by (rule sign_in_cases) (auto simp: grace_frame_def)
qed (use step in \<open>auto simp: grace_frame_def arrive_def lock_row_def give_up_def sign_out_def
      split: refresh_phase.splits option.splits if_splits\<close>)

definition grace_inv ::
    "lib \<Rightarrow> ('g \<Rightarrow> uuid \<times> string \<Rightarrow> (instant \<times> replacement_tokens) option) \<Rightarrow> ('g \<Rightarrow> duration) \<Rightarrow>
     ('g \<Rightarrow> nat) \<Rightarrow> dpop_config \<Rightarrow> 'g race \<Rightarrow> bool" where
  "grace_inv L entries ttl capacity cfg s \<longleftrightarrow>
     race_inv L s \<and> ttl (rc_grace s) = grace_period cfg \<and> capacity (rc_grace s) = GRACE_CAPACITY \<and>
     (length (rc_requests s) \<le> GRACE_CAPACITY \<longrightarrow> grace_ok entries ttl s)"

lemma grace_init_inv:
  assumes "moka G entries ttl capacity" and "race_init L G cfg s"
  shows "grace_inv L entries ttl capacity cfg s"
  using assms(2) race_init_inv [OF assms(2)] moka.entries_build [OF assms(1)] moka.ttl_build [OF assms(1)]
    moka.capacity_build [OF assms(1)]
  by (simp add: grace_inv_def race_init_def grace_ok_def)

lemma grace_step_inv:
  assumes M: "moka G entries ttl capacity" and U: "uuid_laws L"
    and inv: "grace_inv L entries ttl capacity cfg s" and step: "race_step L G cfg s s'"
  shows "grace_inv L entries ttl capacity cfg s'"
proof -
  obtain e where e: "fire L G cfg e s = Some s'" using step by (auto simp: race_step_iff)
  have "race_inv L s" using inv by (simp add: grace_inv_def)
  then have "race_inv L s'" by (rule race_step_inv [OF U _ step])
  moreover have "race_ok s" using \<open>race_inv L s\<close> by (simp add: race_inv_def)
  ultimately show ?thesis
    using inv fire_frame [OF M e] fire_grace [OF M _ _ _ e] by (auto simp: grace_inv_def grace_frame_def)
qed

interpretation remembers: machine "race_init L G cfg" "race_step L G cfg"
    "\<lambda>s. moka G entries ttl capacity \<longrightarrow> uuid_laws L \<longrightarrow> grace_inv L entries ttl capacity cfg s"
  for L G cfg entries ttl capacity
  by unfold_locales (auto intro: grace_init_inv grace_step_inv)

lemma reachable_grace_inv:
  assumes "moka G entries ttl capacity" and "uuid_laws L" and "race_reachable L G cfg s"
  shows "grace_inv L entries ttl capacity cfg s"
proof -
  obtain s0 where "race_init L G cfg s0" and "(race_step L G cfg)\<^sup>*\<^sup>* s0 s"
    using assms(3) by (auto simp: race_reachable_def)
  then show ?thesis
    using remembers.reachable_inv [of L G cfg s0 s entries ttl capacity] assms(1,2) by blast
qed

end
