(* ===== verification/Race_Alone.thy ===== *)
theory Race_Alone
  imports Refresh_Race
begin

text \<open>
  A request whose statements no other request comes between: how far it is determined by the state
  it starts in, that it can always be brought to its end, and what \<open>refresh\<close> of \<open>Auth_Service\<close> does
  from a store in that state. The theorem that compares the two is in \<open>Race_Properties\<close>.
\<close>

section \<open>Runs\<close>

fun run :: "lib \<Rightarrow> 'g grace_ops \<Rightarrow> dpop_config \<Rightarrow> race_event list \<Rightarrow> 'g race \<Rightarrow> 'g race option" where
  "run L G cfg [] s = Some s"
| "run L G cfg (e # es) s = Option.bind (fire L G cfg e s) (run L G cfg es)"

lemma run_append: "run L G cfg (es @ es') s = Option.bind (run L G cfg es s) (run L G cfg es')"
  by (induction es arbitrary: s) (auto split: bind_splits)

lemma run_steps: "run L G cfg es s = Some s' \<Longrightarrow> (race_step L G cfg)\<^sup>*\<^sup>* s s'"
  by (induction es arbitrary: s)
    (auto split: bind_splits intro: race_step.fired converse_rtranclp_into_rtranclp)

fun event_of :: "nat \<Rightarrow> race_event \<Rightarrow> bool" where
  "event_of j (Advance i) = (i = j)"
| "event_of j (Lock_row i h) = (i = j)"
| "event_of j _ = False"

abbreviation phase_of :: "nat \<Rightarrow> 'g race \<Rightarrow> refresh_phase" where
  "phase_of j s \<equiv> q_phase (rc_requests s ! j)"

text \<open>The answer has been given.\<close>

definition ended :: "refresh_phase \<Rightarrow> bool" where
  "ended p =
     (case p of
        Rotated old new t pair \<Rightarrow> True | Repeated pair \<Rightarrow> True | Reuse_answered fam seen \<Rightarrow> True
      | Turned_away \<Rightarrow> True | Failed \<Rightarrow> True | Undone \<Rightarrow> True | _ \<Rightarrow> False)"

text \<open>No other request has locked or inserted a row.\<close>

definition unhindered :: "nat \<Rightarrow> 'g race \<Rightarrow> bool" where
  "unhindered j s \<longleftrightarrow>
     list_all (\<lambda>i. i = j \<or> held (rc_requests s ! i) = []) [0..<length (rc_requests s)]"

definition pair_of :: "replacement_tokens \<Rightarrow> token_pair" where
  "pair_of rt =
     \<lparr> tp_access_token = rt_access_token rt, tp_refresh_token = rt_refresh_token rt,
       tp_token_type = TOKEN_TYPE, tp_expires_in = rt_expires_in rt \<rparr>"

text \<open>The result of \<open>refresh\<close> that the end of a request stands for: a request that failed got an
  error, though not \<open>Unauthorized\<close>.\<close>

definition answers :: "refresh_phase \<Rightarrow> (service_error, token_pair) res \<Rightarrow> bool" where
  "answers p r =
     (case p of
        Rotated old new t pair \<Rightarrow> r = Ok (pair_of pair)
      | Repeated pair \<Rightarrow> r = Ok (pair_of pair)
      | Reuse_answered fam seen \<Rightarrow> r = Err Unauthorized
      | Turned_away \<Rightarrow> r = Err Unauthorized
      | Failed \<Rightarrow> \<not> is_ok r \<and> r \<noteq> Err Unauthorized
      | _ \<Rightarrow> False)"

text \<open>A store between two operations, with the tables, the cache and the random values of a state of
  the interleaved model.\<close>

definition same_start :: "('g, 'r) world \<Rightarrow> 'g race \<Rightarrow> bool" where
  "same_start w s \<longleftrightarrow>
     tx w = Auto \<and> db w = rc_db s \<and> grace_cache w = rc_grace s \<and> w_draws w = rc_draws s \<and>
     pg_draws w = rc_pg s"

lemma set_phase_twice [simp]: "set_phase j p (set_phase j q s) = set_phase j p s"
  by (cases "j < length (rc_requests s)") (simp_all add: set_phase_def list_update_beyond)

lemma set_phase_pg [simp]: "rc_pg (set_phase j p s) = rc_pg s"
  by (simp add: set_phase_def)

lemma unhindered_lockable: "unhindered j s \<Longrightarrow> lockable s j h"
  by (auto simp: unhindered_def lockable_def list_all_iff)

lemma unhindered_set_phase [simp]: "unhindered j (set_phase j p s) \<longleftrightarrow> unhindered j s"
  by (cases "j < length (rc_requests s)") (auto simp: unhindered_def list_all_iff nth_list_update)

lemma family_update_of_hashes:
  assumes "distinct (map r_token_hash (refresh_tokens D))"
    and "set locked = r_token_hash ` set (active_in fam (refresh_tokens D))"
  shows "revoke_where now (\<lambda>r. r_token_hash r \<in> set locked) D = revoke_where now (\<lambda>r. r_fam r = fam) D"
proof -
  have "(r_token_hash r \<in> set locked \<and> r_revoked_at r = None) = (r_fam r = fam \<and> r_revoked_at r = None)"
    if "r \<in> set (refresh_tokens D)" for r
    using distinct_map_eq [OF assms(1) that] that assms(2) by (auto simp: active_in_def active_def)
  then show ?thesis by (simp add: revoke_where_def update_where_def cong: map_cong)
qed

section \<open>What \<open>refresh\<close> does in one go\<close>

lemma refresh_without_active:
  assumes "reliable L" and "tx w = Auto" and "pg_text (hash_token L token)"
    and none: "active_row (hash_token L token) (refresh_tokens (db w)) = None"
    and w': "refresh L G now svc token jkt ua w = (r, w')"
  shows "grace_cache w' = grace_cache w \<and>
    (case find (\<lambda>r. r_token_hash r = hash_token L token) (refresh_tokens (db w)) of
       None \<Rightarrow> r = Err Unauthorized \<and> db w' = db w
     | Some existing \<Rightarrow>
         (case cache_get G now (r_fam existing, hash_token L token) (grace_cache w) of
            Some cached \<Rightarrow> r = Ok (pair_of cached) \<and> db w' = db w
          | None \<Rightarrow> r = Err Unauthorized \<and> db w' = revoke_where (int now) (\<lambda>r. r_fam r = r_fam existing) (db w)))"
proof -
  let ?h = "hash_token L token"
  let ?w1 = "w\<lparr>calls := calls w + 2, tx := InTx (db w) False\<rparr>"
  have "revoke_where (int now) (\<lambda>r. r_token_hash r = ?h) (db w) = db w"
    using none update_where_none [of "refresh_tokens (db w)" "\<lambda>r. r_token_hash r = ?h \<and> r_revoked_at r = None"]
    by (auto simp: revoke_where_def active_row_def find_None_iff)
  then have cas: "revoke_refresh_token_if_active L (int now) ?h (w\<lparr>calls := Suc (calls w), tx := InTx (db w) False\<rparr>) =
      (Ok None, ?w1)"
    using assms(1,3) none by (simp add: revoke_refresh_token_if_active_def reliable_query Let_def active_row_def)
  have "find_refresh_token_by_hash L ?h ?w1 =
      (Ok (find (\<lambda>r. r_token_hash r = ?h) (refresh_tokens (db w))), ?w1\<lparr>calls := calls w + 3\<rparr>)"
    using assms(1,3) by (simp add: find_refresh_token_by_hash_def reliable_read)
  with cas assms(1,2) w' show ?thesis
    by (auto simp: refresh_def Let_def reliable_with_tx act_bind_def act_map_err_def refresh_inactive_def
        grace_get_def revoke_refresh_token_family_def reliable_exec reliable_commit drop_tx_def pair_of_def
        split: option.splits)
qed

text \<open>The row that a rotation of \<open>old\<close> inserts.\<close>

definition next_row ::
    "lib \<Rightarrow> nat \<Rightarrow> instant \<Rightarrow> refresh_token_row \<Rightarrow> string \<Rightarrow> string option \<Rightarrow> string \<Rightarrow> refresh_token_row" where
  "next_row L n now old jkt ua secret =
     \<lparr> r_id = pg_uuid L n, r_user_id = r_user_id old, r_token_hash = hash_token L secret, r_fam = r_fam old,
       r_dpop_jkt = jkt, r_user_agent = ua, r_expires_at = r_expires_at old, r_revoked_at = None,
       r_created_at = int now \<rparr>"

lemma create_next_row:
  assumes "reliable L" and "tx w = InTx D False" and "r_user_id old \<in> u_id ` set (users (db w))"
  shows "row_refused (db w) (next_row L (pg_draws w) now old jkt ua secret) \<Longrightarrow>
      \<exists>e. create_refresh_token L (int now) (rotation_params L old jkt ua secret) w =
        (Err e, w\<lparr>calls := calls w + 1, tx := InTx D True\<rparr>)"
    and "\<not> row_refused (db w) (next_row L (pg_draws w) now old jkt ua secret) \<Longrightarrow>
      create_refresh_token L (int now) (rotation_params L old jkt ua secret) w =
        (Ok (next_row L (pg_draws w) now old jkt ua secret),
         w\<lparr>calls := calls w + 1, pg_draws := pg_draws w + 1,
           db := (db w)\<lparr>refresh_tokens := refresh_tokens (db w) @ [next_row L (pg_draws w) now old jkt ua secret]\<rparr>\<rparr>)"
  using assms
  by (auto simp: create_refresh_token_def reliable_query Let_def row_refused_def rotation_params_def next_row_def)

lemma row_refused_claimed [simp]: "row_refused (claimed now h d) row = row_refused d row"
  by (simp add: row_refused_def)

lemma claimed_simps [simp]:
  "(claimed now h d)\<lparr>refresh_tokens := ts\<rparr> = d\<lparr>refresh_tokens := ts\<rparr>"
  "refresh_tokens (claimed now h d) = revoke_rows (int now) (\<lambda>r. r_token_hash r = h) (refresh_tokens d)"
  by (simp_all add: claimed_def revoke_where_def revoke_rows_def)

lemma grace_drop_tx [simp]: "grace_cache (drop_tx w) = grace_cache w"
  by (simp add: drop_tx_def split: tx_state.split)

text \<open>What becomes of a claimed row: the phase that the request is in when its successor has been
  inserted, or why it was not.\<close>

definition rotation ::
    "lib \<Rightarrow> dpop_config \<Rightarrow> instant \<Rightarrow> nat \<Rightarrow> nat \<Rightarrow> tables \<Rightarrow> refresh_token_row \<Rightarrow> string \<Rightarrow> string option \<Rightarrow>
     refresh_phase" where
  "rotation L cfg now draws pg d old jkt ua =
     (if r_expires_at old \<le> int now \<or> r_dpop_jkt old \<noteq> jkt then Turned_away
      else
      case find (\<lambda>u. u_id u = r_user_id old \<and> u_deleted_at u = None) (users d) of
        None \<Rightarrow> Turned_away
      | Some user \<Rightarrow>
          (case new_refresh_secret L draws of
             Ok secret \<Rightarrow>
               if row_refused d (next_row L pg now old jkt ua secret) then Failed
               else
               (case issue_access_token L now (draws + 1) (signer cfg) (issuer cfg) (audience cfg)
                  (access_token_ttl cfg) (uuid_to_string L (u_public_id user)) jkt
                  [(''name'', JStr (u_name user))] of
                  Ok access \<Rightarrow>
                    Prepared old (next_row L pg now old jkt ua secret) now
                      \<lparr> rt_access_token = access, rt_refresh_token = secret,
                        rt_expires_in = as_secs (access_token_ttl cfg) \<rparr>
                | _ \<Rightarrow> Failed)
           | _ \<Rightarrow> Failed))"

lemma insert_next_alone:
  assumes "unhindered j s" and "q_begun (rc_requests s ! j) = rc_now s"
    and "rotation L cfg (rc_now s) (rc_draws s) (rc_pg s) (rc_db s) old
      (q_jkt (rc_requests s ! j)) (q_user_agent (rc_requests s ! j)) = p"
  shows "insert_next L G cfg j old s =
    Some (case p of
        Prepared old row t pair \<Rightarrow>
          set_phase j p (s\<lparr>rc_draws := rc_draws s + 2, rc_pg := rc_pg s + 1,
             rc_grace := cache_insert G (rc_now s) (r_fam old, q_hash (rc_requests s ! j)) pair (rc_grace s)\<rparr>)
      | _ \<Rightarrow> set_phase j p s)"
  unfolding assms(3) [symmetric] rotation_def insert_next_def next_row_def Let_def
  by (auto simp: unhindered_lockable [OF assms(1)] assms(2) split: option.split res.split)

text \<open>And \<open>refresh\<close> in the same terms; \<open>kept\<close> says that it changed neither the tables nor the cache.\<close>

definition kept :: "('g, 'r) world \<Rightarrow> ('g, 'r) world \<Rightarrow> bool" where
  "kept w w' \<longleftrightarrow> db w' = db w \<and> grace_cache w' = grace_cache w"

definition store_next ::
    "lib \<Rightarrow> 'g grace_ops \<Rightarrow> instant \<Rightarrow> dpop_config \<Rightarrow> string \<Rightarrow> refresh_token_row \<Rightarrow> string \<Rightarrow> string option \<Rightarrow>
     user_row \<Rightarrow> string \<Rightarrow> ('g, 'r, service_error, token_pair) sact" where
  "store_next L G now cfg h old jkt ua user secret =
     act_bind (act_map_err service_from_sqlx
        (create_refresh_token L (int now) (rotation_params L old jkt ua secret))) (\<lambda>_.
     act_bind (issue_user_token L now cfg user jkt) (\<lambda>access.
     act_bind (grace_insert G now (r_fam old, h)
        \<lparr> rt_access_token = access, rt_refresh_token = secret,
          rt_expires_in = as_secs (access_token_ttl cfg) \<rparr>) (\<lambda>_.
     act_bind (act_map_err service_from_sqlx (commit L)) (\<lambda>_.
     act_return (token_pair_of cfg access secret)))))"

lemma refresh_active_known_user:
  assumes "reliable L" and "\<not> is_aborted (tx w)" and "int now < r_expires_at old" and "r_dpop_jkt old = jkt"
    and "find (\<lambda>u. u_id u = r_user_id old \<and> u_deleted_at u = None) (users (db w)) = Some user"
  defines "w1 \<equiv> w\<lparr>calls := calls w + 1, w_draws := w_draws w + 1\<rparr>"
  shows "refresh_active L G now cfg h (old\<lparr>r_revoked_at := at\<rparr>) jkt ua w =
    (case new_refresh_secret L (w_draws w) of
       Ok secret \<Rightarrow> store_next L G now cfg h old jkt ua user secret w1
     | Err e \<Rightarrow> (Err (service_from_dpop e), w1)
     | Panic \<Rightarrow> (Panic, w1))"
  using assms
  by (auto simp: refresh_active_def act_bind_def act_map_err_def draw_def find_user_by_id_def reliable_read
      store_next_def rotation_params_def split: res.split)

lemma store_next_result:
  assumes "reliable L" and "tx w = InTx D False" and "r_user_id old \<in> u_id ` set (users (db w))"
    and "store_next L G now cfg h old jkt ua user secret w = (r, w')"
  defines "row \<equiv> next_row L (pg_draws w) now old jkt ua secret"
  shows "if row_refused (db w) row then answers Failed r \<and> db (drop_tx w') = D \<and> grace_cache w' = grace_cache w
    else
    case issue_access_token L now (w_draws w) (signer cfg) (issuer cfg) (audience cfg) (access_token_ttl cfg)
        (uuid_to_string L (u_public_id user)) jkt [(''name'', JStr (u_name user))] of
      Ok access \<Rightarrow>
        r = Ok (token_pair_of cfg access secret) \<and> tx w' = Auto \<and>
        db w' = (db w)\<lparr>refresh_tokens := refresh_tokens (db w) @ [row]\<rparr> \<and>
        grace_cache w' = cache_insert G now (r_fam old, h)
          \<lparr> rt_access_token = access, rt_refresh_token = secret, rt_expires_in = as_secs (access_token_ttl cfg) \<rparr>
          (grace_cache w)
    | _ \<Rightarrow> answers Failed r \<and> db (drop_tx w') = D \<and> grace_cache w' = grace_cache w"
proof (cases "row_refused (db w) row")
  case True
  then obtain e where "create_refresh_token L (int now) (rotation_params L old jkt ua secret) w =
      (Err e, w\<lparr>calls := calls w + 1, tx := InTx D True\<rparr>)"
    using create_next_row(1) [OF assms(1-3)] unfolding row_def by blast
  with assms(4) True show ?thesis
    by (auto simp: store_next_def act_bind_def act_map_err_def answers_def is_ok_def drop_tx_def service_from_sqlx_def)
next
  case False
  from create_next_row(2) [OF assms(1-3) this [unfolded row_def]] assms(1,2,4) False show ?thesis
    by (auto simp: store_next_def act_bind_def act_map_err_def draw_def issue_user_token_def grace_insert_def
        reliable_commit answers_def is_ok_def drop_tx_def row_def split: res.splits)
qed

lemma refresh_with_active:
  assumes rel: "reliable L" and auto: "tx w = Auto" and texts: "pg_text (hash_token L token)"
    and uniq: "distinct (map r_token_hash (refresh_tokens (db w)))"
    and active: "active_row (hash_token L token) (refresh_tokens (db w)) = Some old"
    and w': "refresh L G now svc token jkt ua w = (r, w')"
  shows "case rotation L (svc_config svc) now (w_draws w) (pg_draws w) (db w) old jkt ua of
      Turned_away \<Rightarrow> answers Turned_away r \<and> kept w w'
    | Prepared old row t pair \<Rightarrow>
        r = Ok (pair_of pair) \<and>
        db w' = (db w)\<lparr>refresh_tokens :=
           revoke_rows (int now) (\<lambda>r. r_token_hash r = r_token_hash old) (refresh_tokens (db w)) @ [row]\<rparr> \<and>
        grace_cache w' = cache_insert G now (r_fam old, hash_token L token) pair (grace_cache w)
    | _ \<Rightarrow> answers Failed r \<and> kept w w'"
proof -
  let ?h = "hash_token L token" and ?cfg = "svc_config svc"
  let ?w1 = "w\<lparr>calls := calls w + 2, tx := InTx (db w) False, db := claimed now ?h (db w)\<rparr>"
  let ?old = "old\<lparr>r_revoked_at := Some (int now)\<rparr>"
  let ?user = "find (\<lambda>u. u_id u = r_user_id old \<and> u_deleted_at u = None) (users (db w))"
  have old: "old \<in> set (refresh_tokens (db w))" "r_token_hash old = ?h" "active old"
    using active_row_Some [OF active] by simp_all
  have ends: "refresh_active L G now ?cfg ?h ?old jkt ua ?w1 = (a, w2) \<Longrightarrow> r = a \<and> w' = drop_tx w2" for a w2
    using refresh_claims_active [OF rel auto texts uniq old, of G now svc jkt ua] w' by simp
  show ?thesis
  proof (cases "r_expires_at old \<le> int now \<or> r_dpop_jkt old \<noteq> jkt \<or> ?user = None")
    case True
    then have "\<exists>c. refresh_active L G now ?cfg ?h ?old jkt ua ?w1 = (Err Unauthorized, ?w1\<lparr>calls := c\<rparr>)"
      using rel by (auto simp: refresh_active_def act_bind_def act_map_err_def find_user_by_id_def reliable_read
          intro: exI [of _ "calls w + 2"])
    with ends True show ?thesis
      by (auto simp: rotation_def answers_def kept_def drop_tx_def)
  next
    case False
    then obtain user where user: "?user = Some user" and alive: "int now < r_expires_at old" "r_dpop_jkt old = jkt"
      by auto
    have known: "r_user_id old \<in> u_id ` set (users (db w))"
      using find_SomeD [OF user] by (auto intro!: image_eqI [of _ u_id user])
    let ?w2 = "?w1\<lparr>calls := calls ?w1 + 1, w_draws := w_draws ?w1 + 1\<rparr>"
    note go = refresh_active_known_user [OF rel _ alive, of ?w1 user G ?cfg ?h "Some (int now)" ua]
    show ?thesis
    proof (cases "new_refresh_secret L (w_draws w)")
      case (Ok secret)
      obtain a w3 where w3: "store_next L G now ?cfg ?h old jkt ua user secret ?w2 = (a, w3)" by fastforce
      have "r = a \<and> w' = drop_tx w3" using go user Ok w3 by (intro ends) simp
      then show ?thesis
        using store_next_result [OF rel _ _ w3, of "db w"] known user alive Ok
        by (auto simp: rotation_def answers_def kept_def pair_of_def token_pair_of_def old(2) drop_tx_Auto
            split: res.splits if_splits)
    qed (use go user alive ends in \<open>auto simp: rotation_def answers_def kept_def drop_tx_def is_ok_def
          service_from_dpop_def\<close>)
  qed
qed

section \<open>The way of a request alone\<close>

text \<open>Everything but the phase is still as it was, or as the last step of the request has made it.\<close>

definition on_the_way ::
    "lib \<Rightarrow> 'g grace_ops \<Rightarrow> dpop_config \<Rightarrow> nat \<Rightarrow> 'g race \<Rightarrow> 'g race \<Rightarrow> bool" where
  "on_the_way L G cfg j s s' \<longleftrightarrow>
     (let found = active_row (q_hash (rc_requests s ! j)) (refresh_tokens (rc_db s));
          looked = find_used G j (set_phase j Not_active s);
          inserted = (\<lambda>old. insert_next L G cfg j old (set_phase j (Claimed old) s)) in
      case phase_of j s' of
        Begun \<Rightarrow> s' = s
      | Not_active \<Rightarrow> found = None \<and> s' = set_phase j Not_active s
      | Claimed old \<Rightarrow> found = Some old \<and> s' = set_phase j (Claimed old) s
      | Prepared old new t pair \<Rightarrow> found = Some old \<and> inserted old = Some s'
      | Rotated old new t pair \<Rightarrow> found = Some old \<and>
          (\<exists>s1. inserted old = Some s1 \<and> phase_of j s1 = Prepared old new t pair \<and>
                commit_next j old new t pair s1 = Some s')
      | Repeated pair \<Rightarrow> found = None \<and> looked = Some s'
      | Reuse_found fam \<Rightarrow> found = None \<and> looked = Some s'
      | Revoking fam seen todo locked \<Rightarrow> found = None \<and> looked = Some (set_phase j (Reuse_found fam) s) \<and>
          s' = set_phase j (Revoking fam seen todo locked) s \<and>
          seen = map r_token_hash (active_in fam (refresh_tokens (rc_db s))) \<and>
          set seen = set todo \<union> set locked
      | Reuse_answered fam seen \<Rightarrow> found = None \<and> looked = Some (set_phase j (Reuse_found fam) s) \<and>
          (\<exists>locked. set locked = r_token_hash ` set (active_in fam (refresh_tokens (rc_db s))) \<and>
             commit_revoked j fam seen locked (set_phase j (Revoking fam seen [] locked) s) = Some s')
      | Turned_away \<Rightarrow>
          (found = None \<and> looked = Some s') \<or> (\<exists>old. found = Some old \<and> inserted old = Some s')
      | Failed \<Rightarrow> (\<exists>old. found = Some old \<and> inserted old = Some s')
      | Undone \<Rightarrow> False)"

lemma phase_of_set_phase [simp]: "j < length (rc_requests s) \<Longrightarrow> phase_of j (set_phase j p s) = p"
  by simp

lemma find_used_phase:
  "find_used G j s = Some s' \<Longrightarrow> j < length (rc_requests s) \<Longrightarrow>
   phase_of j s' \<in> {Turned_away} \<union> range Repeated \<union> range Reuse_found \<and> s' = set_phase j (phase_of j s') s"
  by (auto simp: find_used_def Let_def split: option.splits)

lemma insert_next_phase:
  assumes "insert_next L G cfg j old s = Some s'" and "j < length (rc_requests s)"
  shows "phase_of j s' \<in> {Turned_away, Failed} \<or> (\<exists>new t pair. phase_of j s' = Prepared old new t pair)"
  using assms(1) by (rule insert_next_cases) (use assms(2) in auto)

lemma on_the_way_advance:
  assumes way: "on_the_way L G cfg j s0 s" and j: "j < length (rc_requests s0)" "j < length (rc_requests s)"
    and step: "advance L G cfg j s = Some s'"
  shows "on_the_way L G cfg j s0 s'"
proof (cases "phase_of j s")
  case Begun
  with way have s: "s = s0" by (simp add: on_the_way_def)
  show ?thesis
    using step Begun j unfolding s
    by (auto simp: advance_def revoke_own_def on_the_way_def Let_def active_row_Some split: option.splits if_splits)
next
  case Not_active
  with way have s: "s = set_phase j Not_active s0"
    "active_row (q_hash (rc_requests s0 ! j)) (refresh_tokens (rc_db s0)) = None"
    by (simp_all add: on_the_way_def Let_def)
  from step Not_active have "find_used G j s = Some s'" by (simp add: advance_def)
  with find_used_phase [OF this j(2)] s(2) show ?thesis
    by (auto simp: on_the_way_def Let_def s(1))
next
  case (Claimed old)
  with way have s: "s = set_phase j (Claimed old) s0"
    "active_row (q_hash (rc_requests s0 ! j)) (refresh_tokens (rc_db s0)) = Some old"
    by (simp_all add: on_the_way_def Let_def)
  from step Claimed have "insert_next L G cfg j old s = Some s'" by (simp add: advance_def)
  with insert_next_phase [OF this j(2)] s(2) show ?thesis
    by (auto simp: on_the_way_def Let_def s(1))
next
  case (Prepared old new t pair)
  with way step j show ?thesis
    by (auto simp: on_the_way_def Let_def advance_def commit_next_def)
next
  case (Reuse_found fam)
  with way have s: "find_used G j (set_phase j Not_active s0) = Some s"
    "active_row (q_hash (rc_requests s0 ! j)) (refresh_tokens (rc_db s0)) = None"
    by (simp_all add: on_the_way_def Let_def)
  from find_used_phase [OF s(1)] j Reuse_found have "s = set_phase j (Reuse_found fam) s0" by simp
  with s step Reuse_found j show ?thesis
    by (auto simp: on_the_way_def Let_def advance_def revoke_family_def)
next
  case (Revoking fam seen todo locked)
  with way step j show ?thesis
    by (auto simp: on_the_way_def Let_def advance_def commit_revoked_def split: if_splits intro!: exI [of _ locked])
qed (use step in \<open>simp_all add: advance_def\<close>)

lemma on_the_way_lock:
  assumes way: "on_the_way L G cfg j s0 s" and j: "j < length (rc_requests s0)"
    and phase: "phase_of j s = Revoking fam seen todo locked" and step: "lock_row j fam seen todo locked h s = Some s'"
  shows "on_the_way L G cfg j s0 s'"
proof -
  let ?ts = "refresh_tokens (rc_db s0)"
  have w: "s = set_phase j (Revoking fam seen todo locked) s0" "seen = map r_token_hash (active_in fam ?ts)"
      "set seen = set todo \<union> set locked"
    and found: "active_row (q_hash (rc_requests s0 ! j)) ?ts = None"
      "find_used G j (set_phase j Not_active s0) = Some (set_phase j (Reuse_found fam) s0)"
    using way unfolding on_the_way_def Let_def phase refresh_phase.case by blast+
  have todo: "h \<in> set todo" using step by (simp add: lock_row_def split: if_splits)
  moreover have "set seen = r_token_hash ` set (active_in fam ?ts)" by (simp add: w(2))
  ultimately have "h \<in> r_token_hash ` set (active_in fam ?ts)" using w(3) by blast
  then have "active_row h ?ts \<noteq> None"
    by (auto simp: active_in_def active_row_def active_def find_None_iff)
  then have s': "s' = set_phase j (Revoking fam seen (removeAll h todo) (h # locked)) s0"
    using step w(1) by (simp add: lock_row_def split: if_splits)
  have "set seen = set (removeAll h todo) \<union> set (h # locked)" using w(3) todo by auto
  with found w(2) show ?thesis
    unfolding on_the_way_def Let_def s' using j by (simp del: set_removeAll)
qed

lemma on_the_way_fire:
  assumes way: "on_the_way L G cfg j s0 s" and j: "j < length (rc_requests s0)"
    and own: "event_of j e" and step: "fire L G cfg e s = Some s'"
  shows "on_the_way L G cfg j s0 s'"
proof (cases e)
  case (Advance i)
  with own step on_the_way_advance [OF way j] show ?thesis by (simp split: if_splits)
next
  case (Lock_row i h)
  with own step on_the_way_lock [OF way j] show ?thesis
    by (auto split: if_splits refresh_phase.splits)
qed (use own in simp_all)

lemma on_the_way_run:
  assumes "on_the_way L G cfg j s0 s" and "j < length (rc_requests s0)"
    and "list_all (event_of j) es" and "run L G cfg es s = Some s'"
  shows "on_the_way L G cfg j s0 s'"
  using assms by (induction es arbitrary: s) (auto split: bind_splits dest: on_the_way_fire)

section \<open>The end of a request alone\<close>

text \<open>As long as it has not answered, a request that nobody hinders has a next step, and there are
  finitely many.\<close>

definition steps_left :: "nat \<Rightarrow> 'g race \<Rightarrow> nat" where
  "steps_left j s =
     (let n = length (refresh_tokens (rc_db s)) in
      case phase_of j s of
        Begun \<Rightarrow> n + 5 | Not_active \<Rightarrow> n + 4 | Reuse_found fam \<Rightarrow> n + 3
      | Revoking fam seen todo locked \<Rightarrow> length todo + 1
      | Claimed old \<Rightarrow> 2 | Prepared old new t pair \<Rightarrow> 1 | _ \<Rightarrow> 0)"

definition free_run :: "nat \<Rightarrow> 'g race \<Rightarrow> bool" where
  "free_run j s \<longleftrightarrow> j < length (rc_requests s) \<and> unhindered j s"

lemma free_run_requests:
  "rc_requests s' = rc_requests (set_phase j p s) \<Longrightarrow> free_run j s' \<longleftrightarrow> free_run j s"
  using unhindered_set_phase [of j p s] by (simp add: free_run_def unhindered_def)

lemma find_used_some: "\<exists>s'. find_used G j s = Some s'"
  by (simp add: find_used_def Let_def split: option.split)

lemma insert_next_some: "\<exists>s'. insert_next L G cfg j old s = Some s'"
  by (auto simp: insert_next_def Let_def split: option.split res.split)

lemma insert_next_requests:
  assumes "insert_next L G cfg j old s = Some s'"
  shows "\<exists>p. rc_requests s' = rc_requests (set_phase j p s)"
  using assms by (rule insert_next_cases) auto

definition goes_on :: "lib \<Rightarrow> 'g grace_ops \<Rightarrow> dpop_config \<Rightarrow> nat \<Rightarrow> 'g race \<Rightarrow> bool" where
  "goes_on L G cfg j s \<longleftrightarrow>
     (\<exists>e s'. event_of j e \<and> fire L G cfg e s = Some s' \<and> free_run j s' \<and> steps_left j s' < steps_left j s)"

lemma goes_on_advance:
  assumes "free_run j s" and "advance L G cfg j s = Some s'"
    and "rc_requests s' = rc_requests (set_phase j p s)" and "steps_left j s' < steps_left j s"
  shows "goes_on L G cfg j s"
  unfolding goes_on_def
  by (intro exI [of _ "Advance j"] exI [of _ s'])
    (use assms free_run_requests [OF assms(3)] in \<open>simp_all add: free_run_def\<close>)

lemma unhindered_goes_on:
  assumes free: "free_run j s" and open_phase: "\<not> ended (phase_of j s)"
  shows "goes_on L G cfg j s"
proof -
  have j: "j < length (rc_requests s)" and lock: "\<And>h. lockable s j h"
    using free by (simp_all add: free_run_def unhindered_lockable)
  show ?thesis
  proof (cases "phase_of j s")
    case Begun
    with j lock show ?thesis
      by (cases "active_row (q_hash (rc_requests s ! j)) (refresh_tokens (rc_db s))")
        (auto intro!: goes_on_advance [OF free] simp: advance_def revoke_own_def steps_left_def Let_def)
  next
    case Not_active
    obtain s' where s': "find_used G j s = Some s'" using find_used_some by blast
    from find_used_phase [OF this j] s' Not_active j show ?thesis
      by (intro goes_on_advance [OF free, of L G cfg s' "phase_of j s'"])
        (auto simp: advance_def steps_left_def Let_def)
  next
    case (Claimed old)
    obtain s' where s': "insert_next L G cfg j old s = Some s'" using insert_next_some by blast
    obtain p where "rc_requests s' = rc_requests (set_phase j p s)" using insert_next_requests [OF s'] by blast
    with insert_next_phase [OF s' j] s' Claimed show ?thesis
      by (intro goes_on_advance [OF free, of L G cfg s' p])
        (auto simp: advance_def steps_left_def Let_def)
  next
    case (Prepared old new t pair)
    then show ?thesis
      by (intro goes_on_advance [OF free, of L G cfg _ "Rotated old new t pair"])
        (use j in \<open>auto simp: advance_def commit_next_def steps_left_def Let_def\<close>)
  next
    case (Reuse_found fam)
    have "length (active_in fam (refresh_tokens (rc_db s))) \<le> length (refresh_tokens (rc_db s))"
      by (simp add: active_in_def)
    with Reuse_found j show ?thesis
      by (intro goes_on_advance [OF free])
        (auto simp: advance_def revoke_family_def Let_def steps_left_def)
  next
    case (Revoking fam seen todo locked)
    show ?thesis
    proof (cases todo)
      case Nil
      with Revoking j show ?thesis
        by (intro goes_on_advance [OF free, of L G cfg _ "Reuse_answered fam seen"])
          (auto simp: advance_def commit_revoked_def steps_left_def Let_def)
    next
      case (Cons h hs)
      then have "length (removeAll h todo) < length todo" by (intro length_removeAll_less) simp
      with Revoking j lock free Cons show ?thesis
        unfolding goes_on_def
        by (intro exI [of _ "Lock_row j h"]) (simp add: lock_row_def free_run_requests steps_left_def Let_def)
    qed
  qed (use open_phase in \<open>simp_all add: ended_def\<close>)
qed

lemma alone_ends:
  assumes "free_run j s"
  shows "\<exists>es s'. list_all (event_of j) es \<and> run L G cfg es s = Some s' \<and> ended (phase_of j s')"
  using assms
proof (induction "steps_left j s" arbitrary: s rule: less_induct)
  case less
  show ?case
  proof (cases "ended (phase_of j s)")
    case True
    then show ?thesis by (intro exI [of _ "[]"]) simp
  next
    case False
    with unhindered_goes_on [OF less.prems, of L G cfg] obtain e s1 where s1: "event_of j e"
      "fire L G cfg e s = Some s1" "free_run j s1" "steps_left j s1 < steps_left j s"
      by (auto simp: goes_on_def)
    from less.hyps [OF s1(4,3)] obtain es s' where "list_all (event_of j) es"
      "run L G cfg es s1 = Some s'" "ended (phase_of j s')" by blast
    with s1 show ?thesis by (intro exI [of _ "e # es"]) simp
  qed
qed

text \<open>The state in which it ends, in the terms of \<open>refresh_without_active\<close> and \<open>refresh_with_active\<close>.\<close>

lemma ended_without_active:
  assumes way: "on_the_way L G cfg j s s'" and fin: "ended (phase_of j s')"
    and j: "j < length (rc_requests s)" and begun: "q_begun (rc_requests s ! j) = rc_now s"
    and h: "q_hash (rc_requests s ! j) = h"
    and uniq: "distinct (map r_token_hash (refresh_tokens (rc_db s)))"
    and none: "active_row h (refresh_tokens (rc_db s)) = None"
  shows "rc_grace s' = rc_grace s \<and>
    (case find (\<lambda>r. r_token_hash r = h) (refresh_tokens (rc_db s)) of
       None \<Rightarrow> phase_of j s' = Turned_away \<and> rc_db s' = rc_db s
     | Some existing \<Rightarrow>
         (case cache_get G (rc_now s) (r_fam existing, h) (rc_grace s) of
            Some cached \<Rightarrow> phase_of j s' = Repeated cached \<and> rc_db s' = rc_db s
          | None \<Rightarrow> (\<exists>fam seen. phase_of j s' = Reuse_answered fam seen) \<and>
              rc_db s' = revoke_where (int (rc_now s)) (\<lambda>r. r_fam r = r_fam existing) (rc_db s)))"
proof -
  have looked: "find_used G j (set_phase j Not_active s) = Some s' \<Longrightarrow> ?thesis"
    using fin j h by (auto simp: find_used_def Let_def ended_def split: option.splits)
  show ?thesis
  proof (cases "phase_of j s'")
    case (Reuse_answered fam seen)
    then obtain locked where found: "find_used G j (set_phase j Not_active s) = Some (set_phase j (Reuse_found fam) s)"
      and locked: "set locked = r_token_hash ` set (active_in fam (refresh_tokens (rc_db s)))"
      and s': "commit_revoked j fam seen locked (set_phase j (Revoking fam seen [] locked) s) = Some s'"
      using way by (auto simp: on_the_way_def Let_def)
    obtain existing where "find (\<lambda>r. r_token_hash r = h) (refresh_tokens (rc_db s)) = Some existing"
      "cache_get G (rc_now s) (r_fam existing, h) (rc_grace s) = None" "r_fam existing = fam"
    proof -
      have "phase_of j (set_phase j (Reuse_found fam) s) = Reuse_found fam" using j by simp
      with found show thesis
        using that j h by (fastforce simp: find_used_def Let_def split: option.splits dest: arg_cong [of _ _ "phase_of j"])
    qed
    then show ?thesis
      using s' family_update_of_hashes [OF uniq locked] Reuse_answered j begun
      by (auto simp: commit_revoked_def)
  qed (use way fin none h looked in \<open>auto simp: on_the_way_def Let_def ended_def\<close>)
qed

lemma ended_with_active:
  assumes way: "on_the_way L G cfg j s s'" and fin: "ended (phase_of j s')"
    and j: "j < length (rc_requests s)" and free: "unhindered j s"
    and begun: "q_begun (rc_requests s ! j) = rc_now s" and h: "q_hash (rc_requests s ! j) = h"
    and active: "active_row h (refresh_tokens (rc_db s)) = Some old"
  shows "case rotation L cfg (rc_now s) (rc_draws s) (rc_pg s) (rc_db s) old
      (q_jkt (rc_requests s ! j)) (q_user_agent (rc_requests s ! j)) of
      Turned_away \<Rightarrow> phase_of j s' = Turned_away \<and> rc_db s' = rc_db s \<and> rc_grace s' = rc_grace s
    | Prepared old row t pair \<Rightarrow> phase_of j s' = Rotated old row t pair \<and>
        rc_db s' = (rc_db s)\<lparr>refresh_tokens :=
          revoke_rows (int (rc_now s)) (\<lambda>r. r_token_hash r = r_token_hash old) (refresh_tokens (rc_db s)) @ [row]\<rparr> \<and>
        rc_grace s' = cache_insert G (rc_now s) (r_fam old, h) pair (rc_grace s)
    | _ \<Rightarrow> phase_of j s' = Failed \<and> rc_db s' = rc_db s \<and> rc_grace s' = rc_grace s"
proof -
  let ?p = "rotation L cfg (rc_now s) (rc_draws s) (rc_pg s) (rc_db s) old
      (q_jkt (rc_requests s ! j)) (q_user_agent (rc_requests s ! j))"
  let ?s1 = "set_phase j (Claimed old) s"
  have p: "?p \<in> {Turned_away, Failed} \<or> (\<exists>row t pair. ?p = Prepared old row t pair)"
    by (simp add: rotation_def split: option.split res.split)
  have ins: "insert_next L G cfg j old ?s1 =
      Some (case ?p of
          Prepared old row t pair \<Rightarrow>
            set_phase j ?p (?s1\<lparr>rc_draws := rc_draws s + 2, rc_pg := rc_pg s + 1,
               rc_grace := cache_insert G (rc_now s) (r_fam old, h) pair (rc_grace s)\<rparr>)
        | _ \<Rightarrow> set_phase j ?p ?s1)"
    using insert_next_alone [of j ?s1 L cfg old ?p G] free begun j h by (simp cong: refresh_phase.case_cong)
  show ?thesis
    using p
  proof (elim disjE exE)
    fix row t pair assume "?p = Prepared old row t pair"
    with ins way fin j active h begun show ?thesis
      by (cases "phase_of j s'") (auto simp: on_the_way_def Let_def ended_def commit_next_def)
  next
    assume "?p \<in> {Turned_away, Failed}"
    with ins way fin j active h show ?thesis
      by (cases "phase_of j s'") (auto simp: on_the_way_def Let_def ended_def)
  qed
qed

end
