(* ===== verification/Race_Properties.thy ===== *)
theory Race_Properties
  imports Race_Alone
begin

text \<open>
  What the interleaved refreshes guarantee: a request that nothing comes between ends with the
  result, the table and the cache of \<open>refresh\<close> of \<open>Auth_Service\<close>, every interleaving is a run of the machine of the families, no
  token is rotated twice, a retry that comes too late to rotate gets the pair of the winner, and
  the exact reach of the revocation after a detected reuse.
\<close>

section \<open>A request that runs alone\<close>

text \<open>C13. A request that no other request hinders and whose own statements alone are run does in the
  interleaved model exactly what \<open>refresh\<close> does in one go, on a database that answers: it can
  always be brought to its end, and however it is, it ends with the result of \<open>refresh\<close> on the same
  tables, cache, clock and random values - the rotated or the remembered pair, \<open>Unauthorized\<close>, or
  another error - and with the tables and the grace cache that \<open>refresh\<close> leaves.\<close>

theorem alone_refresh_agrees:
  assumes "reliable L" and "hex_laws L" and "distinct (map r_token_hash (refresh_tokens (rc_db s)))"
    and "j < length (rc_requests s)" and "unhindered j s"
    and "rc_requests s ! j =
      \<lparr> q_hash = hash_token L token, q_jkt = jkt, q_user_agent = ua, q_begun = rc_now s, q_phase = Begun \<rparr>"
    and "same_start w s"
  shows "(\<exists>es s'. list_all (event_of j) es \<and> run L G (svc_config svc) es s = Some s' \<and> ended (phase_of j s')) \<and>
    (\<forall>es s'. list_all (event_of j) es \<and> run L G (svc_config svc) es s = Some s' \<and> ended (phase_of j s') \<longrightarrow>
       (case refresh L G (rc_now s) svc token jkt ua w of
          (r, w') \<Rightarrow> answers (phase_of j s') r \<and> db w' = rc_db s' \<and> grace_cache w' = rc_grace s'))"
proof (intro conjI allI impI; (elim conjE)?)
  show "\<exists>es s'. list_all (event_of j) es \<and> run L G (svc_config svc) es s = Some s' \<and> ended (phase_of j s')"
    by (rule alone_ends) (use assms(4,5) in \<open>simp add: free_run_def\<close>)
next
  let ?h = "hash_token L token"
  fix es s' assume own: "list_all (event_of j) es" and ran: "run L G (svc_config svc) es s = Some s'"
    and fin: "ended (phase_of j s')"
  have q: "q_begun (rc_requests s ! j) = rc_now s" "q_hash (rc_requests s ! j) = ?h" and w: "tx w = Auto"
    "db w = rc_db s" "grace_cache w = rc_grace s" "w_draws w = rc_draws s" "pg_draws w = rc_pg s"
    using assms(6,7) by (simp_all add: same_start_def)
  have "on_the_way L G (svc_config svc) j s s" using assms(6) by (simp add: on_the_way_def)
  then have way: "on_the_way L G (svc_config svc) j s s'" by (rule on_the_way_run [OF _ assms(4) own ran])
  obtain r w' where r: "refresh L G (rc_now s) svc token jkt ua w = (r, w')" by fastforce
  have texts: "pg_text ?h" by (rule hash_token_text [OF assms(2)])
  have "answers (phase_of j s') r \<and> db w' = rc_db s' \<and> grace_cache w' = rc_grace s'"
  proof (cases "active_row ?h (refresh_tokens (rc_db s))")
    case None
    with ended_without_active [OF way fin assms(4) q assms(3)] refresh_without_active [OF assms(1) w(1) texts _ r] w
    show ?thesis by (auto simp: answers_def split: option.splits)
  next
    case (Some old)
    with ended_with_active [OF way fin assms(4,5) q] refresh_with_active [OF assms(1) w(1) texts _ _ r] w assms(3,6)
    show ?thesis by (auto simp: answers_def kept_def split: refresh_phase.splits)
  qed
  then show "case refresh L G (rc_now s) svc token jkt ua w of
      (r, w') \<Rightarrow> answers (phase_of j s') r \<and> db w' = rc_db s' \<and> grace_cache w' = rc_grace s'"
    by (simp add: r)
qed

section \<open>Every interleaving\<close>

text \<open>C8. Every interleaving of refreshes, sign-ins and sign-outs is a run of the machine of the
  families, just as operations that run one after the other are; so at every moment each family
  has at most one active token, and a family without one never gets one again.\<close>

theorem race_refines_sessions:
  assumes "uuid_laws L" and "race_reachable L G cfg s" and "(race_step L G cfg)\<^sup>*\<^sup>* s s'"
  shows "(token_step L)\<^sup>*\<^sup>* (race_view s) (race_view s') \<and>
    length (active_in fam (refresh_tokens (rc_db s'))) \<le> 1 \<and>
    (dead fam (race_view s) \<longrightarrow> active_in fam (refresh_tokens (rc_db s')) = [])"
proof (intro conjI impI)
  have inv: "uuid_laws L \<and> race_inv L s" using reachable_race_inv [OF assms(1,2)] assms(1) by simp
  show run: "(token_step L)\<^sup>*\<^sup>* (race_view s) (race_view s')" by (rule races.steps_sim [OF assms(3) inv])
  have "family_inv L (race_view s')"
    using races.steps_inv [OF assms(3) inv] by (simp add: race_inv_def)
  then show "length (active_in fam (refresh_tokens (rc_db s'))) \<le> 1"
    by (simp add: family_inv_def race_view_def)
  assume "dead fam (race_view s)"
  then have "dead fam (race_view s')"
    using uuid_laws.ended_session_stays [OF assms(1) run] inv by (simp add: race_inv_def)
  then show "active_in fam (refresh_tokens (rc_db s')) = []" by (simp add: dead_def race_view_def)
qed

text \<open>C9. No two requests rotate the same token, however their statements interleave.\<close>

theorem token_rotated_once:
  assumes "uuid_laws L" and "race_reachable L G cfg s"
    and "i < length (rc_requests s)" and "j < length (rc_requests s)" and "i \<noteq> j"
    and "q_phase (rc_requests s ! i) = Rotated old new t pair"
    and "q_phase (rc_requests s ! j) = Rotated old' new' t' pair'"
  shows "r_token_hash old \<noteq> r_token_hash old'"
proof -
  have ok: "race_ok s" using reachable_race_inv [OF assms(1,2)] by (simp add: race_inv_def)
  have "apart (rc_requests s ! i) (rc_requests s ! j)" by (rule requests_okD(2) [OF ok assms(3,4,5)])
  then show ?thesis
    using requests_okD(1) [OF ok assms(3)] requests_okD(1) [OF ok assms(4)] assms(6,7)
    by (simp add: apart_def is_rotated_def phase_ok_def)
qed

text \<open>A logout with a token that has been rotated changes nothing, so the session goes on under the
  successor; a logout that comes during the rotation waits for its commit and then does the same.\<close>

lemma sign_out_after_rotation:
  assumes "uuid_laws L" and "race_reachable L G cfg s" and "i < length (rc_requests s)"
    and "q_phase (rc_requests s ! i) = Rotated old new t pair"
  shows "fire L G cfg (Sign_out (r_token_hash old)) s = Some s"
proof -
  have ok: "race_ok s" using reachable_race_inv [OF assms(1,2)] by (simp add: race_inv_def)
  have "settled (refresh_tokens (rc_db s)) (r_token_hash old)"
    using requests_okD(1) [OF ok assms(3)] assms(4) by (simp add: phase_ok_def)
  then have "active_row (r_token_hash old) (refresh_tokens (rc_db s)) = None"
    by (auto simp: active_row_def find_None_iff settled_def active_def)
  then show ?thesis by (simp add: sign_out_def)
qed

text \<open>C10. A second request with the same token that lost against a committed rotation gets the
  pair of the winner, not a reuse alarm, as long as the grace period has not passed since the
  winner wrote it and the cache has room for one entry of each request: the entry is written before
  the commit that makes the loser see the token revoked. The key of the second request plays no
  part: one that proves possession of another key, which the documentation of \<open>refresh\<close>
  (service/auth.rs:375) says is answered with \<open>Unauthorized\<close>, gets the pair as well, since this
  branch of the code does not compare the thumbprints.\<close>

theorem late_retry_gets_same_pair:
  assumes "uuid_laws L" and "moka G entries ttl capacity" and "race_reachable L G cfg s"
    and "length (rc_requests s) \<le> GRACE_CAPACITY"
    and "i < length (rc_requests s)" and "q_phase (rc_requests s ! i) = Rotated old new t pair"
    and "j < length (rc_requests s)" and "q_phase (rc_requests s ! j) = Not_active"
    and "q_hash (rc_requests s ! j) = q_hash (rc_requests s ! i)"
    and "rc_now s < t + grace_period cfg"
  shows "fire L G cfg (Advance j) s = Some (set_phase j (Repeated pair) s)"
proof -
  let ?h = "q_hash (rc_requests s ! i)" and ?ts = "refresh_tokens (rc_db s)"
  have inv: "grace_inv L entries ttl capacity cfg s" by (rule reachable_grace_inv [OF assms(2,1,3)])
  then have ok: "race_ok s" by (simp add: grace_inv_def race_inv_def)
  have "phase_ok ?ts (rc_requests s ! i)" by (rule requests_okD(1) [OF ok assms(5)])
  then have i: "settled ?ts ?h" "\<And>r. r \<in> set ?ts \<Longrightarrow> r_token_hash r = ?h \<Longrightarrow> r_fam r = r_fam old"
    using assms(6) by (simp_all add: phase_ok_def)
  have "grace_ok entries ttl s" "ttl (rc_grace s) = grace_period cfg"
    using inv assms(4) by (simp_all add: grace_inv_def)
  then have "remembered entries (grace_period cfg) (rc_now s) (rc_grace s) (rc_requests s ! i)"
    using nth_mem [OF assms(5)] by (auto simp only: grace_ok_def)
  then have hit: "cache_get G (rc_now s) (r_fam old, ?h) (rc_grace s) = Some pair"
    using inv assms(6,10) by (simp add: remembered_def moka.get_entries [OF assms(2)] grace_inv_def)
  obtain r where r: "find (\<lambda>r. r_token_hash r = ?h) ?ts = Some r"
    using i(1) by (cases "find (\<lambda>r. r_token_hash r = ?h) ?ts") (auto simp: settled_def find_None_iff)
  then have "r_fam r = r_fam old" using i(2) find_SomeD [OF r] by blast
  with r hit assms(7,8,9) show ?thesis by (simp add: advance_def find_used_def Let_def)
qed

section \<open>The reach of a detected reuse\<close>

text \<open>A request that has started to revoke a family stays with the rows its statement saw.\<close>

definition revoking_seen :: "uuid \<Rightarrow> string list \<Rightarrow> refresh_request \<Rightarrow> bool" where
  "revoking_seen fam seen q \<longleftrightarrow>
     (case q_phase q of
        Revoking fam' seen' todo locked \<Rightarrow> fam' = fam \<and> seen' = seen
      | Reuse_answered fam' seen' \<Rightarrow> fam' = fam \<and> seen' = seen
      | Failed \<Rightarrow> True
      | _ \<Rightarrow> False)"

definition other_phase :: "nat \<Rightarrow> 'g race \<Rightarrow> 'g race \<Rightarrow> bool" where
  "other_phase j s s' \<longleftrightarrow>
     length (rc_requests s) \<le> length (rc_requests s') \<and>
     (\<forall>i<length (rc_requests s). i \<noteq> j \<longrightarrow> rc_requests s' ! i = rc_requests s ! i)"

lemma other_phase_update [simp]:
  "rc_requests s' = (rc_requests s)[j := q] \<Longrightarrow> other_phase j s s'"
  by (simp add: other_phase_def)

lemma advance_other: "advance L G cfg j s = Some s' \<Longrightarrow> other_phase j s s'"
proof (cases "q_phase (rc_requests s ! j)")
  case (Claimed old)
  moreover assume "advance L G cfg j s = Some s'"
  ultimately have "insert_next L G cfg j old s = Some s'" by (simp add: advance_def)
  then show ?thesis by (rule insert_next_cases) auto
qed (auto simp: advance_def Let_def revoke_own_def find_used_def revoke_family_def commit_next_def
      commit_revoked_def split: option.splits if_splits)

lemma revoking_seen_fire:
  assumes "revoking_seen fam seen (rc_requests s ! j)" and "j < length (rc_requests s)"
    and "fire L G cfg e s = Some s'"
  shows "revoking_seen fam seen (rc_requests s' ! j) \<and> j < length (rc_requests s')"
proof (cases e)
  case (Advance i)
  from assms(3) [unfolded this] have i: "i < length (rc_requests s)" "advance L G cfg i s = Some s'"
    by (auto elim: fire_AdvanceE split: if_splits)
  show ?thesis
  proof (cases "i = j")
    case True
    with i assms(1,2) show ?thesis
      by (auto simp: revoking_seen_def advance_def commit_revoked_def split: refresh_phase.splits if_splits)
  qed (use advance_other [OF i(2)] assms(1,2) in \<open>auto simp: other_phase_def\<close>)
next
  case (Lock_row i h)
  with assms show ?thesis
    by (cases "i = j") (auto simp: revoking_seen_def lock_row_def split: refresh_phase.splits if_splits)
next
  case (Drop_request i)
  with assms show ?thesis
    by (cases "i = j") (auto simp: revoking_seen_def give_up_def split: refresh_phase.splits if_splits)
next
  case (Sign_in uid jkt ua)
  with assms(3) have "sign_in L cfg uid jkt ua s = Some s'" by simp
  then show ?thesis by (rule sign_in_cases) (use assms(1,2) in auto)
qed (use assms in \<open>auto simp: arrive_def nth_append sign_out_def split: option.splits if_splits\<close>)

lemma revoking_seen_steps:
  assumes "(race_step L G cfg)\<^sup>*\<^sup>* s s'" and "revoking_seen fam seen (rc_requests s ! j)"
    and "j < length (rc_requests s)"
  shows "revoking_seen fam seen (rc_requests s' ! j) \<and> j < length (rc_requests s')"
  using assms
  by (induction rule: converse_rtranclp_induct) (auto simp: race_step_iff dest: revoking_seen_fire)

text \<open>C11. Once a request that detected a reuse has answered, every token of the family that was
  active when its \<open>UPDATE\<close> started is revoked, whatever other requests did in between.\<close>

theorem reuse_revokes_seen:
  assumes "uuid_laws L" and "race_reachable L G cfg s"
    and "j < length (rc_requests s)" and "q_phase (rc_requests s ! j) = Reuse_found fam"
    and "fire L G cfg (Advance j) s = Some s1" and "(race_step L G cfg)\<^sup>*\<^sup>* s1 s'"
    and "q_phase (rc_requests s' ! j) = Reuse_answered fam' seen"
    and "r \<in> set (active_in fam (refresh_tokens (rc_db s)))" and "r' \<in> set (refresh_tokens (rc_db s'))"
    and "r_token_hash r' = r_token_hash r"
  shows "\<not> active r'"
proof -
  let ?seen = "map r_token_hash (active_in fam (refresh_tokens (rc_db s)))"
  have s1: "s1 = set_phase j (Revoking fam ?seen ?seen []) s"
    using assms(3-5) by (simp add: advance_def revoke_family_def Let_def)
  have kept: "revoking_seen fam ?seen (rc_requests s' ! j) \<and> j < length (rc_requests s')"
    by (rule revoking_seen_steps [OF assms(6)]) (use assms(3) in \<open>simp_all add: s1 revoking_seen_def\<close>)
  then have seen: "seen = ?seen" using assms(7) by (simp add: revoking_seen_def)
  have "race_step L G cfg s s1" using assms(5) unfolding race_step_iff by blast
  with assms(2,6) have "race_reachable L G cfg s'"
    unfolding race_reachable_def by (meson rtranclp.rtrancl_into_rtrancl rtranclp_trans)
  from reachable_race_inv [OF assms(1) this] have ok: "race_ok s'" by (simp add: race_inv_def)
  from requests_okD(1) [OF ok kept [THEN conjunct2]] assms(7) have "settled (refresh_tokens (rc_db s')) (r_token_hash r)"
    using assms(8) by (simp add: phase_ok_def seen)
  then show ?thesis using assms(9,10) by (auto simp: settled_def)
qed

text \<open>A family on which a reuse and a rotation race: \<open>demo_used\<close> has been rotated before, its
  successor \<open>demo_row\<close> is active.\<close>

definition demo_used :: refresh_token_row where
  "demo_used = demo_row\<lparr>r_id := 104, r_token_hash := hash_token ref_lib ''s0'', r_revoked_at := Some 0\<rparr>"

definition demo_race :: "(uuid \<times> string, replacement_tokens) ref_cache race" where
  "demo_race =
     \<lparr> rc_now = from_secs 1000, rc_draws = 1, rc_pg = 200,
       rc_db = demo_tables\<lparr>refresh_tokens := [demo_used, demo_row]\<rparr>,
       rc_grace = cache_build ref_ops (from_secs 5) GRACE_CAPACITY, rc_requests = [] \<rparr>"

definition demo_next :: refresh_token_row where
  "demo_next =
     \<lparr> r_id = pg_uuid ref_lib 200, r_user_id = 100, r_token_hash = hash_token ref_lib demo_secret,
       r_fam = 0, r_dpop_jkt = ''jkt1'', r_user_agent = None, r_expires_at = int (from_secs 5000),
       r_revoked_at = None, r_created_at = int (from_secs 1000) \<rparr>"

definition demo_next_pair :: replacement_tokens where
  "demo_next_pair =
     \<lparr> rt_access_token = demo_access, rt_refresh_token = demo_secret,
       rt_expires_in = as_secs (access_token_ttl demo_service_config) \<rparr>"

definition request_at :: "string \<Rightarrow> string \<Rightarrow> refresh_phase \<Rightarrow> refresh_request" where
  "request_at h jkt p =
     \<lparr> q_hash = h, q_jkt = jkt, q_user_agent = None, q_begun = from_secs 1000, q_phase = p \<rparr>"

abbreviation demo_fire :: "race_event \<Rightarrow> (uuid \<times> string, replacement_tokens) ref_cache race \<Rightarrow>
    (uuid \<times> string, replacement_tokens) ref_cache race option" where
  "demo_fire \<equiv> fire ref_lib ref_ops demo_service_config"

lemma demo_race_simps [simp]:
  "rc_now demo_race = from_secs 1000" "rc_draws demo_race = 1" "rc_pg demo_race = 200"
  "users (rc_db demo_race) = [demo_user]" "refresh_tokens (rc_db demo_race) = [demo_used, demo_row]"
  "rc_grace demo_race = cache_build ref_ops (from_secs 5) GRACE_CAPACITY" "rc_requests demo_race = []"
  by (simp_all add: demo_race_def)

lemma demo_used_differs: "hash_token ref_lib ''s0'' \<noteq> demo_hash"
proof -
  have fourth: "hash_token ref_lib (a # b # s) ! 3 = hex_digit (of_char b mod 16)" for a b s
    by (simp add: hash_token_def ref_sha256_def ref_hex_encode_def numeral_3_eq_3)
  have "hex_digit (of_char CHR ''0'' mod 16) \<noteq> hex_digit (of_char CHR ''1'' mod 16)" by code_simp
  then have "hash_token ref_lib ''s0'' ! 3 \<noteq> hash_token ref_lib ''s1'' ! 3" unfolding fourth .
  then show ?thesis unfolding demo_hash_def by metis
qed

lemma demo_secret_differs: "hash_token ref_lib demo_secret \<noteq> hash_token ref_lib ''s0''"
proof -
  have "hd (hash_token ref_lib ''s0'') = hd demo_hash" by (simp add: demo_hash_def hd_ref_hash del: demo_hash_fold)
  then show ?thesis using demo_secret_hd by auto
qed

lemma demo_used_simps [simp]:
  "r_token_hash demo_used = hash_token ref_lib ''s0''" "r_revoked_at demo_used = Some 0" "r_fam demo_used = 0"
  "\<not> active demo_used" "same_session demo_used r \<longleftrightarrow> same_session demo_row r"
  "same_session r demo_used \<longleftrightarrow> same_session r demo_row"
  by (simp_all add: demo_used_def active_def same_session_def)

lemma demo_race_init: "race_init ref_lib ref_ops demo_service_config demo_race"
  by (auto simp: race_init_def race_view_def family_inv_def active_in_def demo_used_differs
      demo_service_config_def)

definition demo_revoked :: refresh_token_row where
  "demo_revoked = demo_row\<lparr>r_revoked_at := Some (int (from_secs 1000))\<rparr>"

lemma demo_active_rows:
  "active_row demo_hash [demo_used, demo_row] = Some demo_row"
  "active_row (hash_token ref_lib ''s0'') [demo_used, demo_row] = None"
  "active_row demo_hash [demo_used, demo_revoked, demo_next] = None"
  "active_in 0 [demo_used, demo_row] = [demo_row]"
  "revoke_rows (int (from_secs 1000)) (\<lambda>r. r_token_hash r = demo_hash) [demo_used, demo_row] = [demo_used, demo_revoked]"
  using demo_used_differs demo_secret_differs demo_secret_fresh demo_row_simps(3)
  by (auto simp: active_row_def active_in_def demo_revoked_def demo_next_def revoke_rows_def active_def)

text \<open>The two requests, at each moment of the run.\<close>

definition demo_at :: "refresh_phase \<Rightarrow> refresh_phase \<Rightarrow> (uuid \<times> string, replacement_tokens) ref_cache race \<Rightarrow>
    (uuid \<times> string, replacement_tokens) ref_cache race" where
  "demo_at p q s =
     s\<lparr>rc_requests := [request_at (hash_token ref_lib ''s0'') ''jkt1'' p, request_at demo_hash ''jkt1'' q]\<rparr>"

definition demo_prepared :: "(uuid \<times> string, replacement_tokens) ref_cache race" where
  "demo_prepared = demo_race\<lparr>rc_draws := 3, rc_pg := 201,
     rc_grace := cache_insert ref_ops (from_secs 1000) (0, demo_hash) demo_next_pair
       (cache_build ref_ops (from_secs 5) GRACE_CAPACITY)\<rparr>"

definition demo_committed :: "(uuid \<times> string, replacement_tokens) ref_cache race" where
  "demo_committed = demo_prepared\<lparr>rc_db := demo_tables\<lparr>refresh_tokens := [demo_used, demo_revoked, demo_next]\<rparr>\<rparr>"

lemma demo_at_simps [simp]:
  "rc_requests (demo_at p q s) = [request_at (hash_token ref_lib ''s0'') ''jkt1'' p, request_at demo_hash ''jkt1'' q]"
  "rc_now (demo_at p q s) = rc_now s" "rc_db (demo_at p q s) = rc_db s" "rc_grace (demo_at p q s) = rc_grace s"
  "rc_draws (demo_at p q s) = rc_draws s" "rc_pg (demo_at p q s) = rc_pg s"
  "set_phase 0 p' (demo_at p q s) = demo_at p' q s" "set_phase (Suc 0) q' (demo_at p q s) = demo_at p q' s"
  by (simp_all add: demo_at_def set_phase_def request_at_def)

lemma request_at_simps [simp]:
  "q_hash (request_at h j p) = h" "q_jkt (request_at h j p) = j" "q_user_agent (request_at h j p) = None"
  "q_begun (request_at h j p) = from_secs 1000" "q_phase (request_at h j p) = p"
  by (simp_all add: request_at_def)

lemma demo_tables_update [simp]: "rc_db demo_race = demo_tables\<lparr>refresh_tokens := [demo_used, demo_row]\<rparr>"
  by (simp add: demo_race_def)

lemma demo_next_simps [simp]:
  "r_dpop_jkt demo_next = ''jkt1''" "r_user_id demo_next = 100" "r_expires_at demo_next = int (from_secs 5000)"
  by (simp_all add: demo_next_def)

lemma demo_prepare:
  assumes "hash_token ref_lib demo_secret \<notin> set (held (request_at (hash_token ref_lib ''s0'') ''jkt1'' p))"
  shows "insert_next ref_lib ref_ops demo_service_config (Suc 0) demo_row (demo_at p (Claimed demo_row) demo_race) =
   Some (demo_at p (Prepared demo_row demo_next (from_secs 1000) demo_next_pair) demo_prepared)"
proof -
  have free: "lockable (demo_at p (Claimed demo_row) demo_race) (Suc 0) (hash_token ref_lib demo_secret)"
    using assms by (simp add: lockable_def)
  have "\<not> row_refused (demo_tables\<lparr>refresh_tokens := [demo_used, demo_row]\<rparr>) demo_next"
    using hash_token_text [OF ref_hex.hex_laws_axioms] demo_texts demo_secret_fresh demo_secret_differs
    by (simp add: row_refused_def demo_next_def opt_text_def demo_used_def)
  moreover have "issue_access_token ref_lib (from_secs 1000) 2 (signer demo_service_config) (issuer demo_service_config)
     (audience demo_service_config) (access_token_ttl demo_service_config) (uuid_to_string ref_lib (u_public_id demo_user))
     ''jkt1'' [(''name'', JStr (u_name demo_user))] = Ok demo_access"
    by (rule demo_access_issued)
  ultimately show ?thesis
    using free
    by (simp add: insert_next_def Let_def demo_new_secret numeral_2_eq_2 demo_next_def demo_next_pair_def
        demo_at_def demo_prepared_def set_phase_def request_at_def demo_race_def not_le)
qed

lemma demo_commit:
  "commit_next (Suc 0) demo_row demo_next t pair (demo_at p q demo_prepared) =
   Some (demo_at p (Rotated demo_row demo_next t pair) demo_committed)"
  by (simp add: commit_next_def demo_at_def demo_committed_def demo_prepared_def set_phase_def request_at_def
      demo_race_def demo_active_rows)

abbreviation demo_step :: "(uuid \<times> string, replacement_tokens) ref_cache race \<Rightarrow>
    (uuid \<times> string, replacement_tokens) ref_cache race \<Rightarrow> bool" where
  "demo_step \<equiv> race_step ref_lib ref_ops demo_service_config"

text \<open>The reuse is detected and the revocation of the family starts; before it has the lock, the
  successor of the active token is committed.\<close>

definition demo_start :: "race_event list" where
  "demo_start =
     [Arrive (hash_token ref_lib ''s0'') ''jkt1'' None, Arrive demo_hash ''jkt1'' None, Advance 0, Advance 0]"

lemma demo_arrived:
  "arrive demo_hash ''jkt1'' None (arrive (hash_token ref_lib ''s0'') ''jkt1'' None demo_race) = demo_at Begun Begun demo_race"
  by (simp add: arrive_def demo_at_def request_at_def demo_race_def)

lemma demo_not_active: "revoke_own 0 (demo_at Begun q demo_race) = Some (demo_at Not_active q demo_race)"
  by (simp add: revoke_own_def demo_active_rows)

lemma demo_reuse: "find_used ref_ops 0 (demo_at Not_active q demo_race) = Some (demo_at (Reuse_found 0) q demo_race)"
  by (simp add: find_used_def Let_def ref_cache.get_build)

lemma demo_started:
  "run ref_lib ref_ops demo_service_config demo_start demo_race = Some (demo_at (Reuse_found 0) Begun demo_race)"
  by (simp add: demo_start_def demo_arrived advance_def demo_not_active demo_reuse)

definition demo_overtaken :: "race_event list" where
  "demo_overtaken = [Advance 0, Advance 1, Advance 1, Advance 1, Lock_row 0 demo_hash, Advance 0]"

lemma demo_overtakes:
  "run ref_lib ref_ops demo_service_config demo_overtaken (demo_at (Reuse_found 0) Begun demo_race) =
   Some (demo_at (Reuse_answered 0 [demo_hash])
           (Rotated demo_row demo_next (from_secs 1000) demo_next_pair) demo_committed)"
proof -
  let ?r = "Revoking 0 [demo_hash] [demo_hash] []"
  have "revoke_family 0 0 (demo_at (Reuse_found 0) Begun demo_race) = Some (demo_at ?r Begun demo_race)"
    by (simp add: revoke_family_def Let_def demo_active_rows)
  moreover have "revoke_own (Suc 0) (demo_at ?r Begun demo_race) = Some (demo_at ?r (Claimed demo_row) demo_race)"
    by (simp add: revoke_own_def demo_active_rows lockable_def held_def)
  moreover have "insert_next ref_lib ref_ops demo_service_config (Suc 0) demo_row (demo_at ?r (Claimed demo_row) demo_race) =
      Some (demo_at ?r (Prepared demo_row demo_next (from_secs 1000) demo_next_pair) demo_prepared)"
    by (rule demo_prepare) (simp add: held_def)
  moreover have "lock_row 0 0 [demo_hash] [demo_hash] [] demo_hash
        (demo_at ?r (Rotated demo_row demo_next (from_secs 1000) demo_next_pair) demo_committed) =
      Some (demo_at (Revoking 0 [demo_hash] [] []) (Rotated demo_row demo_next (from_secs 1000) demo_next_pair) demo_committed)"
    by (simp add: lock_row_def lockable_def held_def demo_committed_def demo_active_rows)
  moreover have "commit_revoked 0 0 [demo_hash] [] (demo_at p q demo_committed) =
      Some (demo_at (Reuse_answered 0 [demo_hash]) q demo_committed)" for p q
    by (simp add: commit_revoked_def demo_at_def set_phase_def request_at_def demo_committed_def
        demo_prepared_def demo_race_def revoke_where_def update_where_def)
  ultimately show ?thesis
    by (simp add: demo_overtaken_def advance_def demo_commit)
qed

lemma demo_reachable:
  "run ref_lib ref_ops demo_service_config es demo_race = Some s \<Longrightarrow> race_reachable ref_lib ref_ops demo_service_config s"
  using run_steps demo_race_init unfolding race_reachable_def by blast

text \<open>C12. A rotation whose transaction is open when the revocation of its family starts escapes
  it: the \<open>UPDATE\<close> does not see the successor, so after the request that detected the reuse has
  answered, the family has an active token, although the whole family is meant to be revoked.\<close>

theorem rotation_escapes_revocation:
  "\<exists>s fam seen. race_reachable ref_lib ref_ops demo_service_config s \<and>
     q_phase (rc_requests s ! 0) = Reuse_answered fam seen \<and> active_in fam (refresh_tokens (rc_db s)) \<noteq> []"
proof (intro exI conjI)
  let ?s = "demo_at (Reuse_answered 0 [demo_hash]) (Rotated demo_row demo_next (from_secs 1000) demo_next_pair) demo_committed"
  have "run ref_lib ref_ops demo_service_config (demo_start @ demo_overtaken) demo_race = Some ?s"
    by (simp add: run_append demo_started demo_overtakes)
  then show "race_reachable ref_lib ref_ops demo_service_config ?s" by (rule demo_reachable)
  show "q_phase (rc_requests ?s ! 0) = Reuse_answered 0 [demo_hash]" by simp
  show "active_in 0 (refresh_tokens (rc_db ?s)) \<noteq> []"
    by (simp add: demo_committed_def active_in_def demo_next_def active_def)
qed

section \<open>The statements at concrete requests\<close>

definition demo_final :: "(uuid \<times> string, replacement_tokens) ref_cache race" where
  "demo_final = demo_at (Reuse_answered 0 [demo_hash])
     (Rotated demo_row demo_next (from_secs 1000) demo_next_pair) demo_committed"

lemma demo_final_reachable: "race_reachable ref_lib ref_ops demo_service_config demo_final"
  by (rule demo_reachable [of "demo_start @ demo_overtaken"])
    (simp add: run_append demo_started demo_overtakes demo_final_def)

text \<open>One more request with the token that was rotated: it arrives and finds it revoked.\<close>

definition demo_late :: "string \<Rightarrow> (uuid \<times> string, replacement_tokens) ref_cache race" where
  "demo_late jkt = set_phase 2 Not_active (arrive demo_hash jkt None demo_final)"

lemma demo_final_simps:
  "rc_now demo_final = from_secs 1000" "rc_requests demo_final =
     [request_at (hash_token ref_lib ''s0'') ''jkt1'' (Reuse_answered 0 [demo_hash]),
      request_at demo_hash ''jkt1'' (Rotated demo_row demo_next (from_secs 1000) demo_next_pair)]"
  "refresh_tokens (rc_db demo_final) = [demo_used, demo_revoked, demo_next]"
  by (simp_all add: demo_final_def demo_committed_def demo_prepared_def)

lemma demo_late_run:
  "run ref_lib ref_ops demo_service_config [Arrive demo_hash jkt None, Advance 2] demo_final = Some (demo_late jkt)"
  by (simp add: advance_def arrive_def revoke_own_def demo_final_simps demo_active_rows demo_late_def)

lemma demo_late_reachable: "race_reachable ref_lib ref_ops demo_service_config (demo_late jkt)"
  using demo_final_reachable run_steps [OF demo_late_run]
  unfolding race_reachable_def by (meson rtranclp_trans)

text \<open>With the key the token is bound to, and with another one.\<close>

theorem late_retry_gets_same_pair_witness:
  "demo_fire (Advance 2) (demo_late ''jkt1'') = Some (set_phase 2 (Repeated demo_next_pair) (demo_late ''jkt1'')) \<and>
   demo_fire (Advance 2) (demo_late ''jkt2'') = Some (set_phase 2 (Repeated demo_next_pair) (demo_late ''jkt2''))"
proof -
  have "demo_fire (Advance 2) (demo_late jkt) = Some (set_phase 2 (Repeated demo_next_pair) (demo_late jkt))" for jkt
  proof (rule late_retry_gets_same_pair [OF ref_uuid.uuid_laws_axioms ref_cache.moka_axioms demo_late_reachable,
        where i = 1 and old = demo_row and new = demo_next and t = "from_secs 1000"])
  qed (simp_all add: demo_late_def arrive_def demo_final_simps GRACE_CAPACITY_def request_at_def
        demo_service_config_def from_secs_def NANOS_PER_SEC_def)
  then show ?thesis by blast
qed

theorem race_refines_sessions_witness:
  "(token_step ref_lib)\<^sup>*\<^sup>* (race_view demo_final) (race_view (demo_late ''jkt1'')) \<and>
   length (active_in 0 (refresh_tokens (rc_db (demo_late ''jkt1'')))) \<le> 1"
  using race_refines_sessions [OF ref_uuid.uuid_laws_axioms demo_final_reachable run_steps [OF demo_late_run], where fam = 0] by blast

lemma demo_alone_run:
  "run ref_lib ref_ops demo_service_config [Advance 1, Advance 1, Advance 1] (demo_at Begun Begun demo_race) =
   Some (demo_at Begun (Rotated demo_row demo_next (from_secs 1000) demo_next_pair) demo_committed)"
proof -
  have "revoke_own (Suc 0) (demo_at Begun Begun demo_race) = Some (demo_at Begun (Claimed demo_row) demo_race)"
    by (simp add: revoke_own_def demo_active_rows lockable_def held_def)
  moreover have "insert_next ref_lib ref_ops demo_service_config (Suc 0) demo_row (demo_at Begun (Claimed demo_row) demo_race) =
      Some (demo_at Begun (Prepared demo_row demo_next (from_secs 1000) demo_next_pair) demo_prepared)"
    by (rule demo_prepare) (simp add: held_def)
  ultimately show ?thesis by (simp add: advance_def demo_commit)
qed

theorem alone_refresh_agrees_witness:
  "case refresh ref_lib ref_ops (from_secs 1000) demo_service ''s1'' ''jkt1'' None (demo_world (rc_db demo_race)) of
     (r, w') \<Rightarrow> r = Ok (pair_of demo_next_pair) \<and> refresh_tokens (db w') = [demo_used, demo_revoked, demo_next]"
proof -
  let ?s = "demo_at Begun Begun demo_race"
  let ?s' = "demo_at Begun (Rotated demo_row demo_next (from_secs 1000) demo_next_pair) demo_committed"
  have "distinct (map r_token_hash (refresh_tokens (rc_db ?s)))" by (simp add: demo_used_differs)
  moreover have "unhindered 1 ?s" by (simp add: unhindered_def held_def)
  moreover have "rc_requests ?s ! 1 = \<lparr> q_hash = hash_token ref_lib ''s1'', q_jkt = ''jkt1'',
      q_user_agent = None, q_begun = rc_now ?s, q_phase = Begun \<rparr>" by (simp add: request_at_def)
  moreover have "same_start (demo_world (rc_db demo_race)) ?s" by (simp add: same_start_def)
  moreover have "ended (phase_of 1 ?s')" by (simp add: ended_def)
  ultimately have "case refresh ref_lib ref_ops (rc_now ?s) demo_service ''s1'' ''jkt1'' None (demo_world (rc_db demo_race)) of
      (r, w') \<Rightarrow> answers (phase_of 1 ?s') r \<and> db w' = rc_db ?s' \<and> grace_cache w' = rc_grace ?s'"
    using alone_refresh_agrees [OF demo_reliable ref_hex.hex_laws_axioms, of ?s 1 "''s1''" "''jkt1''" None
        "demo_world (rc_db demo_race)" ref_ops demo_service, THEN conjunct2, rule_format,
        of "[Advance 1, Advance 1, Advance 1]" ?s']
      demo_alone_run by simp
  then show ?thesis
    by (simp add: answers_def demo_committed_def split: prod.splits)
qed

theorem reuse_revokes_seen_witness:
  "demo_row \<in> set (active_in 0 (refresh_tokens (rc_db demo_race))) \<and> \<not> active demo_revoked"
proof -
  let ?s = "demo_at (Reuse_found 0) Begun demo_race"
  have reach: "race_reachable ref_lib ref_ops demo_service_config ?s" by (rule demo_reachable [OF demo_started])
  have first: "demo_fire (Advance 0) ?s = Some (demo_at (Revoking 0 [demo_hash] [demo_hash] []) Begun demo_race)"
    by (simp add: advance_def revoke_family_def Let_def demo_active_rows)
  have "run ref_lib ref_ops demo_service_config (tl demo_overtaken)
      (demo_at (Revoking 0 [demo_hash] [demo_hash] []) Begun demo_race) = Some demo_final"
    using demo_overtakes first by (simp add: demo_overtaken_def demo_final_def)
  from reuse_revokes_seen [OF ref_uuid.uuid_laws_axioms reach _ _ first run_steps [OF this],
      of 0 0 "[demo_hash]" demo_row demo_revoked]
  have "\<not> active demo_revoked"
    by (simp add: demo_final_simps demo_active_rows) (simp add: demo_revoked_def)
  then show ?thesis by (simp add: demo_active_rows)
qed

text \<open>A second rotation, of the token that the first one gave out.\<close>

definition demo_second :: "(uuid \<times> string, replacement_tokens) ref_cache race" where
  "demo_second = arrive (hash_token ref_lib demo_secret) ''jkt1'' None demo_final"

lemma demo_second_claimed:
  "advance ref_lib ref_ops demo_service_config 2 demo_second = Some (set_phase 2 (Claimed demo_next) demo_second)"
proof -
  have "active_row (hash_token ref_lib demo_secret) [demo_used, demo_revoked, demo_next] = Some demo_next"
    using demo_secret_differs demo_secret_fresh
    by (auto simp: active_row_def demo_revoked_def demo_next_def)
  then show ?thesis
    by (simp add: advance_def demo_second_def arrive_def revoke_own_def demo_final_simps lockable_def held_def
        request_at_def demo_next_def upt_rec)
qed

lemma demo_next_secret_fresh:
  "\<exists>secret. new_refresh_secret ref_lib 3 = Ok secret \<and>
     hash_token ref_lib secret \<notin> r_token_hash ` {demo_used, demo_revoked, demo_next}"
proof -
  let ?enc = "\<lambda>n. ref_base64url_encode (replicate 32 (char_of (n :: nat)))"
  have three: "replicate 32 c = c # c # c # replicate 29 c" for c :: char
    using replicate_add [of 3 29 c] by (simp add: numeral_3_eq_3)
  have heads: "hash_token ref_lib (ref_base64url_encode (replicate 32 c)) ! 0 =
      hex_digit (of_char (sextet (of_char c div 4)) div 16)"
    "hash_token ref_lib (ref_base64url_encode (replicate 32 c)) ! 3 =
      hex_digit (of_char (sextet (of_char c mod 4 * 16 + of_char c div 16)) mod 16)" for c
    by (simp_all add: hash_token_def ref_sha256_def ref_hex_encode_def three Let_def numeral_3_eq_3)
  have "hash_token ref_lib (?enc 3) ! 0 = hash_token ref_lib (?enc 1) ! 0"
    unfolding heads by simp
  moreover have "hash_token ref_lib (?enc 1) ! 0 \<noteq> demo_hash ! 0" "demo_hash ! 0 = hash_token ref_lib ''s0'' ! 0"
    using demo_secret_hd
    by (simp_all add: demo_secret_def demo_hash_def hash_token_def ref_sha256_def ref_hex_encode_def hd_conv_nth
        three Let_def del: demo_hash_fold)
  moreover have "hex_digit (of_char (sextet (of_char (char_of (3 :: nat) :: char) mod 4 * 16 + of_char (char_of (3 :: nat) :: char) div 16)) mod 16) \<noteq>
      hex_digit (of_char (sextet (of_char (char_of (1 :: nat) :: char) mod 4 * 16 + of_char (char_of (1 :: nat) :: char) div 16)) mod 16)"
    by code_simp
  then have "hash_token ref_lib (?enc 3) ! 3 \<noteq> hash_token ref_lib demo_secret ! 3"
    unfolding demo_secret_def heads .
  ultimately have "hash_token ref_lib (?enc 3) \<notin> r_token_hash ` {demo_used, demo_revoked, demo_next}"
    by (auto simp: demo_revoked_def demo_next_def)
  moreover have "new_refresh_secret ref_lib 3 = Ok (?enc 3)"
    by (simp add: new_refresh_secret_def REFRESH_SECRET_LEN_def)
  ultimately show ?thesis by blast
qed

lemma insert_next_succeeds:
  assumes "int (rc_now s) < r_expires_at old" and "r_dpop_jkt old = q_jkt (rc_requests s ! j)"
    and "find (\<lambda>u. u_id u = r_user_id old \<and> u_deleted_at u = None) (users (rc_db s)) = Some user"
    and "new_refresh_secret L (rc_draws s) = Ok secret"
    and "\<not> row_refused (rc_db s) (next_row L (rc_pg s) (q_begun (rc_requests s ! j)) old
       (q_jkt (rc_requests s ! j)) (q_user_agent (rc_requests s ! j)) secret)"
    and "lockable s j (hash_token L secret)"
    and "issue_access_token L (rc_now s) (rc_draws s + 1) (signer cfg) (issuer cfg) (audience cfg)
       (access_token_ttl cfg) (uuid_to_string L (u_public_id user)) (q_jkt (rc_requests s ! j))
       [(''name'', JStr (u_name user))] = Ok access"
  shows "\<exists>new pair s1. insert_next L G cfg j old s = Some (set_phase j (Prepared old new (rc_now s) pair) s1) \<and>
     rc_requests s1 = rc_requests s"
proof -
  have time: "\<not> r_expires_at old \<le> int (rc_now s)" using assms(1) by simp
  show ?thesis
    unfolding insert_next_def Let_def using time assms(2,6) assms(5) [unfolded next_row_def]
    by (simp add: assms(3,4) assms(7) [simplified])
      (intro exI conjI, rule refl, simp)
qed

lemma demo_second_rotates:
  "\<exists>new pair s. run ref_lib ref_ops demo_service_config [Advance 2, Advance 2, Advance 2] demo_second = Some s \<and>
     length (rc_requests s) = 3 \<and> q_phase (rc_requests s ! 2) = Rotated demo_next new (from_secs 1000) pair \<and>
     rc_requests s ! 1 = rc_requests demo_final ! 1"
proof -
  let ?s = "set_phase 2 (Claimed demo_next) demo_second"
  obtain secret where secret: "new_refresh_secret ref_lib 3 = Ok secret"
    and fresh: "hash_token ref_lib secret \<notin> r_token_hash ` {demo_used, demo_revoked, demo_next}"
    using demo_next_secret_fresh by blast
  obtain access where access: "issue_access_token ref_lib (from_secs 1000) 4 (signer demo_service_config)
      (issuer demo_service_config) (audience demo_service_config) (access_token_ttl demo_service_config)
      (uuid_to_string ref_lib (u_public_id demo_user)) ''jkt1'' [(''name'', JStr (u_name demo_user))] = Ok access"
    using that by (auto simp: issue_access_token_Ok_iff demo_service_config_def)
  have state: "rc_now demo_second = from_secs 1000" "rc_draws demo_second = 3" "rc_pg demo_second = 201"
      "users (rc_db demo_second) = [demo_user]" "refresh_tokens (rc_db demo_second) = [demo_used, demo_revoked, demo_next]"
      "rc_requests demo_second = rc_requests demo_final @ [request_at (hash_token ref_lib demo_secret) ''jkt1'' Begun]"
    by (simp_all add: demo_second_def arrive_def demo_final_def demo_committed_def demo_prepared_def request_at_def)
  have "\<not> row_refused (rc_db demo_second) (next_row ref_lib 201 (from_secs 1000) demo_next ''jkt1'' None secret)"
    using hash_token_text [OF ref_hex.hex_laws_axioms] demo_texts fresh
    by (simp add: row_refused_def next_row_def opt_text_def state) (simp add: demo_used_def demo_revoked_def demo_next_def)
  moreover have "lockable ?s 2 (hash_token ref_lib secret)"
    by (simp add: lockable_def state demo_final_simps held_def upt_rec)
  ultimately obtain new pair s1 where s1: "insert_next ref_lib ref_ops demo_service_config 2 demo_next ?s =
      Some (set_phase 2 (Prepared demo_next new (from_secs 1000) pair) s1)"
    "rc_requests s1 = rc_requests ?s"
    using insert_next_succeeds [where s = ?s and old = demo_next and j = 2 and user = demo_user and L = ref_lib
        and secret = secret and cfg = demo_service_config and access = access and G = ref_ops]
      secret access
    by (auto simp: state demo_final_simps)
  have "rc_requests ?s = rc_requests demo_final @ [request_at (hash_token ref_lib demo_secret) ''jkt1'' (Claimed demo_next)]"
    by (simp add: state demo_final_simps request_at_def)
  then show ?thesis
    using s1 demo_second_claimed
    by (simp add: advance_def state demo_final_simps commit_next_def)
qed

theorem token_rotated_once_witness:
  "r_token_hash demo_row \<noteq> r_token_hash demo_next"
proof -
  obtain new pair s where s: "run ref_lib ref_ops demo_service_config [Advance 2, Advance 2, Advance 2] demo_second = Some s"
    "length (rc_requests s) = 3" "q_phase (rc_requests s ! 2) = Rotated demo_next new (from_secs 1000) pair"
    "rc_requests s ! 1 = rc_requests demo_final ! 1"
    using demo_second_rotates by blast
  have "run ref_lib ref_ops demo_service_config
      [Arrive (hash_token ref_lib demo_secret) ''jkt1'' None, Advance 2, Advance 2, Advance 2] demo_final = Some s"
    using s(1) by (simp add: demo_second_def)
  with demo_final_reachable have "race_reachable ref_lib ref_ops demo_service_config s"
    unfolding race_reachable_def by (meson rtranclp_trans run_steps)
  from token_rotated_once [OF ref_uuid.uuid_laws_axioms this, of 1 2 demo_row demo_next "from_secs 1000" demo_next_pair demo_next]
  show ?thesis using s by (simp add: demo_final_simps)
qed

end
