(* ===== verification/Email.thy ===== *)
theory Email
  imports Errors
begin

text \<open>
  \<open>email.rs\<close>: the interface of an email sender as the locale \<open>email_sender\<close>, and the three senders
  of the library: over SMTP with the crate \<open>lettre\<close> (a parameter), into the log, and into memory.

  A sender is an action on a state of its own. What it has handed over is a function of that state.
\<close>

section \<open>The interface\<close>

text \<open>Recipient, subject and body.\<close>

type_synonym mail = "string \<times> string \<times> string"

type_synonym 's sender = "string \<Rightarrow> string \<Rightarrow> string \<Rightarrow> ('s, email_error, unit) act"

text \<open>A sender that reports success has handed over exactly the mail it was given; one that does not
  has handed over nothing.\<close>

locale email_sender =
  fixes send :: "'s sender"
    and handed :: "'s \<Rightarrow> mail list"
  assumes send_ok: "send receiver subject body s = (Ok (), s') \<Longrightarrow> handed s' = handed s @ [(receiver, subject, body)]"
    and send_failed: "send receiver subject body s = (r, s') \<Longrightarrow> r \<noteq> Ok () \<Longrightarrow> handed s' = handed s"
begin

lemma send_cases:
  assumes "send receiver subject body s = (r, s')"
  shows "handed s' = handed s @ (if r = Ok () then [(receiver, subject, body)] else [])"
  using send_ok send_failed assms by (cases "r = Ok ()") auto

lemma handed_grows:
  assumes "send receiver subject body s = (r, s')"
  shows "set (handed s) \<subseteq> set (handed s')"
  using send_cases [OF assms] by auto

end

section \<open>SMTP\<close>

record mailbox =
  mailbox_name :: "string option"
  mailbox_email :: string

datatype tls = TlsNone | TlsRequired

record smtp_transport =
  relay_host :: string
  relay_tls :: tls
  relay_port :: "16 word"
  relay_credentials :: "(string \<times> string) option"

record smtp_message =
  msg_from :: mailbox
  msg_to :: mailbox
  msg_subject :: string
  msg_content_type :: string
  msg_body :: string

text \<open>What the program calls of \<open>lettre\<close>: the parsers, the reasons to refuse a relay or a message,
  and the outcome of the attempts to hand a message to the relay, numbered as they come.\<close>

record lettre =
  parse_address :: "string \<Rightarrow> string + string"
  parse_mailbox :: "string \<Rightarrow> string + mailbox"
  starttls_relay_fault :: "string \<Rightarrow> string option"
  message_fault :: "smtp_message \<Rightarrow> string option"
  smtp_fault :: "nat \<Rightarrow> smtp_message \<Rightarrow> string option"

definition starttls_relay :: "lettre \<Rightarrow> string \<Rightarrow> string + smtp_transport" where
  "starttls_relay X host =
     (case starttls_relay_fault X host of
        Some e \<Rightarrow> Inl e
      | None \<Rightarrow> Inr \<lparr> relay_host = host, relay_tls = TlsRequired, relay_port = 587, relay_credentials = None \<rparr>)"

definition builder_dangerous :: "string \<Rightarrow> smtp_transport" where
  "builder_dangerous host = \<lparr> relay_host = host, relay_tls = TlsNone, relay_port = 25, relay_credentials = None \<rparr>"

record smtp_config =
  smtp_host :: string
  smtp_port :: "16 word"
  smtp_username :: "string option"
  smtp_password :: "string option"
  smtp_from_name :: string
  smtp_from_email :: string
  smtp_starttls :: bool

definition smtp_config_debug :: "smtp_config \<Rightarrow> (string \<times> debug_value) list" where
  "smtp_config_debug c =
     [(''host'', DText (smtp_host c)), (''port'', DPort (smtp_port c)), (''username'', DOpt (smtp_username c)),
      (''password'', DTexts [''REDACTED'']), (''from_name'', DText (smtp_from_name c)),
      (''from_email'', DText (smtp_from_email c)), (''starttls'', DBool (smtp_starttls c))]"

record smtp_email_sender =
  mailer :: smtp_transport
  sender_from :: mailbox

definition from_mailbox :: "lettre \<Rightarrow> smtp_config \<Rightarrow> (email_error, mailbox) res" where
  "from_mailbox X config =
     (if smtp_from_name config = [] then map_err Build (of_sum (parse_mailbox X (smtp_from_email config)))
      else res_bind (map_err Build (of_sum (parse_address X (smtp_from_email config)))) (\<lambda>address.
           Ok \<lparr> mailbox_name = Some (smtp_from_name config), mailbox_email = address \<rparr>))"

definition smtp_from_config :: "lettre \<Rightarrow> smtp_config \<Rightarrow> (email_error, smtp_email_sender) res" where
  "smtp_from_config X config =
     res_bind (from_mailbox X config) (\<lambda>from.
     res_bind (if smtp_starttls config
               then map_err (\<lambda>e. Build (''invalid SMTP relay host: '' @ e)) (of_sum (starttls_relay X (smtp_host config)))
               else Ok (builder_dangerous (smtp_host config))) (\<lambda>builder.
     let builder = builder\<lparr>relay_port := smtp_port config\<rparr>;
         builder = (case (smtp_username config, smtp_password config) of
             (Some username, Some password) \<Rightarrow> builder\<lparr>relay_credentials := Some (username, password)\<rparr>
           | _ \<Rightarrow> builder)
     in Ok \<lparr> mailer = builder, sender_from = from \<rparr>))"

text \<open>The attempts so far and the messages that the relay took.\<close>

record smtp_state =
  smtp_attempts :: nat
  smtp_taken :: "(mail \<times> smtp_message) list"

definition smtp_send :: "lettre \<Rightarrow> smtp_email_sender \<Rightarrow> smtp_state sender" where
  "smtp_send X self receiver subject body s =
     (case parse_mailbox X receiver of
        Inl e \<Rightarrow> (Err (Build e), s)
      | Inr to_mailbox \<Rightarrow>
          let email = \<lparr> msg_from = sender_from self, msg_to = to_mailbox, msg_subject = subject,
                        msg_content_type = ''text/plain; charset=utf-8'', msg_body = body \<rparr>
          in case message_fault X email of
               Some e \<Rightarrow> (Err (Build e), s)
             | None \<Rightarrow>
                 let s1 = s\<lparr>smtp_attempts := smtp_attempts s + 1\<rparr>
                 in case smtp_fault X (smtp_attempts s) email of
                      Some e \<Rightarrow> (Err (Send e), s1)
                    | None \<Rightarrow> (Ok (), s1\<lparr>smtp_taken := smtp_taken s @ [((receiver, subject, body), email)]\<rparr>))"

section \<open>The log and the stub\<close>

text \<open>The state is what was written to the log.\<close>

definition log_send :: "mail list sender" where
  "log_send receiver subject body s = (Ok (), s @ [(receiver, subject, body)])"

record sent_email =
  sent_to :: string
  sent_subject :: string
  sent_body :: string

type_synonym stub_email_sender = "sent_email list"

definition stub_new :: stub_email_sender where
  "stub_new = []"

definition stub_messages :: "stub_email_sender \<Rightarrow> sent_email list" where
  "stub_messages s = s"

definition stub_count :: "stub_email_sender \<Rightarrow> nat" where
  "stub_count s = length s"

definition stub_clear :: "stub_email_sender \<Rightarrow> stub_email_sender" where
  "stub_clear s = []"

text \<open>A poisoned lock is used as it is, so the push always happens.\<close>

definition stub_send :: "stub_email_sender sender" where
  "stub_send receiver subject body s =
     (Ok (), s @ [\<lparr> sent_to = receiver, sent_subject = subject, sent_body = body \<rparr>])"

section \<open>The senders implement the interface\<close>

definition stub_handed :: "stub_email_sender \<Rightarrow> mail list" where
  "stub_handed s = map (\<lambda>m. (sent_to m, sent_subject m, sent_body m)) (stub_messages s)"

definition smtp_handed :: "smtp_state \<Rightarrow> mail list" where
  "smtp_handed s = map fst (smtp_taken s)"

interpretation log: email_sender log_send "\<lambda>s. s"
  by unfold_locales (auto simp: log_send_def)

interpretation stub: email_sender stub_send stub_handed
  by unfold_locales (auto simp: stub_send_def stub_handed_def stub_messages_def)

interpretation smtp: email_sender "smtp_send X self" smtp_handed for X self
  by unfold_locales (auto simp: smtp_send_def smtp_handed_def Let_def split: sum.splits option.splits)

section \<open>What the SMTP sender sends\<close>

text \<open>The relay only takes messages in the name of the configured sender, to the mailbox that the
  recipient parses to.\<close>

definition faithful :: "lettre \<Rightarrow> smtp_email_sender \<Rightarrow> mail \<times> smtp_message \<Rightarrow> bool" where
  "faithful X self entry \<longleftrightarrow>
     (case entry of ((receiver, subject, body), m) \<Rightarrow>
        parse_mailbox X receiver = Inr (msg_to m) \<and> msg_from m = sender_from self \<and>
        msg_subject m = subject \<and> msg_body m = body)"

lemma smtp_send_faithful:
  assumes "list_all (faithful X self) (smtp_taken s)" and "smtp_send X self receiver subject body s = (r, s')"
  shows "list_all (faithful X self) (smtp_taken s') \<and> r \<noteq> Panic"
  using assms by (auto simp: smtp_send_def Let_def faithful_def split: sum.splits option.splits)

lemma from_config_Ok_iff:
  "smtp_from_config X config = Ok sender \<longleftrightarrow>
     (\<exists>from. from_mailbox X config = Ok from \<and> sender_from sender = from) \<and>
     (smtp_starttls config \<longrightarrow> starttls_relay_fault X (smtp_host config) = None) \<and>
     relay_host (mailer sender) = smtp_host config \<and> relay_port (mailer sender) = smtp_port config \<and>
     relay_tls (mailer sender) = (if smtp_starttls config then TlsRequired else TlsNone) \<and>
     relay_credentials (mailer sender) =
       (case (smtp_username config, smtp_password config) of (Some u, Some p) \<Rightarrow> Some (u, p) | _ \<Rightarrow> None)"
  by (cases sender, cases "mailer sender")
    (auto simp: smtp_from_config_def res_bind_Ok_iff starttls_relay_def builder_dangerous_def Let_def
      split: option.splits if_splits)

text \<open>The connection that \<open>SmtpEmailSender::from_config\<close> sets up is the configured one: host and
  port as configured, STARTTLS required exactly when it is asked for, never downgraded, and
  credentials only when both user name and password are set; the construction fails only when
  the sender's address does not parse or the relay host is refused, and it never panics.\<close>

theorem smtp_from_config_contract:
  "case smtp_from_config X config of
     Ok sender \<Rightarrow> from_mailbox X config = Ok (sender_from sender) \<and>
       relay_host (mailer sender) = smtp_host config \<and> relay_port (mailer sender) = smtp_port config \<and>
       (relay_tls (mailer sender) = TlsRequired \<longleftrightarrow> smtp_starttls config) \<and>
       relay_credentials (mailer sender) =
         (case (smtp_username config, smtp_password config) of (Some u, Some p) \<Rightarrow> Some (u, p) | _ \<Rightarrow> None)
   | Err e \<Rightarrow> from_mailbox X config = Err e \<or>
       smtp_starttls config \<and> (\<exists>m. starttls_relay_fault X (smtp_host config) = Some m \<and> e = Build (''invalid SMTP relay host: '' @ m))
   | Panic \<Rightarrow> False"
proof (cases "smtp_from_config X config")
  case (Ok sender)
  from this [unfolded from_config_Ok_iff] show ?thesis unfolding Ok by auto
next
  case (Err e)
  then show ?thesis
    by (auto simp: smtp_from_config_def res_bind_Err_iff map_err_Err_iff starttls_relay_def Let_def split: if_splits option.splits)
next
  case Panic
  then show ?thesis
    by (auto simp: smtp_from_config_def res_bind_Panic_iff from_mailbox_def Let_def split: if_splits option.splits)
qed

end
