(* ===== verification/Email_Outbox.thy ===== *)
theory Email_Outbox
  imports Email Store
begin

text \<open>
  \<open>store/repo/email.rs\<close> and \<open>service/email.rs\<close>: the outbox of mails and the worker that delivers
  them. The statements are functions on the rows of the outbox; the worker claims a batch, sends
  each mail in a task of its own and records the outcome.

  The tasks of a batch run concurrently, and other workers may run against the same table. The
  function \<open>process_batch\<close> runs the tasks of one batch in an order that the runtime chooses (the
  parameter \<open>sched\<close>); the step relation \<open>outbox_step\<close> has every interleaving of claims, sends,
  recordings and crashes of any number of workers.
\<close>

section \<open>Statements\<close>

record outbox_email_row =
  e_id :: uuid
  e_to_address :: string
  e_subject :: string
  e_body :: string
  e_attempts :: int
  e_max_attempts :: int

definition new_mail :: "uuid \<Rightarrow> timestamp \<Rightarrow> string \<Rightarrow> string \<Rightarrow> string \<Rightarrow> outbox_row" where
  "new_mail i now receiver subject body =
     \<lparr> o_id = i, o_to_address = receiver, o_subject = subject, o_body = body, o_attempts = 0, o_max_attempts = 5,
       o_last_error = None, o_available_at = now, o_locked_at = None, o_sent_at = None, o_created_at = now \<rparr>"

definition enqueue_email :: "lib \<Rightarrow> timestamp \<Rightarrow> string \<Rightarrow> string \<Rightarrow> string \<Rightarrow> ('g, 'r, sqlx_error, unit) sact" where
  "enqueue_email L now receiver subject body =
     db_query L [receiver, subject, body] (\<lambda>d n.
       let row = new_mail (pg_uuid L n) now receiver subject body
       in if 255 < char_count receiver then Err too_long
          else if o_id row \<in> o_id ` set (outbox d) then Err unique_violation
          else Ok ((), d\<lparr>outbox := outbox d @ [row]\<rparr>, n + 1))"

definition claimable :: "timestamp \<Rightarrow> int \<Rightarrow> outbox_row \<Rightarrow> bool" where
  "claimable now reclaim_after r \<longleftrightarrow>
     o_sent_at r = None \<and>
     (case o_locked_at r of None \<Rightarrow> True | Some t \<Rightarrow> t < now - reclaim_after) \<and>
     o_available_at r \<le> now \<and> o_attempts r < o_max_attempts r"

text \<open>The rows that the subquery selects, oldest first. \<open>held\<close> are the rows that another transaction
  has locked at this moment: they are skipped before the limit counts.\<close>

definition claim_ids :: "(uuid \<Rightarrow> bool) \<Rightarrow> timestamp \<Rightarrow> int \<Rightarrow> int \<Rightarrow> outbox_row list \<Rightarrow> uuid list" where
  "claim_ids held now batch_size reclaim_after rows =
     take (nat batch_size)
       (map o_id (sort_key o_created_at (filter (\<lambda>r. claimable now reclaim_after r \<and> \<not> held (o_id r)) rows)))"

definition lock_rows :: "timestamp \<Rightarrow> uuid list \<Rightarrow> outbox_row list \<Rightarrow> outbox_row list" where
  "lock_rows now ids rows = update_where (\<lambda>r. o_id r \<in> set ids) (\<lambda>r. r\<lparr>o_locked_at := Some now\<rparr>) rows"

definition email_of :: "outbox_row \<Rightarrow> outbox_email_row" where
  "email_of r =
     \<lparr> e_id = o_id r, e_to_address = o_to_address r, e_subject = o_subject r, e_body = o_body r,
       e_attempts = o_attempts r, e_max_attempts = o_max_attempts r \<rparr>"

definition claimed_emails :: "uuid list \<Rightarrow> outbox_row list \<Rightarrow> outbox_email_row list" where
  "claimed_emails ids rows = map email_of (filter (\<lambda>r. o_id r \<in> set ids) rows)"

definition negative_limit :: sqlx_error where
  "negative_limit = DatabaseError False ''LIMIT must not be negative''"

definition claim_pending_emails ::
    "lib \<Rightarrow> (uuid \<Rightarrow> bool) \<Rightarrow> timestamp \<Rightarrow> int \<Rightarrow> int \<Rightarrow> ('g, 'r, sqlx_error, outbox_email_row list) sact" where
  "claim_pending_emails L held now batch_size reclaim_after =
     db_query L [] (\<lambda>d n.
       if batch_size < 0 then Err negative_limit
       else let ids = claim_ids held now batch_size reclaim_after (outbox d)
            in Ok (claimed_emails ids (outbox d), d\<lparr>outbox := lock_rows now ids (outbox d)\<rparr>, n))"

definition sent_rows :: "timestamp \<Rightarrow> uuid \<Rightarrow> outbox_row list \<Rightarrow> outbox_row list" where
  "sent_rows now i rows = update_where (\<lambda>r. o_id r = i) (\<lambda>r. r\<lparr>o_sent_at := Some now, o_locked_at := None\<rparr>) rows"

definition mark_email_sent :: "lib \<Rightarrow> timestamp \<Rightarrow> uuid \<Rightarrow> ('g, 'r, sqlx_error, unit) sact" where
  "mark_email_sent L now i = db_exec L [] (\<lambda>d. d\<lparr>outbox := sent_rows now i (outbox d)\<rparr>)"

definition failed_rows :: "uuid \<Rightarrow> timestamp \<Rightarrow> string \<Rightarrow> outbox_row list \<Rightarrow> outbox_row list" where
  "failed_rows i available_at error rows =
     update_where (\<lambda>r. o_id r = i)
       (\<lambda>r. r\<lparr>o_attempts := o_attempts r + 1, o_last_error := Some error, o_available_at := available_at,
              o_locked_at := None\<rparr>) rows"

text \<open>\<open>attempts\<close> is a \<open>SMALLINT\<close>.\<close>

definition smallint_overflow :: sqlx_error where
  "smallint_overflow = DatabaseError False ''smallint out of range''"

definition mark_email_failed ::
    "lib \<Rightarrow> uuid \<Rightarrow> timestamp \<Rightarrow> string \<Rightarrow> ('g, 'r, sqlx_error, unit) sact" where
  "mark_email_failed L i available_at error =
     db_query L [error] (\<lambda>d n.
       if \<exists>r\<in>set (outbox d). o_id r = i \<and> o_attempts r = 32767 then Err smallint_overflow
       else Ok ((), d\<lparr>outbox := failed_rows i available_at error (outbox d)\<rparr>, n))"

section \<open>The worker\<close>

definition DEFAULT_BATCH_SIZE :: int where
  "DEFAULT_BATCH_SIZE = 10"

definition BACKOFF_BASE_SECS :: u64 where
  "BACKOFF_BASE_SECS = 30"

definition BACKOFF_MAX_SECS :: u64 where
  "BACKOFF_MAX_SECS = 3600"

text \<open>The \<open>f64\<close> of seconds is kept as the interval it stands for, in nanoseconds.\<close>

definition RECLAIM_AFTER_SECS :: int where
  "RECLAIM_AFTER_SECS = int (from_secs 300)"

definition checked_shl :: "u64 \<Rightarrow> nat \<Rightarrow> u64 option" where
  "checked_shl a n = (if n < 64 then Some (push_bit n a) else None)"

definition compute_backoff_secs :: "int \<Rightarrow> int" where
  "compute_backoff_secs attempts =
     (let shift = nat (max 0 (min 16 attempts));
          factor = (case checked_shl 1 shift of Some f \<Rightarrow> f | None \<Rightarrow> - 1);
          backoff = saturating_mul BACKOFF_BASE_SECS factor
      in sint (min backoff BACKOFF_MAX_SECS))"

record email_outbox_worker =
  batch_size :: int
  reclaim_after_secs :: int

definition worker_new :: email_outbox_worker where
  "worker_new = \<lparr> batch_size = DEFAULT_BATCH_SIZE, reclaim_after_secs = RECLAIM_AFTER_SECS \<rparr>"

definition with_batch_size :: "int \<Rightarrow> email_outbox_worker \<Rightarrow> email_outbox_worker" where
  "with_batch_size n self = self\<lparr>batch_size := n\<rparr>"

definition with_reclaim_after_secs :: "int \<Rightarrow> email_outbox_worker \<Rightarrow> email_outbox_worker" where
  "with_reclaim_after_secs t self = self\<lparr>reclaim_after_secs := t\<rparr>"

text \<open>What a task does with the outcome of its delivery. Failures of the store are ignored; a panic
  ends the task only.\<close>

definition record_outcome ::
    "lib \<Rightarrow> instant \<Rightarrow> outbox_email_row \<Rightarrow> (email_error, unit) res \<Rightarrow> ('g, 'r, sqlx_error, unit) sact" where
  "record_outcome L now item result =
     (case result of
        Ok _ \<Rightarrow> act_ok (act_bind (acquire L) (\<lambda>_. mark_email_sent L (int now) (e_id item)))
      | Err e \<Rightarrow>
          act_bind (act_lift (or_panic (chrono_plus_seconds L (int now) (compute_backoff_secs (e_attempts item))))) (\<lambda>available_at.
          act_ok (act_bind (acquire L) (\<lambda>_. mark_email_failed L (e_id item) available_at (email_error_to_string e))))
      | Panic \<Rightarrow> act_lift Panic)"

definition deliver ::
    "lib \<Rightarrow> 's sender \<Rightarrow> instant \<times> outbox_email_row \<Rightarrow> ('g, 'r) world \<times> 's \<Rightarrow> ('g, 'r) world \<times> 's" where
  "deliver L send task st =
     (case (task, st) of ((now, item), (w, s)) \<Rightarrow>
      case send (e_to_address item) (e_subject item) (e_body item) s of (result, s') \<Rightarrow>
        (snd (record_outcome L now item result w), s'))"

text \<open>\<open>sched\<close> is the order and the times in which the runtime completes the tasks.\<close>

definition process_batch ::
    "lib \<Rightarrow> 's sender \<Rightarrow> (uuid \<Rightarrow> bool) \<Rightarrow> (outbox_email_row list \<Rightarrow> (instant \<times> outbox_email_row) list) \<Rightarrow>
     email_outbox_worker \<Rightarrow> instant \<Rightarrow> (('g, 'r) world \<times> 's, email_error, unit) act" where
  "process_batch L send held sched self now st =
     (case st of (w, s) \<Rightarrow>
      case act_map_err email_from_sqlx (act_bind (acquire L)
          (\<lambda>_. claim_pending_emails L held (int now) (batch_size self) (reclaim_after_secs self))) w of
        (Ok batch, w') \<Rightarrow> (Ok (), fold (deliver L send) (sched batch) (w', s))
      | (Err e, w') \<Rightarrow> (Err e, (w', s))
      | (Panic, w') \<Rightarrow> (Panic, (w', s)))"

definition WORKER_INTERVAL :: duration where
  "WORKER_INTERVAL = from_secs 2"

text \<open>One tick of the worker: an error is logged and the loop goes on.\<close>

definition worker_tick ::
    "lib \<Rightarrow> 's sender \<Rightarrow> (uuid \<Rightarrow> bool) \<Rightarrow> (outbox_email_row list \<Rightarrow> (instant \<times> outbox_email_row) list) \<Rightarrow>
     email_outbox_worker \<Rightarrow> instant \<Rightarrow> ('g, 'r) world \<times> 's \<Rightarrow> ('g, 'r) world \<times> 's" where
  "worker_tick L send held sched self now st = snd (process_batch L send held sched self now st)"

section \<open>Backoff\<close>

lemma checked_shl_1: "n \<le> 16 \<Longrightarrow> checked_shl 1 n = Some (2 ^ n)"
  by (simp add: checked_shl_def push_bit_eq_mult)

lemma unat_two_power: "n < 64 \<Longrightarrow> unat (2 ^ n :: u64) = 2 ^ n"
proof -
  assume "n < 64"
  then have "(2 :: nat) ^ n < 2 ^ 64" by (intro power_strict_increasing) simp_all
  then show ?thesis using unat_of_nat [where 'a = 64, of "2 ^ n"] by simp
qed

lemma sint_small: "unat (x :: u64) < 2 ^ 63 \<Longrightarrow> sint x = int (unat x)"
proof -
  assume "unat x < 2 ^ 63"
  then have "int (unat x) < int (2 ^ 63)" by (simp only: of_nat_less_iff)
  then have "uint x < 2 ^ 63" unfolding uint_nat by simp
  moreover have "- (2 ^ 63) \<le> uint x" by (rule order_trans [of _ 0]) simp_all
  ultimately have "signed_take_bit 63 (uint x) = uint x" by (intro signed_take_bit_int_eq_self) simp_all
  then show ?thesis by (simp add: sint_uint)
qed

lemma backoff_formula: "compute_backoff_secs attempts = min (30 * 2 ^ nat attempts) 3600"
proof -
  define k where "k = nat (max 0 (min 16 attempts))"
  define x where "x = min (saturating_mul BACKOFF_BASE_SECS (2 ^ k)) BACKOFF_MAX_SECS"
  have k: "k \<le> 16" by (simp add: k_def)
  have pow: "unat (2 ^ k :: u64) = 2 ^ k" using k by (intro unat_two_power) linarith
  have "30 * 2 ^ k \<le> (30 * 2 ^ 16 :: nat)" using k power_increasing [of k 16 "2 :: nat"] by simp
  then have "unat (saturating_mul BACKOFF_BASE_SECS (2 ^ k)) = 30 * 2 ^ k"
    by (simp add: unat_saturating_mul pow BACKOFF_BASE_SECS_def)
  then have u: "unat x = min (30 * 2 ^ k) 3600"
    by (auto simp: x_def min_def word_le_nat_alt BACKOFF_MAX_SECS_def)
  have "unat x < 2 ^ 63" unfolding u by simp
  from sint_small [OF this] have "sint x = int (min (30 * 2 ^ k) 3600)" unfolding u .
  then have "compute_backoff_secs attempts = int (min (30 * 2 ^ k) 3600)"
    using k by (simp only: compute_backoff_secs_def Let_def k_def [symmetric] x_def checked_shl_1 option.case)
  also have "\<dots> = min (30 * 2 ^ nat attempts) 3600"
  proof (cases "attempts \<le> 16")
    case True
    then have "k = nat attempts" by (simp add: k_def)
    then show ?thesis by (simp add: of_nat_min)
  next
    case False
    then have "k = 16" and "16 \<le> nat attempts" by (simp_all add: k_def)
    moreover from this have "(2 :: int) ^ 16 \<le> 2 ^ nat attempts" by (intro power_increasing) simp_all
    ultimately show ?thesis by (simp add: min_def)
  qed
  finally show ?thesis .
qed

text \<open>C37. The wait before the next attempt, with no overflow for any value of the counter. For a
  counter that is not negative, huge ones included, it is the documented formula: 30 seconds doubled
  for each attempt, at most an hour. For a negative counter, which the table excludes and which that
  formula would answer with less than its base (15 seconds at \<open>-1\<close>), the clamp makes it the base.\<close>

theorem compute_backoff_secs_formula:
  "compute_backoff_secs attempts = (if 0 \<le> attempts then min (30 * 2 ^ nat attempts) 3600 else 30)"
  by (simp add: backoff_formula)

end
