(* ===== verification/Outbox_Machine.thy ===== *)
theory Outbox_Machine
  imports Email_Outbox "HOL-Library.Multiset"
begin

text \<open>
  Any number of outbox workers at once. A step is one statement of one worker, one answer of the
  transport, or the passing of time; a task can be lost between any two steps (a crash, a panic, or
  a store that refuses the outcome). The statements are those of \<open>Email_Outbox\<close>.
\<close>

section \<open>The machine\<close>

text \<open>A delivery in flight: the claimed mail, when it was claimed, and the answer of the transport
  once there is one.\<close>

record flight =
  f_item :: outbox_email_row
  f_since :: timestamp
  f_result :: "(email_error, unit) res option"

abbreviation f_id :: "flight \<Rightarrow> uuid" where
  "f_id f \<equiv> e_id (f_item f)"

text \<open>The log lists the mails that the transport took.\<close>

record outbox_state =
  ob_now :: timestamp
  ob_rows :: "outbox_row list"
  ob_flights :: "flight list"
  ob_log :: "outbox_email_row list"

datatype outbox_event = Tick | Enqueue | Claim | Sent flight | Refused flight | Recorded flight | Lost flight

definition taken_off :: "timestamp \<Rightarrow> outbox_email_row list \<Rightarrow> flight list" where
  "taken_off now items = map (\<lambda>item. \<lparr> f_item = item, f_since = now, f_result = None \<rparr>) items"

inductive outbox_step :: "int \<Rightarrow> outbox_event \<Rightarrow> outbox_state \<Rightarrow> outbox_state \<Rightarrow> bool" for reclaim_after where
  tick: "ob_now s \<le> t \<Longrightarrow> outbox_step reclaim_after Tick s (s\<lparr>ob_now := t\<rparr>)"
| enqueue: "i \<notin> o_id ` set (ob_rows s) \<Longrightarrow>
    outbox_step reclaim_after Enqueue s (s\<lparr>ob_rows := ob_rows s @ [new_mail i (ob_now s) receiver subject body]\<rparr>)"
| claim: "ids = claim_ids held (ob_now s) batch reclaim_after (ob_rows s) \<Longrightarrow>
    outbox_step reclaim_after Claim s
      (s\<lparr>ob_rows := lock_rows (ob_now s) ids (ob_rows s),
         ob_flights := ob_flights s @ taken_off (ob_now s) (claimed_emails ids (ob_rows s))\<rparr>)"
| sent: "f \<in> set (ob_flights s) \<Longrightarrow> f_result f = None \<Longrightarrow>
    outbox_step reclaim_after (Sent f) s
      (s\<lparr>ob_flights := f\<lparr>f_result := Some (Ok ())\<rparr> # remove1 f (ob_flights s), ob_log := ob_log s @ [f_item f]\<rparr>)"
| refused: "f \<in> set (ob_flights s) \<Longrightarrow> f_result f = None \<Longrightarrow>
    outbox_step reclaim_after (Refused f) s
      (s\<lparr>ob_flights := f\<lparr>f_result := Some (Err e)\<rparr> # remove1 f (ob_flights s)\<rparr>)"
| recorded_sent: "f \<in> set (ob_flights s) \<Longrightarrow> f_result f = Some (Ok ()) \<Longrightarrow>
    outbox_step reclaim_after (Recorded f) s
      (s\<lparr>ob_rows := sent_rows (ob_now s) (f_id f) (ob_rows s), ob_flights := remove1 f (ob_flights s)\<rparr>)"
| recorded_failed: "f \<in> set (ob_flights s) \<Longrightarrow> f_result f = Some (Err e) \<Longrightarrow>
    outbox_step reclaim_after (Recorded f) s
      (s\<lparr>ob_rows := failed_rows (f_id f) t (email_error_to_string e) (ob_rows s), ob_flights := remove1 f (ob_flights s)\<rparr>)"
| lost: "f \<in> set (ob_flights s) \<Longrightarrow>
    outbox_step reclaim_after (Lost f) s (s\<lparr>ob_flights := remove1 f (ob_flights s)\<rparr>)"

definition outbox_init :: "outbox_state \<Rightarrow> bool" where
  "outbox_init s \<longleftrightarrow> ob_rows s = [] \<and> ob_flights s = [] \<and> ob_log s = []"

definition any_step :: "int \<Rightarrow> outbox_state \<Rightarrow> outbox_state \<Rightarrow> bool" where
  "any_step reclaim_after s s' \<longleftrightarrow> (\<exists>ev. outbox_step reclaim_after ev s s')"

text \<open>Workers that are on time: a task ends before its lock can be taken over, and no task is lost
  between the answer of the transport that took its mail and the record of it.\<close>

definition timely_step :: "int \<Rightarrow> outbox_state \<Rightarrow> outbox_state \<Rightarrow> bool" where
  "timely_step reclaim_after s s' \<longleftrightarrow>
     (\<exists>ev. outbox_step reclaim_after ev s s' \<and>
        (\<forall>f. ev = Lost f \<longrightarrow> f_result f \<noteq> Some (Ok ()))) \<and>
     (\<forall>f\<in>set (ob_flights s'). ob_now s' \<le> f_since f + reclaim_after)"

section \<open>Rows\<close>

lemma ids_rows [simp]:
  "map o_id (lock_rows now ids rows) = map o_id rows" "map o_id (sent_rows now i rows) = map o_id rows"
  "map o_id (failed_rows i t e rows) = map o_id rows"
  by (simp_all add: lock_rows_def sent_rows_def failed_rows_def table_simps)

lemma claim_ids_claimable:
  assumes "i \<in> set (claim_ids held now batch reclaim_after rows)"
  shows "\<exists>r\<in>set rows. o_id r = i \<and> claimable now reclaim_after r \<and> \<not> held i"
  using assms by (auto simp: claim_ids_def dest!: in_set_takeD)

lemma distinct_claim_ids: "distinct (map o_id rows) \<Longrightarrow> distinct (claim_ids held now batch reclaim_after rows)"
  unfolding claim_ids_def
  by (rule distinct_take, simp add: distinct_map) (auto intro: inj_on_subset)

lemma distinct_same: "distinct (map g xs) \<Longrightarrow> x \<in> set xs \<Longrightarrow> y \<in> set xs \<Longrightarrow> g x = g y \<Longrightarrow> x = y"
  by (auto simp: distinct_map inj_on_def)

text \<open>What one row looks like after a statement.\<close>

lemma in_lock_rows:
  "r' \<in> set (lock_rows now ids rows) \<longleftrightarrow>
     (\<exists>r\<in>set rows. r' = (if o_id r \<in> set ids then r\<lparr>o_locked_at := Some now\<rparr> else r))"
  by (simp add: lock_rows_def in_update_where)

lemma in_sent_rows:
  "r' \<in> set (sent_rows now i rows) \<longleftrightarrow>
     (\<exists>r\<in>set rows. r' = (if o_id r = i then r\<lparr>o_sent_at := Some now, o_locked_at := None\<rparr> else r))"
  by (simp add: sent_rows_def in_update_where)

lemma in_failed_rows:
  "r' \<in> set (failed_rows i t e rows) \<longleftrightarrow>
     (\<exists>r\<in>set rows. r' = (if o_id r = i then r\<lparr>o_attempts := o_attempts r + 1, o_last_error := Some e,
         o_available_at := t, o_locked_at := None\<rparr> else r))"
  by (simp add: failed_rows_def in_update_where)

lemma kept_rows:
  "r \<in> set rows \<Longrightarrow> o_id r \<notin> set ids \<Longrightarrow> r \<in> set (lock_rows now ids rows)"
  "r \<in> set rows \<Longrightarrow> o_id r \<noteq> i \<Longrightarrow> r \<in> set (sent_rows now i rows)"
  "r \<in> set rows \<Longrightarrow> o_id r \<noteq> i \<Longrightarrow> r \<in> set (failed_rows i t e rows)"
  by (auto simp: in_lock_rows in_sent_rows in_failed_rows)

lemma locked_row: "r \<in> set rows \<Longrightarrow> o_id r \<in> set ids \<Longrightarrow> r\<lparr>o_locked_at := Some now\<rparr> \<in> set (lock_rows now ids rows)"
  by (auto simp: in_lock_rows)

lemmas row_updates = in_lock_rows in_sent_rows in_failed_rows

lemma in_remove1: "y \<in> set (remove1 x xs) \<Longrightarrow> y \<in> set xs"
  by (meson notin_set_remove1)

lemma distinct_map_remove1: "distinct (map g xs) \<Longrightarrow> distinct (map g (remove1 x xs))"
  by (induction xs) (auto dest: subsetD [OF set_remove1_subset])

lemma remove1_other:
  assumes "distinct (map g xs)" and "x \<in> set xs" and "y \<in> set (remove1 x xs)"
  shows "y \<in> set xs \<and> g y \<noteq> g x"
proof -
  have "y \<noteq> x" using assms(1,3) by (metis distinct_map set_remove1_eq DiffE singletonI)
  moreover have "y \<in> set xs" using assms(3) by (meson notin_set_remove1)
  ultimately show ?thesis using distinct_same [OF assms(1) _ assms(2)] by blast
qed

section \<open>On-time workers\<close>

text \<open>A mail in flight has a row that is locked since its claim, not yet sent, with attempts left; a
  mail the transport took is marked as sent, or the task that will mark it is still in flight.\<close>

definition flight_ok :: "int \<Rightarrow> timestamp \<Rightarrow> outbox_row list \<Rightarrow> flight \<Rightarrow> bool" where
  "flight_ok reclaim_after now rows f \<longleftrightarrow>
     now \<le> f_since f + reclaim_after \<and>
     (\<exists>r\<in>set rows. o_id r = f_id f \<and> o_locked_at r = Some (f_since f) \<and> o_sent_at r = None \<and>
        o_attempts r < o_max_attempts r)"

definition logged_ok :: "outbox_row list \<Rightarrow> flight list \<Rightarrow> outbox_email_row \<Rightarrow> bool" where
  "logged_ok rows flights m \<longleftrightarrow>
     (\<exists>r\<in>set rows. o_id r = e_id m \<and>
        (o_sent_at r \<noteq> None \<or> (\<exists>f\<in>set flights. f_id f = e_id m \<and> f_result f = Some (Ok ()))))"

definition outbox_inv :: "int \<Rightarrow> outbox_state \<Rightarrow> bool" where
  "outbox_inv reclaim_after s \<longleftrightarrow>
     distinct (map o_id (ob_rows s)) \<and> distinct (map f_id (ob_flights s)) \<and> distinct (map e_id (ob_log s)) \<and>
     (\<forall>r\<in>set (ob_rows s). 0 \<le> o_attempts r \<and> o_attempts r \<le> o_max_attempts r) \<and>
     (\<forall>f\<in>set (ob_flights s). flight_ok reclaim_after (ob_now s) (ob_rows s) f) \<and>
     (\<forall>m\<in>set (ob_log s). logged_ok (ob_rows s) (ob_flights s) m)"

lemma outbox_invI:
  assumes "distinct (map o_id (ob_rows s))" "distinct (map f_id (ob_flights s))" "distinct (map e_id (ob_log s))"
    and "\<And>r. r \<in> set (ob_rows s) \<Longrightarrow> 0 \<le> o_attempts r \<and> o_attempts r \<le> o_max_attempts r"
    and "\<And>f. f \<in> set (ob_flights s) \<Longrightarrow> flight_ok reclaim_after (ob_now s) (ob_rows s) f"
    and "\<And>m. m \<in> set (ob_log s) \<Longrightarrow> logged_ok (ob_rows s) (ob_flights s) m"
  shows "outbox_inv reclaim_after s"
  using assms by (simp add: outbox_inv_def)

lemma outbox_invD:
  assumes "outbox_inv reclaim_after s"
  shows "distinct (map o_id (ob_rows s))" "distinct (map f_id (ob_flights s))" "distinct (map e_id (ob_log s))"
    and "r \<in> set (ob_rows s) \<Longrightarrow> 0 \<le> o_attempts r \<and> o_attempts r \<le> o_max_attempts r"
    and "f \<in> set (ob_flights s) \<Longrightarrow> flight_ok reclaim_after (ob_now s) (ob_rows s) f"
    and "m \<in> set (ob_log s) \<Longrightarrow> logged_ok (ob_rows s) (ob_flights s) m"
  using assms by (simp_all add: outbox_inv_def)

lemma flight_row:
  assumes "outbox_inv reclaim_after s" and "f \<in> set (ob_flights s)" and "r \<in> set (ob_rows s)" and "o_id r = f_id f"
  shows "o_locked_at r = Some (f_since f)" and "o_sent_at r = None" and "o_attempts r < o_max_attempts r"
proof -
  obtain q where q: "q \<in> set (ob_rows s)" "o_id q = f_id f" "o_locked_at q = Some (f_since f)" "o_sent_at q = None"
    "o_attempts q < o_max_attempts q"
    using outbox_invD(5) [OF assms(1,2)] by (auto simp: flight_ok_def)
  moreover have "q = r" using distinct_same [OF outbox_invD(1) [OF assms(1)] q(1) assms(3)] q(2) assms(4) by simp
  ultimately show "o_locked_at r = Some (f_since f)" and "o_sent_at r = None" and "o_attempts r < o_max_attempts r"
    by simp_all
qed

lemma logged_row:
  assumes "outbox_inv reclaim_after s" and "m \<in> set (ob_log s)" and "r \<in> set (ob_rows s)" and "o_id r = e_id m"
    and "o_sent_at r = None"
  shows "\<exists>f\<in>set (ob_flights s). f_id f = e_id m \<and> f_result f = Some (Ok ())"
proof -
  obtain q where q: "q \<in> set (ob_rows s)" "o_id q = e_id m"
    "o_sent_at q \<noteq> None \<or> (\<exists>f\<in>set (ob_flights s). f_id f = e_id m \<and> f_result f = Some (Ok ()))"
    using outbox_invD(6) [OF assms(1,2)] by (auto simp: logged_ok_def)
  moreover have "q = r" using distinct_same [OF outbox_invD(1) [OF assms(1)] q(1) assms(3)] q(2) assms(4) by simp
  ultimately show ?thesis using assms(5) by simp
qed

lemma logged_keeps:
  assumes "logged_ok rows fs m"
    and "\<And>r. r \<in> set rows \<Longrightarrow> o_id r = e_id m \<Longrightarrow>
      \<exists>r'\<in>set rows'. o_id r' = e_id m \<and> (o_sent_at r \<noteq> None \<longrightarrow> o_sent_at r' \<noteq> None)"
    and "\<And>f. f \<in> set fs \<Longrightarrow> f_id f = e_id m \<Longrightarrow> f_result f = Some (Ok ()) \<Longrightarrow> f \<in> set fs'"
  shows "logged_ok rows' fs' m"
proof -
  obtain r where r: "r \<in> set rows" "o_id r = e_id m"
    "o_sent_at r \<noteq> None \<or> (\<exists>f\<in>set fs. f_id f = e_id m \<and> f_result f = Some (Ok ()))"
    using assms(1) by (auto simp: logged_ok_def)
  obtain r' where "r' \<in> set rows'" "o_id r' = e_id m" "o_sent_at r \<noteq> None \<longrightarrow> o_sent_at r' \<noteq> None"
    using assms(2) [OF r(1,2)] by blast
  with r(3) assms(3) show ?thesis unfolding logged_ok_def by blast
qed

text \<open>A claim cannot take a row of which a delivery is in flight, nor one that was delivered.\<close>

lemma claim_exclusive:
  assumes inv: "outbox_inv reclaim_after s"
    and "i \<in> set (claim_ids held (ob_now s) batch reclaim_after (ob_rows s))"
  shows "\<forall>f\<in>set (ob_flights s). f_id f \<noteq> i" and "\<forall>m\<in>set (ob_log s). e_id m \<noteq> i"
proof -
  obtain r where r: "r \<in> set (ob_rows s)" "o_id r = i" "claimable (ob_now s) reclaim_after r"
    using claim_ids_claimable [OF assms(2)] by blast
  show flying: "\<forall>f\<in>set (ob_flights s). f_id f \<noteq> i"
  proof
    fix f assume f: "f \<in> set (ob_flights s)"
    then have "ob_now s \<le> f_since f + reclaim_after" using outbox_invD(5) [OF inv f] by (simp add: flight_ok_def)
    with flight_row(1) [OF inv f r(1)] r(2,3) show "f_id f \<noteq> i" by (auto simp: claimable_def)
  qed
  show "\<forall>m\<in>set (ob_log s). e_id m \<noteq> i"
  proof
    fix m assume m: "m \<in> set (ob_log s)"
    have "o_sent_at r = None" using r(3) by (simp add: claimable_def)
    with logged_row [OF inv m r(1)] r(2) flying show "e_id m \<noteq> i" by auto
  qed
qed

text \<open>Each kind of step keeps the invariant.\<close>

lemma flight_other_row:
  assumes "flight_ok reclaim_after now rows f" and "\<And>r. r \<in> set rows \<Longrightarrow> o_id r = f_id f \<Longrightarrow> r \<in> set rows'"
  shows "flight_ok reclaim_after now rows' f"
  using assms by (auto simp: flight_ok_def)

lemma outbox_inv_tick:
  assumes "outbox_inv reclaim_after s" and "\<forall>f\<in>set (ob_flights s). t \<le> f_since f + reclaim_after"
  shows "outbox_inv reclaim_after (s\<lparr>ob_now := t\<rparr>)"
  using assms by (auto simp: outbox_inv_def flight_ok_def)

lemma outbox_inv_enqueue:
  assumes "outbox_inv reclaim_after s" and "i \<notin> o_id ` set (ob_rows s)"
  shows "outbox_inv reclaim_after (s\<lparr>ob_rows := ob_rows s @ [new_mail i (ob_now s) receiver subject body]\<rparr>)"
  using assms by (auto simp: outbox_inv_def flight_ok_def logged_ok_def new_mail_def)

lemma taken_off_ids: "map f_id (taken_off now (claimed_emails ids rows)) = filter (\<lambda>i. i \<in> set ids) (map o_id rows)"
  by (simp add: taken_off_def claimed_emails_def email_of_def filter_map comp_def)

lemma in_taken_off:
  "f \<in> set (taken_off now (claimed_emails ids rows)) \<longleftrightarrow>
     (\<exists>r\<in>set rows. o_id r \<in> set ids \<and> f = \<lparr> f_item = email_of r, f_since = now, f_result = None \<rparr>)"
  by (auto simp: taken_off_def claimed_emails_def)

lemma outbox_inv_claim:
  assumes inv: "outbox_inv reclaim_after s" and ids: "ids = claim_ids held (ob_now s) batch reclaim_after (ob_rows s)"
    and "0 \<le> reclaim_after"
  shows "outbox_inv reclaim_after
      (s\<lparr>ob_rows := lock_rows (ob_now s) ids (ob_rows s),
         ob_flights := ob_flights s @ taken_off (ob_now s) (claimed_emails ids (ob_rows s))\<rparr>)"
    (is "outbox_inv _ ?s")
proof (rule outbox_invI)
  note apart = claim_exclusive [OF inv, of _ held batch, folded ids]
  show "distinct (map o_id (ob_rows ?s))" "distinct (map e_id (ob_log ?s))"
    using outbox_invD(1,3) [OF inv] by simp_all
  show "distinct (map f_id (ob_flights ?s))"
  proof -
    have "set (map f_id (ob_flights s)) \<inter> set ids = {}" using apart(1) by auto
    then show ?thesis
      using outbox_invD(1,2) [OF inv] by (simp add: taken_off_ids del: filter_map) blast
  qed
  show "0 \<le> o_attempts r \<and> o_attempts r \<le> o_max_attempts r" if "r \<in> set (ob_rows ?s)" for r
    using that outbox_invD(4) [OF inv] by (auto simp: in_lock_rows)
  show "flight_ok reclaim_after (ob_now ?s) (ob_rows ?s) f" if "f \<in> set (ob_flights ?s)" for f
  proof (cases "f \<in> set (ob_flights s)")
    case True
    have "f_id f \<notin> set ids" using apart(1) True by blast
    then show ?thesis
      using flight_other_row [OF outbox_invD(5) [OF inv True], of "ob_rows ?s"] by (simp add: kept_rows)
  next
    case False
    with that obtain r where r: "r \<in> set (ob_rows s)" "o_id r \<in> set ids"
      "f = \<lparr> f_item = email_of r, f_since = ob_now s, f_result = None \<rparr>"
      by (auto simp: in_taken_off)
    obtain q where q: "q \<in> set (ob_rows s)" "o_id q = o_id r" "claimable (ob_now s) reclaim_after q"
      using claim_ids_claimable [OF r(2) [unfolded ids]] by blast
    with distinct_same [OF outbox_invD(1) [OF inv] q(1) r(1)] have "claimable (ob_now s) reclaim_after r" by simp
    then have "o_sent_at r = None" "o_attempts r < o_max_attempts r" by (simp_all add: claimable_def)
    with r assms(3) locked_row [OF r(1,2), of "ob_now s"] show ?thesis
      unfolding flight_ok_def by (intro conjI bexI [of _ "r\<lparr>o_locked_at := Some (ob_now s)\<rparr>"]) (simp_all add: email_of_def)
  qed
  show "logged_ok (ob_rows ?s) (ob_flights ?s) m" if "m \<in> set (ob_log ?s)" for m
  proof -
    from that have m: "m \<in> set (ob_log s)" by simp
    then have "e_id m \<notin> set ids" using apart(2) by blast
    then have "r \<in> set (ob_rows ?s)" if "r \<in> set (ob_rows s)" "o_id r = e_id m" for r
      using that by (simp add: kept_rows)
    then show ?thesis
      by (intro logged_keeps [OF outbox_invD(6) [OF inv m]]) auto
  qed
qed

lemma outbox_inv_answered:
  assumes inv: "outbox_inv reclaim_after s" and f: "f \<in> set (ob_flights s)" "f_result f = None"
    and log: "log = (if res = Ok () then [f_item f] else [])"
  shows "outbox_inv reclaim_after
      (s\<lparr>ob_flights := f\<lparr>f_result := Some res\<rparr> # remove1 f (ob_flights s), ob_log := ob_log s @ log\<rparr>)"
    (is "outbox_inv _ ?s")
proof (rule outbox_invI)
  have other: "g \<in> set (ob_flights s) \<and> f_id g \<noteq> f_id f" if "g \<in> set (remove1 f (ob_flights s))" for g
    using remove1_other [OF outbox_invD(2) [OF inv] f(1) that] .
  obtain r where r: "r \<in> set (ob_rows s)" "o_id r = f_id f" "o_sent_at r = None"
    using outbox_invD(5) [OF inv f(1)] by (auto simp: flight_ok_def)
  have unlogged: "f_id f \<notin> e_id ` set (ob_log s)"
  proof
    assume "f_id f \<in> e_id ` set (ob_log s)"
    then obtain m where m: "m \<in> set (ob_log s)" "e_id m = f_id f" by auto
    then obtain g where "g \<in> set (ob_flights s)" "f_id g = f_id f" "f_result g = Some (Ok ())"
      using logged_row [OF inv m(1) r(1)] r(2,3) by auto
    moreover from this have "g = f" by (intro distinct_same [OF outbox_invD(2) [OF inv] _ f(1)])
    ultimately show False using f(2) by simp
  qed
  show "distinct (map o_id (ob_rows ?s))" using outbox_invD(1) [OF inv] by simp
  show "distinct (map f_id (ob_flights ?s))"
  proof -
    have "f_id f \<notin> f_id ` set (remove1 f (ob_flights s))"
    proof
      assume "f_id f \<in> f_id ` set (remove1 f (ob_flights s))"
      then obtain g where g: "f_id f = f_id g" "g \<in> set (remove1 f (ob_flights s))" by (rule imageE)
      from other [OF g(2)] g(1) show False by simp
    qed
    then show ?thesis using distinct_map_remove1 [OF outbox_invD(2) [OF inv], of f] by simp
  qed
  show "distinct (map e_id (ob_log ?s))" using outbox_invD(3) [OF inv] unlogged by (simp add: log)
  show "0 \<le> o_attempts r \<and> o_attempts r \<le> o_max_attempts r" if "r \<in> set (ob_rows ?s)" for r
    using that outbox_invD(4) [OF inv] by simp
  show "flight_ok reclaim_after (ob_now ?s) (ob_rows ?s) g" if "g \<in> set (ob_flights ?s)" for g
  proof (cases "g = f\<lparr>f_result := Some res\<rparr>")
    case True
    then show ?thesis using outbox_invD(5) [OF inv f(1)] by (simp add: flight_ok_def)
  next
    case False
    with that have "g \<in> set (remove1 f (ob_flights s))" by simp
    with outbox_invD(5) [OF inv, of g] other [OF this] show ?thesis by simp
  qed
  show "logged_ok (ob_rows ?s) (ob_flights ?s) m" if "m \<in> set (ob_log ?s)" for m
  proof (cases "m \<in> set (ob_log s)")
    case True
    then have "e_id m \<noteq> f_id f" using unlogged by (metis image_eqI)
    then have kept: "g \<in> set (ob_flights ?s)" if "g \<in> set (ob_flights s)" "f_id g = e_id m" for g
      using that by (cases "g = f") simp_all
    have "\<exists>q'\<in>set (ob_rows ?s). o_id q' = e_id m \<and> (o_sent_at q \<noteq> None \<longrightarrow> o_sent_at q' \<noteq> None)"
      if "q \<in> set (ob_rows s)" "o_id q = e_id m" for q
      using that by (intro bexI [of _ q]) simp_all
    from logged_keeps [OF outbox_invD(6) [OF inv True] this kept] show ?thesis .
  next
    case False
    with that have m: "m = f_item f" "res = Ok ()" by (simp_all add: log split: if_splits)
    have "f\<lparr>f_result := Some res\<rparr> \<in> set (ob_flights ?s)" by simp
    moreover have "f_id (f\<lparr>f_result := Some res\<rparr>) = e_id m" "f_result (f\<lparr>f_result := Some res\<rparr>) = Some (Ok ())"
      by (simp_all add: m)
    moreover have "r \<in> set (ob_rows ?s)" "o_id r = e_id m" using r by (simp_all add: m)
    ultimately show ?thesis unfolding logged_ok_def by blast
  qed
qed

lemma outbox_inv_settled:
  assumes inv: "outbox_inv reclaim_after s" and f: "f \<in> set (ob_flights s)"
    and ids: "map o_id rows' = map o_id (ob_rows s)"
    and others: "\<And>r. r \<in> set (ob_rows s) \<Longrightarrow> o_id r \<noteq> f_id f \<Longrightarrow> r \<in> set rows'"
    and bounds: "\<And>r. r \<in> set rows' \<Longrightarrow> 0 \<le> o_attempts r \<and> o_attempts r \<le> o_max_attempts r"
    and own: "\<And>r. f_result f = Some (Ok ()) \<Longrightarrow> r \<in> set rows' \<Longrightarrow> o_id r = f_id f \<Longrightarrow> o_sent_at r \<noteq> None"
  shows "outbox_inv reclaim_after (s\<lparr>ob_rows := rows', ob_flights := remove1 f (ob_flights s)\<rparr>)"
    (is "outbox_inv _ ?s")
proof (rule outbox_invI)
  have other: "g \<in> set (ob_flights s) \<and> f_id g \<noteq> f_id f" if "g \<in> set (remove1 f (ob_flights s))" for g
    using remove1_other [OF outbox_invD(2) [OF inv] f that] .
  show "distinct (map o_id (ob_rows ?s))" "distinct (map f_id (ob_flights ?s))" "distinct (map e_id (ob_log ?s))"
    using outbox_invD(1,2,3) [OF inv] by (simp_all add: ids distinct_map_remove1)
  show "0 \<le> o_attempts r \<and> o_attempts r \<le> o_max_attempts r" if "r \<in> set (ob_rows ?s)" for r
    using that bounds by simp
  show "flight_ok reclaim_after (ob_now ?s) (ob_rows ?s) g" if "g \<in> set (ob_flights ?s)" for g
  proof -
    from that have "g \<in> set (remove1 f (ob_flights s))" by simp
    note g = conjunct1 [OF other [OF this]] conjunct2 [OF other [OF this]]
    show ?thesis using flight_other_row [OF outbox_invD(5) [OF inv g(1)], of rows'] others g(2) by simp
  qed
  show "logged_ok (ob_rows ?s) (ob_flights ?s) m" if "m \<in> set (ob_log ?s)" for m
  proof -
    from that have m: "m \<in> set (ob_log s)" by simp
    show ?thesis
    proof (cases "e_id m = f_id f")
      case True
      obtain r where r: "r \<in> set (ob_rows s)" "o_id r = f_id f"
        using outbox_invD(5) [OF inv f] by (auto simp: flight_ok_def)
      then obtain g where g: "g \<in> set (ob_flights s)" "f_id g = f_id f" "f_result g = Some (Ok ())"
        using logged_row [OF inv m r(1)] flight_row(2) [OF inv f r] unfolding True by (metis r(2))
      then have "g = f" by (intro distinct_same [OF outbox_invD(2) [OF inv] _ f])
      have "f_id f \<in> set (map o_id rows')" unfolding ids using imageI [OF r(1), of o_id] r(2) by simp
      then obtain r' where r': "r' \<in> set rows'" "o_id r' = f_id f" by auto
      moreover have "o_sent_at r' \<noteq> None" using own [OF _ r'] g(3) \<open>g = f\<close> by simp
      ultimately show ?thesis unfolding logged_ok_def by (intro bexI [of _ r']) (simp_all add: True)
    next
      case False
      have "\<exists>q'\<in>set (ob_rows ?s). o_id q' = e_id m \<and> (o_sent_at q \<noteq> None \<longrightarrow> o_sent_at q' \<noteq> None)"
        if "q \<in> set (ob_rows s)" "o_id q = e_id m" for q
        using that False others by (intro bexI [of _ q]) simp_all
      moreover have "g \<in> set (ob_flights ?s)" if "g \<in> set (ob_flights s)" "f_id g = e_id m" for g
        using that False by (cases "g = f") simp_all
      ultimately show ?thesis by (rule logged_keeps [OF outbox_invD(6) [OF inv m]])
    qed
  qed
qed

lemma outbox_inv_step:
  assumes "outbox_step reclaim_after ev s s'" and inv: "outbox_inv reclaim_after s" and "0 \<le> reclaim_after"
    and "\<forall>f. ev = Lost f \<longrightarrow> f_result f \<noteq> Some (Ok ())"
    and "\<forall>f\<in>set (ob_flights s'). ob_now s' \<le> f_since f + reclaim_after"
  shows "outbox_inv reclaim_after s'"
  using assms(1)
proof cases
  case (tick t)
  then show ?thesis using outbox_inv_tick [OF inv, of t] assms(5) by simp
next
  case (enqueue i receiver subject body)
  then show ?thesis using outbox_inv_enqueue [OF inv] by simp
next
  case (claim ids held batch)
  then show ?thesis using outbox_inv_claim [OF inv claim(3) assms(3)] by simp
next
  case (sent f)
  then show ?thesis using outbox_inv_answered [OF inv sent(3,4), of _ "Ok ()"] by simp
next
  case (refused f e)
  then show ?thesis using outbox_inv_answered [OF inv refused(3,4), of "[]" "Err e"] by simp
next
  case (recorded_sent f)
  show ?thesis unfolding recorded_sent(2)
    by (rule outbox_inv_settled [OF inv recorded_sent(3)])
      (use outbox_invD(4) [OF inv] in \<open>auto simp: kept_rows in_sent_rows\<close>)
next
  case (recorded_failed f e t)
  have "o_attempts r < o_max_attempts r" if "r \<in> set (ob_rows s)" "o_id r = f_id f" for r
    using flight_row(3) [OF inv recorded_failed(3) that] .
  then show ?thesis unfolding recorded_failed(2)
    by (intro outbox_inv_settled [OF inv recorded_failed(3)])
      (use outbox_invD(4) [OF inv] recorded_failed(4) in \<open>fastforce simp: kept_rows in_failed_rows\<close>)+
next
  case (lost f)
  then have "s' = s\<lparr>ob_rows := ob_rows s, ob_flights := remove1 f (ob_flights s)\<rparr>" by simp
  then show ?thesis
    using outbox_inv_settled [OF inv lost(3), of "ob_rows s"] outbox_invD(4) [OF inv] lost(1) assms(4) by simp
qed

interpretation timely: machine outbox_init "timely_step reclaim_after" "\<lambda>s. 0 \<le> reclaim_after \<longrightarrow> outbox_inv reclaim_after s"
  for reclaim_after
proof
  show "outbox_init s \<Longrightarrow> 0 \<le> reclaim_after \<longrightarrow> outbox_inv reclaim_after s" for s
    by (simp add: outbox_init_def outbox_inv_def)
  show "0 \<le> reclaim_after \<longrightarrow> outbox_inv reclaim_after s \<Longrightarrow> timely_step reclaim_after s t \<Longrightarrow>
      0 \<le> reclaim_after \<longrightarrow> outbox_inv reclaim_after t" for s t
    using outbox_inv_step by (auto simp: timely_step_def)
qed

section \<open>Workers in general\<close>

text \<open>Every mail in flight or in the log has the content of its row, in whatever order things
  happen.\<close>

definition mail_of :: "outbox_email_row \<Rightarrow> mail" where
  "mail_of m = (e_to_address m, e_subject m, e_body m)"

definition queued :: "outbox_row list \<Rightarrow> outbox_email_row \<Rightarrow> bool" where
  "queued rows m \<longleftrightarrow> (\<exists>r\<in>set rows. o_id r = e_id m \<and> mail_of (email_of r) = mail_of m)"

definition queued_inv :: "outbox_state \<Rightarrow> bool" where
  "queued_inv s \<longleftrightarrow>
     (\<forall>f\<in>set (ob_flights s). queued (ob_rows s) (f_item f)) \<and> (\<forall>m\<in>set (ob_log s). queued (ob_rows s) m)"

lemma queued_update:
  assumes "queued rows m" and "\<And>r. o_id (g r) = o_id r \<and> mail_of (email_of (g r)) = mail_of (email_of r)"
  shows "queued (update_where P g rows) m"
proof -
  obtain r where r: "r \<in> set rows" "o_id r = e_id m" "mail_of (email_of r) = mail_of m"
    using assms(1) by (auto simp: queued_def)
  let ?r = "if P r then g r else r"
  have "?r \<in> set (update_where P g rows)" using r(1) by (auto simp: in_update_where)
  moreover have "o_id ?r = e_id m" "mail_of (email_of ?r) = mail_of m" using r(2,3) assms(2) [of r] by simp_all
  ultimately show ?thesis unfolding queued_def by blast
qed

lemma queued_rows:
  assumes "queued rows m"
  shows "queued (rows @ rows') m" "queued (lock_rows now ids rows) m" "queued (sent_rows now i rows) m"
    "queued (failed_rows i t e rows) m"
proof -
  show "queued (rows @ rows') m" using assms by (auto simp: queued_def)
qed (unfold lock_rows_def sent_rows_def failed_rows_def, (rule queued_update [OF assms], simp add: mail_of_def email_of_def)+)

lemma queued_claimed: "r \<in> set rows \<Longrightarrow> queued rows (email_of r)"
  by (auto simp: queued_def email_of_def)

lemma queued_step: "outbox_step reclaim_after ev s s' \<Longrightarrow> queued_inv s \<Longrightarrow> queued_inv s'"
  by (induction rule: outbox_step.induct)
    (auto simp: queued_inv_def queued_rows in_taken_off intro!: queued_rows(2) queued_claimed dest: in_remove1)

interpretation content: machine outbox_init "any_step reclaim_after" queued_inv for reclaim_after
proof
  show "outbox_init s \<Longrightarrow> queued_inv s" for s by (simp add: outbox_init_def queued_inv_def)
  show "queued_inv s \<Longrightarrow> any_step reclaim_after s t \<Longrightarrow> queued_inv t" for s t
    using queued_step by (auto simp: any_step_def)
qed

text \<open>A mail that is marked as sent, with no delivery of it in flight, is done.\<close>

definition finished :: "uuid \<Rightarrow> outbox_state \<Rightarrow> bool" where
  "finished i s \<longleftrightarrow>
     i \<in> o_id ` set (ob_rows s) \<and> (\<forall>r\<in>set (ob_rows s). o_id r = i \<longrightarrow> o_sent_at r \<noteq> None) \<and>
     (\<forall>f\<in>set (ob_flights s). f_id f \<noteq> i)"

definition deliveries :: "uuid \<Rightarrow> outbox_state \<Rightarrow> outbox_email_row list" where
  "deliveries i s = filter (\<lambda>m. e_id m = i) (ob_log s)"

lemma ids_set_rows [simp]:
  "o_id ` set (lock_rows now ids rows) = o_id ` set rows" "o_id ` set (sent_rows now i rows) = o_id ` set rows"
  "o_id ` set (failed_rows i t e rows) = o_id ` set rows"
  by (metis ids_rows list.set_map)+

lemma finished_claim:
  assumes "finished i s" and "i' \<in> set (claim_ids held (ob_now s) batch reclaim_after (ob_rows s))"
  shows "i' \<noteq> i"
  using claim_ids_claimable [OF assms(2)] assms(1) by (auto simp: finished_def claimable_def)

lemma finished_step:
  assumes "outbox_step reclaim_after ev s s'" and "finished i s"
  shows "finished i s' \<and> deliveries i s' = deliveries i s"
  using assms
proof (induction rule: outbox_step.induct)
  case (claim ids held s batch)
  have "i \<notin> set ids" using finished_claim [OF claim.prems] claim.hyps by blast
  with claim.prems show ?case
    by (auto simp: finished_def deliveries_def in_lock_rows in_taken_off email_of_def split: if_splits)
qed (auto simp: finished_def deliveries_def new_mail_def in_sent_rows in_failed_rows dest: in_remove1 split: if_splits)

lemma finished_steps:
  assumes "(any_step reclaim_after)\<^sup>*\<^sup>* s s'" and "finished i s"
  shows "finished i s' \<and> deliveries i s' = deliveries i s"
  using assms(1) by (induction rule: rtranclp_induct) (use assms(2) finished_step in \<open>auto simp: any_step_def\<close>)

section \<open>A batch is a run of the machine\<close>

lemma acquire_then:
  "\<exists>u. outbox (db u) = outbox (db w) \<and> snd (act_bind (acquire L) (\<lambda>_. m) w) \<in> {u, snd (m u)}"
proof -
  obtain q u where u: "acquire L w = (q, u)" by (cases "acquire L w")
  then have "outbox (db u) = outbox (db w)"
    by (auto simp: acquire_def db_read_def db_query_def Let_def split: option.splits if_splits)
  with u show ?thesis by (intro exI [of _ u]) (auto simp: act_bind_def split: res.splits)
qed

lemma mark_rows:
  "outbox (db (snd (mark_email_sent L now i u))) \<in> {outbox (db u), sent_rows now i (outbox (db u))}"
  "outbox (db (snd (mark_email_failed L i t e u))) \<in> {outbox (db u), failed_rows i t e (outbox (db u))}"
  by (auto simp: mark_email_sent_def mark_email_failed_def db_exec_def db_query_def Let_def split: option.splits)

text \<open>A task records what happened to its mail, or nothing.\<close>

lemma record_outcome_rows:
  "outbox (db (snd (record_outcome L now item result w))) = outbox (db w) \<or>
    result = Ok () \<and> outbox (db (snd (record_outcome L now item result w))) = sent_rows (int now) (e_id item) (outbox (db w)) \<or>
    (\<exists>e t. result = Err e \<and>
       outbox (db (snd (record_outcome L now item result w))) = failed_rows (e_id item) t (email_error_to_string e) (outbox (db w)))"
proof (cases result)
  case (Ok a)
  let ?m = "mark_email_sent L (int now) (e_id item)"
  obtain u where "outbox (db u) = outbox (db w)" "snd (act_bind (acquire L) (\<lambda>_. ?m) w) \<in> {u, snd (?m u)}"
    using acquire_then by blast
  with mark_rows(1) [of L "int now" "e_id item" u] Ok show ?thesis by (auto simp: record_outcome_def)
next
  case (Err e)
  show ?thesis
  proof (cases "chrono_plus_seconds L (int now) (compute_backoff_secs (e_attempts item))")
    case None
    with Err show ?thesis by (simp add: record_outcome_def act_bind_def)
  next
    case (Some t)
    let ?m = "mark_email_failed L (e_id item) t (email_error_to_string e)"
    obtain u where "outbox (db u) = outbox (db w)" "snd (act_bind (acquire L) (\<lambda>_. ?m) w) \<in> {u, snd (?m u)}"
      using acquire_then by blast
    moreover have "snd (record_outcome L now item result w) = snd (act_bind (acquire L) (\<lambda>_. ?m) w)"
      by (simp add: record_outcome_def Err Some act_bind_def [of "act_lift _"])
    ultimately show ?thesis
      using mark_rows(2) [of L "e_id item" t "email_error_to_string e" u] Err by auto
  qed
next
  case Panic
  then show ?thesis by (simp add: record_outcome_def)
qed

text \<open>The machine while a batch is being delivered: the mails of the tasks that are left are in
  flight.\<close>

definition batch_state ::
    "timestamp \<Rightarrow> outbox_row list \<Rightarrow> timestamp \<Rightarrow> outbox_email_row list \<Rightarrow> outbox_email_row list \<Rightarrow> outbox_state" where
  "batch_state now rows since items log =
     \<lparr> ob_now = now, ob_rows = rows, ob_flights = taken_off since items, ob_log = log \<rparr>"

abbreviation steps :: "int \<Rightarrow> outbox_state \<Rightarrow> outbox_state \<Rightarrow> bool" where
  "steps reclaim_after \<equiv> (any_step reclaim_after)\<^sup>*\<^sup>*"

lemma one_step: "outbox_step reclaim_after ev s s' \<Longrightarrow> s'' = s' \<Longrightarrow> steps reclaim_after s s''"
  by (auto simp: any_step_def intro!: r_into_rtranclp)

lemma taken_off_remove1:
  "taken_off since (remove1 item items) = remove1 \<lparr> f_item = item, f_since = since, f_result = None \<rparr> (taken_off since items)"
  by (induction items) (auto simp: taken_off_def)

lemma in_taken_off_items: "item \<in> set items \<Longrightarrow> \<lparr> f_item = item, f_since = since, f_result = None \<rparr> \<in> set (taken_off since items)"
  by (simp add: taken_off_def)

lemma claim_rows:
  assumes "act_bind (acquire L) (\<lambda>_. claim_pending_emails L held now n reclaim) w = (q, w1)"
  shows "case q of
     Ok batch \<Rightarrow> (let ids = claim_ids held now n reclaim (outbox (db w)) in
       batch = claimed_emails ids (outbox (db w)) \<and> outbox (db w1) = lock_rows now ids (outbox (db w)))
   | _ \<Rightarrow> outbox (db w1) = outbox (db w)"
proof -
  obtain q0 u where a: "acquire L w = (q0, u)" by (cases "acquire L w")
  then have u: "outbox (db u) = outbox (db w)"
    by (auto simp: acquire_def db_read_def db_query_def Let_def split: option.splits if_splits)
  show ?thesis
  proof (cases q0)
    case (Ok x)
    then have "claim_pending_emails L held now n reclaim u = (q, w1)" using assms a by (simp add: act_bind_def)
    then show ?thesis
      by (auto simp: claim_pending_emails_def db_query_def Let_def u split: option.splits if_splits)
  qed (use assms a u in \<open>auto simp: act_bind_def\<close>)
qed

context email_sender
begin

lemma deliver_steps:
  assumes item: "item \<in> set pending" and "deliver L send (t, item) (w, s) = (w', s')" and "now \<le> int t"
  shows "\<exists>log. steps reclaim_after (batch_state now (outbox (db w)) since pending log0)
      (batch_state (int t) (outbox (db w')) since (remove1 item pending) (log0 @ log)) \<and> handed s' = handed s @ map mail_of log"
proof -
  obtain result where send: "send (e_to_address item) (e_subject item) (e_body item) s = (result, s')"
    and w': "w' = snd (record_outcome L t item result w)"
    using assms(2) by (auto simp: deliver_def split: prod.splits)
  define f where "f = \<lparr> f_item = item, f_since = since, f_result = None \<rparr>"
  define log where "log = (if result = Ok () then [item] else [])"
  let ?rest = "taken_off since (remove1 item pending)"
  let ?s0 = "batch_state (int t) (outbox (db w)) since pending log0"
  let ?s1 = "\<lparr> ob_now = int t, ob_rows = outbox (db w), ob_flights = f\<lparr>f_result := Some result\<rparr> # ?rest, ob_log = log0 @ log \<rparr>"
  let ?s2 = "batch_state (int t) (outbox (db w')) since (remove1 item pending) (log0 @ log)"
  have flying: "f \<in> set (ob_flights ?s0)" "f_result f = None" "remove1 f (ob_flights ?s0) = ?rest"
    by (simp_all add: f_def batch_state_def in_taken_off_items [OF item] taken_off_remove1)
  have answered: "steps reclaim_after ?s0 ?s1" if "result \<noteq> Panic"
  proof (cases result)
    case (Ok a)
    then show ?thesis using one_step [OF sent [OF flying(1,2)]] flying(3) by (simp add: batch_state_def f_def log_def)
  next
    case (Err e)
    then show ?thesis using one_step [OF refused [OF flying(1,2)]] flying(3) by (simp add: batch_state_def f_def log_def)
  qed (use that in simp)
  consider (same) "outbox (db w') = outbox (db w)"
    | (ok) "result = Ok ()" "outbox (db w') = sent_rows (int t) (e_id item) (outbox (db w))"
    | (err) e u where "result = Err e" "outbox (db w') = failed_rows (e_id item) u (email_error_to_string e) (outbox (db w))"
    using record_outcome_rows [of L t item result w] w' by blast
  then have "steps reclaim_after ?s0 ?s2"
  proof cases
    case same
    have "steps reclaim_after ?s1 ?s2"
      by (rule one_step [OF lost [of "f\<lparr>f_result := Some result\<rparr>"]]) (simp_all add: batch_state_def same)
    moreover have "steps reclaim_after ?s0 ?s2" if "result = Panic"
      using one_step [OF lost [OF flying(1)]] flying(3) that by (simp add: batch_state_def same log_def)
    ultimately show ?thesis using answered by (cases "result = Panic") (auto intro: rtranclp_trans)
  next
    case ok
    have "steps reclaim_after ?s1 ?s2"
      by (rule one_step [OF recorded_sent [of "f\<lparr>f_result := Some result\<rparr>"]]) (simp_all add: batch_state_def ok f_def)
    with answered ok(1) show ?thesis by (auto intro: rtranclp_trans)
  next
    case err
    have "steps reclaim_after ?s1 ?s2"
      by (rule one_step [OF recorded_failed [of "f\<lparr>f_result := Some result\<rparr>"]]) (simp_all add: batch_state_def err f_def)
    with answered err(1) show ?thesis by (auto intro: rtranclp_trans)
  qed
  moreover have "steps reclaim_after (batch_state now (outbox (db w)) since pending log0) ?s0"
    by (rule one_step [OF tick [of _ "int t"]]) (simp_all add: batch_state_def assms(3))
  moreover have "handed s' = handed s @ map mail_of log"
    using send_cases [OF send] by (simp add: log_def mail_of_def)
  ultimately show ?thesis by (blast intro: rtranclp_trans)
qed

lemma deliveries_steps:
  assumes "fold (deliver L send) tasks (w, s) = (w', s')" and "mset (map snd tasks) = mset pending"
    and "sorted (map fst tasks)" and "\<forall>t\<in>set (map fst tasks). now \<le> int t"
  shows "\<exists>log t. steps reclaim_after (batch_state now (outbox (db w)) since pending log0)
      (batch_state t (outbox (db w')) since [] (log0 @ log)) \<and> handed s' = handed s @ map mail_of log"
  using assms
proof (induction tasks arbitrary: w s pending now log0)
  case Nil
  then show ?case by (intro exI [of _ "[]"] exI [of _ now]) simp
next
  case (Cons task tasks)
  obtain t item where task: "task = (t, item)" by (cases task)
  obtain w1 s1 where d: "deliver L send (t, item) (w, s) = (w1, s1)" by (cases "deliver L send (t, item) (w, s)")
  have item: "item \<in> set pending" using Cons.prems(2) by (simp add: task) (metis union_single_eq_member set_mset_mset)
  obtain log1 where log1: "steps reclaim_after (batch_state now (outbox (db w)) since pending log0)
      (batch_state (int t) (outbox (db w1)) since (remove1 item pending) (log0 @ log1))" "handed s1 = handed s @ map mail_of log1"
    using deliver_steps [OF item d, of now reclaim_after since log0] Cons.prems(4) by (auto simp: task)
  have "fold (deliver L send) tasks (w1, s1) = (w', s')" using Cons.prems(1) d by (simp add: task)
  moreover have "mset (map snd tasks) = mset (remove1 item pending)"
    using arg_cong [OF Cons.prems(2), of "\<lambda>M. M - {#item#}"] by (simp add: task)
  ultimately obtain log2 t2 where "steps reclaim_after (batch_state (int t) (outbox (db w1)) since (remove1 item pending) (log0 @ log1))
      (batch_state t2 (outbox (db w')) since [] ((log0 @ log1) @ log2))" "handed s' = handed s1 @ map mail_of log2"
    using Cons.IH [of w1 s1 "remove1 item pending" "int t" "log0 @ log1"] Cons.prems(3) by (auto simp: task)
  with log1 show ?case by (intro exI [of _ "log1 @ log2"] exI [of _ t2]) (auto intro: rtranclp_trans)
qed

lemma batch_steps:
  assumes "process_batch L send held sched self now (w, s) = (r, (w', s'))"
    and perm: "\<And>batch. mset (map snd (sched batch)) = mset batch" and order: "\<And>batch. sorted (map fst (sched batch))"
    and later: "\<And>batch. \<forall>t\<in>set (map fst (sched batch)). now \<le> t"
  shows "\<exists>log t. steps (reclaim_after_secs self) (batch_state (int now) (outbox (db w)) (int now) [] log0)
      (batch_state t (outbox (db w')) (int now) [] (log0 @ log)) \<and> handed s' = handed s @ map mail_of log"
proof -
  let ?reclaim = "reclaim_after_secs self"
  let ?stmt = "claim_pending_emails L held (int now) (batch_size self) ?reclaim"
  obtain q w1 where claim: "act_bind (acquire L) (\<lambda>_. ?stmt) w = (q, w1)" by (cases "act_bind (acquire L) (\<lambda>_. ?stmt) w")
  show ?thesis
  proof (cases "\<exists>batch. q = Ok batch")
    case True
    then obtain batch where q: "q = Ok batch" by blast
    let ?ids = "claim_ids held (int now) (batch_size self) ?reclaim (outbox (db w))"
    let ?s0 = "batch_state (int now) (outbox (db w)) (int now) [] log0"
    have b: "batch = claimed_emails ?ids (outbox (db w))" "outbox (db w1) = lock_rows (int now) ?ids (outbox (db w))"
      using claim_rows [OF claim] by (simp_all add: q Let_def)
    have "steps ?reclaim ?s0 (batch_state (int now) (outbox (db w1)) (int now) batch log0)"
      by (rule one_step [OF outbox_step.claim [of ?ids held ?s0 "batch_size self"]])
        (simp_all add: batch_state_def b taken_off_def)
    moreover have "fold (deliver L send) (sched batch) (w1, s) = (w', s')"
      using assms(1) claim by (simp add: process_batch_def act_map_err_def q)
    moreover have "\<forall>t\<in>set (map fst (sched batch)). int now \<le> int t" using later [of batch] by simp
    ultimately show ?thesis
      using deliveries_steps [OF _ perm order, of L batch w1 s w' s' "int now" ?reclaim "int now" log0]
      by (meson rtranclp_trans)
  next
    case False
    then have "outbox (db w1) = outbox (db w)" using claim_rows [OF claim] by (cases q) auto
    moreover have "w' = w1 \<and> s' = s"
      using assms(1) claim False by (cases q) (auto simp: process_batch_def act_map_err_def)
    ultimately show ?thesis by (intro exI [of _ "[]"] exI [of _ "int now"]) simp
  qed
qed

end

end
