(* ===== verification/Outbox_Properties.thy ===== *)
theory Outbox_Properties
  imports Outbox_Machine Auth_Properties
begin

text \<open>
  What the outbox guarantees: which mails are sent, how often, and what a batch does when the store
  and the transport answer or fail.
\<close>

section \<open>A batch when the store answers\<close>

text \<open>No task opens a transaction or changes which mails the rows are for, and a row that is marked as
  sent and unlocked stays so.\<close>

definition delivered :: "uuid \<Rightarrow> outbox_row list \<Rightarrow> bool" where
  "delivered i rows \<longleftrightarrow> (\<forall>q\<in>set rows. o_id q = i \<longrightarrow> o_sent_at q \<noteq> None \<and> o_locked_at q = None)"

definition mails_in :: "outbox_row list \<Rightarrow> (uuid \<times> mail) list" where
  "mails_in rows = map (\<lambda>r. (o_id r, o_to_address r, o_subject r, o_body r)) rows"

lemma delivered_update:
  assumes "\<And>r. o_id (f r) = o_id r" and "\<And>r. o_locked_at (f r) = None"
    and "\<And>r. o_sent_at r \<noteq> None \<Longrightarrow> o_sent_at (f r) \<noteq> None" and "delivered i rows"
  shows "delivered i (update_where P f rows)"
  unfolding delivered_def
proof (intro ballI impI)
  fix q assume "q \<in> set (update_where P f rows)" and id: "o_id q = i"
  then obtain r where "r \<in> set rows" "q = (if P r then f r else r)" unfolding in_update_where by blast
  then show "o_sent_at q \<noteq> None \<and> o_locked_at q = None"
    using assms id unfolding delivered_def by (cases "P r") auto
qed

lemma delivered_kept:
  "delivered i rows \<Longrightarrow> delivered i (sent_rows now j rows)" "delivered i rows \<Longrightarrow> delivered i (failed_rows j t e rows)"
  unfolding sent_rows_def failed_rows_def by (rule delivered_update; simp)+

lemma delivered_sent: "delivered i (sent_rows now i rows)"
  unfolding delivered_def
proof (intro ballI impI)
  fix q assume "q \<in> set (sent_rows now i rows)" and id: "o_id q = i"
  then obtain r where "q = (if o_id r = i then r\<lparr>o_sent_at := Some now, o_locked_at := None\<rparr> else r)"
    unfolding in_sent_rows by blast
  then show "o_sent_at q \<noteq> None \<and> o_locked_at q = None" using id by (cases "o_id r = i") simp_all
qed

lemma mails_in_rows [simp]:
  "mails_in (lock_rows now ids rows) = mails_in rows" "mails_in (sent_rows now j rows) = mails_in rows"
  "mails_in (failed_rows j t e rows) = mails_in rows"
  by (simp_all add: mails_in_def lock_rows_def sent_rows_def failed_rows_def table_simps)

lemma auto_query: "db_query L texts stmt w = (r, w') \<Longrightarrow> tx w = Auto \<Longrightarrow> tx w' = Auto"
  by (auto simp: db_query_def Let_def split: option.splits res.splits if_splits)

lemma auto_record: "tx w = Auto \<Longrightarrow> tx (snd (record_outcome L now item result w)) = Auto"
  by (auto simp: record_outcome_def act_ok_def act_bind_def acquire_def db_read_def db_exec_def mark_email_sent_def
      mark_email_failed_def split: res.splits prod.splits dest!: auto_query)

lemma record_taken:
  assumes "reliable L" and "tx w = Auto"
  shows "outbox (db (snd (record_outcome L now item (Ok ()) w))) = sent_rows (int now) (e_id item) (outbox (db w))"
  using assms
  by (simp add: record_outcome_def act_ok_def act_bind_def acquire_def reliable_read mark_email_sent_def reliable_exec)

context email_sender
begin

lemma deliver_keeps:
  assumes "tx w = Auto" and "deliver L send (t, item) (w, s) = (w', s')"
  shows "tx w' = Auto" and "mails_in (outbox (db w')) = mails_in (outbox (db w))"
    and "delivered i (outbox (db w)) \<Longrightarrow> delivered i (outbox (db w'))" and "set (handed s) \<subseteq> set (handed s')"
proof -
  obtain r where r: "send (e_to_address item) (e_subject item) (e_body item) s = (r, s')"
    and w': "w' = snd (record_outcome L t item r w)"
    using assms(2) by (auto simp: deliver_def split: prod.splits)
  show "tx w' = Auto" using auto_record [OF assms(1)] by (simp add: w')
  show "set (handed s) \<subseteq> set (handed s')" by (rule handed_grows [OF r])
  show "mails_in (outbox (db w')) = mails_in (outbox (db w))"
    and "delivered i (outbox (db w)) \<Longrightarrow> delivered i (outbox (db w'))"
    using record_outcome_rows [of L t item r w] by (auto simp: w' delivered_kept)
qed

lemma deliver_taken:
  assumes "reliable L" and "tx w = Auto" and "deliver L send (t, item) (w, s) = (w', s')"
    and "fst (send (e_to_address item) (e_subject item) (e_body item) s) = Ok ()"
  shows "delivered (e_id item) (outbox (db w'))" and "mail_of item \<in> set (handed s')"
proof -
  have r: "send (e_to_address item) (e_subject item) (e_body item) s = (Ok (), s')"
    and w': "w' = snd (record_outcome L t item (Ok ()) w)"
    using assms(3,4) by (auto simp: deliver_def split: prod.splits)
  show "delivered (e_id item) (outbox (db w'))" by (simp add: w' record_taken [OF assms(1,2)] delivered_sent)
  show "mail_of item \<in> set (handed s')" by (simp add: send_ok [OF r] mail_of_def)
qed

text \<open>A mail that the sender takes is handed over and recorded in whatever order the tasks run, and
  whatever happens to the others.\<close>

lemma batch_delivers:
  assumes "reliable L" and "tx w = Auto" and "\<And>s. fst (send (e_to_address item) (e_subject item) (e_body item) s) = Ok ()"
    and "fold (deliver L send) tasks (w, s) = (w', s')"
  shows "mails_in (outbox (db w')) = mails_in (outbox (db w)) \<and> set (handed s) \<subseteq> set (handed s') \<and>
    (delivered (e_id item) (outbox (db w)) \<or> item \<in> snd ` set tasks \<longrightarrow> delivered (e_id item) (outbox (db w'))) \<and>
    (item \<in> snd ` set tasks \<longrightarrow> mail_of item \<in> set (handed s'))"
  using assms(2,4)
proof (induction tasks arbitrary: w s)
  case (Cons task tasks)
  obtain t item' where task: "task = (t, item')" by (cases task)
  obtain w1 s1 where one: "deliver L send (t, item') (w, s) = (w1, s1)" by (cases "deliver L send (t, item') (w, s)")
  note kept = deliver_keeps [OF Cons.prems(1) one]
  note rest = Cons.IH [OF kept(1), of s1]
  have "fold (deliver L send) tasks (w1, s1) = (w', s')" using Cons.prems(2) by (simp add: task one)
  from rest [OF this] kept deliver_taken [OF assms(1) Cons.prems(1) one] assms(3) show ?case
    by (auto simp: task)
qed simp

end

text \<open>A batch that is large enough takes every row that can be claimed.\<close>

lemma claim_ids_all:
  assumes "int (length rows) \<le> n"
  shows "set (claim_ids held now n reclaim rows) = o_id ` {r \<in> set rows. claimable now reclaim r \<and> \<not> held (o_id r)}"
proof -
  have "length (filter (\<lambda>r. claimable now reclaim r \<and> \<not> held (o_id r)) rows) \<le> nat n"
    using length_filter_le [of _ rows] assms by (meson le_nat_iff le_trans nat_le_iff order_trans of_nat_mono of_nat_0_le_iff)
  then show ?thesis by (simp add: claim_ids_def)
qed

lemma claimed_next:
  assumes "outbox (db w) = rows @ [new_mail i t receiver subject body]" and "int (length rows) < n" and "\<not> held i" and "t \<le> now"
  shows "email_of (new_mail i t receiver subject body) \<in>
    set (claimed_emails (claim_ids held now n reclaim (outbox (db w))) (outbox (db w)))"
proof -
  let ?new = "new_mail i t receiver subject body"
  have "claimable now reclaim ?new \<and> \<not> held (o_id ?new)"
    using assms(3,4) by (simp add: claimable_def new_mail_def)
  then have "o_id ?new \<in> set (claim_ids held now n reclaim (outbox (db w)))"
    using assms(2) by (subst claim_ids_all) (simp_all add: assms(1))
  then show ?thesis by (simp add: claimed_emails_def assms(1))
qed

lemma claim_succeeds:
  assumes "reliable L" and "tx w = Auto" and "0 \<le> n"
  shows "\<exists>w1. act_bind (acquire L) (\<lambda>_. claim_pending_emails L held now n reclaim) w =
      (Ok (claimed_emails (claim_ids held now n reclaim (outbox (db w))) (outbox (db w))), w1) \<and> tx w1 = Auto \<and>
    outbox (db w1) = lock_rows now (claim_ids held now n reclaim (outbox (db w))) (outbox (db w))"
  using assms
  by (simp add: act_bind_def acquire_def reliable_read claim_pending_emails_def reliable_query Let_def)

section \<open>Properties\<close>

text \<open>C34. A mail is sent at most once. With any number of workers that are on time (each task ends
  before its lock can be reclaimed and records the deliveries that succeeded), from an empty
  outbox: no mail is handed to the transport twice, no two deliveries of one mail are in flight,
  and no mail is tried more often than its limit.\<close>

theorem mail_sent_at_most_once:
  assumes "0 \<le> reclaim_after" and "outbox_init s0" and "(timely_step reclaim_after)\<^sup>*\<^sup>* s0 s"
  shows "distinct (map e_id (ob_log s)) \<and> distinct (map (e_id \<circ> f_item) (ob_flights s)) \<and>
    (\<forall>r. r \<in> set (ob_rows s) \<longrightarrow> 0 \<le> o_attempts r \<and> o_attempts r \<le> o_max_attempts r)"
  using timely.reachable_inv [OF assms(2,3)] assms(1) by (simp add: outbox_inv_def comp_def)

definition demo_outbox :: outbox_state where
  "demo_outbox = \<lparr> ob_now = 0, ob_rows = [], ob_flights = [], ob_log = [] \<rparr>"

definition demo_queued :: outbox_state where
  "demo_queued = demo_outbox\<lparr>ob_rows := [new_mail 7 0 ''a@b'' ''hi'' ''text'']\<rparr>"

definition demo_flight :: flight where
  "demo_flight = \<lparr> f_item = email_of (new_mail 7 0 ''a@b'' ''hi'' ''text''), f_since = 0, f_result = None \<rparr>"

definition demo_flying :: outbox_state where
  "demo_flying = demo_queued\<lparr>ob_rows := [(new_mail 7 0 ''a@b'' ''hi'' ''text'')\<lparr>o_locked_at := Some 0\<rparr>], ob_flights := [demo_flight]\<rparr>"

definition demo_sent :: outbox_state where
  "demo_sent = demo_flying\<lparr>ob_flights := [demo_flight\<lparr>f_result := Some (Ok ())\<rparr>], ob_log := [f_item demo_flight]\<rparr>"

lemmas demo_outbox_defs = demo_outbox_def demo_queued_def demo_flying_def demo_sent_def demo_flight_def

lemma demo_claim: "claim_ids (\<lambda>_. False) 0 10 RECLAIM_AFTER_SECS (ob_rows demo_queued) = [7]"
  by (simp add: claim_ids_def claimable_def demo_outbox_defs new_mail_def)

lemma demo_steps:
  "outbox_step RECLAIM_AFTER_SECS Enqueue demo_outbox demo_queued" "outbox_step RECLAIM_AFTER_SECS Claim demo_queued demo_flying"
  "outbox_step RECLAIM_AFTER_SECS (Sent demo_flight) demo_flying demo_sent"
proof -
  show "outbox_step RECLAIM_AFTER_SECS Enqueue demo_outbox demo_queued"
    using enqueue [of 7 demo_outbox RECLAIM_AFTER_SECS "''a@b''" "''hi''" "''text''"] by (simp add: demo_outbox_defs)
  show "outbox_step RECLAIM_AFTER_SECS Claim demo_queued demo_flying"
    using claim [where s = demo_queued and held = "\<lambda>_. False" and batch = 10 and reclaim_after = RECLAIM_AFTER_SECS, OF refl] demo_claim
    by (simp add: demo_outbox_defs new_mail_def lock_rows_def claimed_emails_def taken_off_def)
  show "outbox_step RECLAIM_AFTER_SECS (Sent demo_flight) demo_flying demo_sent"
    using sent [of demo_flight demo_flying RECLAIM_AFTER_SECS] by (simp add: demo_outbox_defs)
qed

theorem mail_sent_at_most_once_witness:
  "(timely_step RECLAIM_AFTER_SECS)\<^sup>*\<^sup>* demo_outbox demo_sent \<and> length (ob_log demo_sent) = 1 \<and> distinct (map e_id (ob_log demo_sent))"
proof -
  have "0 \<le> RECLAIM_AFTER_SECS" by (simp add: RECLAIM_AFTER_SECS_def)
  then have "timely_step RECLAIM_AFTER_SECS demo_outbox demo_queued" "timely_step RECLAIM_AFTER_SECS demo_queued demo_flying"
    "timely_step RECLAIM_AFTER_SECS demo_flying demo_sent"
    using demo_steps unfolding timely_step_def by (auto simp: demo_outbox_defs)
  then have run: "(timely_step RECLAIM_AFTER_SECS)\<^sup>*\<^sup>* demo_outbox demo_sent"
    by (meson converse_rtranclp_into_rtranclp rtranclp.rtrancl_refl)
  then show ?thesis
    using mail_sent_at_most_once [of RECLAIM_AFTER_SECS demo_outbox demo_sent] \<open>0 \<le> RECLAIM_AFTER_SECS\<close>
    by (simp add: outbox_init_def) (simp add: demo_outbox_defs)
qed

text \<open>A mail that is recorded as sent is never sent again: once its row is marked and no delivery
  of it is in flight, no sequence of steps of any workers, crashes and late tasks included, hands
  it to the transport again.\<close>

theorem recorded_mail_final:
  assumes "row \<in> set (ob_rows s)" and "distinct (map o_id (ob_rows s))" and "o_sent_at row \<noteq> None"
    and "\<forall>f\<in>set (ob_flights s). e_id (f_item f) \<noteq> o_id row" and "(any_step reclaim_after)\<^sup>*\<^sup>* s s'"
  shows "deliveries (o_id row) s' = deliveries (o_id row) s"
proof -
  have "finished (o_id row) s"
    using assms(1-4) distinct_same [OF assms(2) _ assms(1)] by (auto simp: finished_def)
  then show ?thesis using finished_steps [OF assms(5)] by simp
qed

definition demo_done :: outbox_state where
  "demo_done = demo_queued\<lparr>ob_rows := [(new_mail 7 0 ''a@b'' ''hi'' ''text'')\<lparr>o_sent_at := Some 5\<rparr>]\<rparr>"

theorem recorded_mail_final_witness:
  "any_step RECLAIM_AFTER_SECS demo_done (demo_done\<lparr>ob_now := 9\<rparr>) \<and> deliveries 7 (demo_done\<lparr>ob_now := 9\<rparr>) = []"
proof -
  have "outbox_step RECLAIM_AFTER_SECS Tick demo_done (demo_done\<lparr>ob_now := 9\<rparr>)"
    by (rule tick) (simp add: demo_done_def demo_outbox_defs)
  then have step: "any_step RECLAIM_AFTER_SECS demo_done (demo_done\<lparr>ob_now := 9\<rparr>)" by (auto simp: any_step_def)
  then have steps: "(any_step RECLAIM_AFTER_SECS)\<^sup>*\<^sup>* demo_done (demo_done\<lparr>ob_now := 9\<rparr>)" by (rule r_into_rtranclp)
  have "deliveries 7 (demo_done\<lparr>ob_now := 9\<rparr>) = deliveries 7 demo_done"
    using recorded_mail_final [of "(new_mail 7 0 ''a@b'' ''hi'' ''text'')\<lparr>o_sent_at := Some 5\<rparr>" demo_done, OF _ _ _ _ steps]
    by (simp add: demo_done_def demo_outbox_defs new_mail_def)
  moreover have "deliveries 7 demo_done = []" by (simp add: deliveries_def demo_done_def demo_outbox_defs)
  ultimately show ?thesis using step by simp
qed

text \<open>No ghost mails: whatever the workers do, every mail that the transport took was queued in the
  outbox, with the same recipient, subject and body.\<close>

theorem only_queued_mail_sent:
  assumes "outbox_init s0" and "(any_step reclaim_after)\<^sup>*\<^sup>* s0 s" and "m \<in> set (ob_log s)"
  shows "\<exists>r\<in>set (ob_rows s). o_id r = e_id m \<and> o_to_address r = e_to_address m \<and> o_subject r = e_subject m \<and> o_body r = e_body m"
  using content.reachable_inv [OF assms(1,2)] assms(3)
  by (auto simp: queued_inv_def queued_def mail_of_def email_of_def)

theorem only_queued_mail_sent_witness:
  "\<exists>r\<in>set (ob_rows demo_sent). o_id r = 7 \<and> o_to_address r = ''a@b''"
proof -
  have "any_step RECLAIM_AFTER_SECS demo_outbox demo_queued" "any_step RECLAIM_AFTER_SECS demo_queued demo_flying"
    "any_step RECLAIM_AFTER_SECS demo_flying demo_sent"
    using demo_steps unfolding any_step_def by blast+
  then have "(any_step RECLAIM_AFTER_SECS)\<^sup>*\<^sup>* demo_outbox demo_sent"
    by (meson converse_rtranclp_into_rtranclp rtranclp.rtrancl_refl)
  moreover have "outbox_init demo_outbox" by (simp add: outbox_init_def demo_outbox_def)
  moreover have "f_item demo_flight \<in> set (ob_log demo_sent)" by (simp add: demo_sent_def)
  ultimately show ?thesis
    using only_queued_mail_sent by (fastforce simp: demo_flight_def email_of_def new_mail_def)
qed

text \<open>C35. A queued mail arrives, over any sender of the interface (SMTP, log or stub). After a mail was
  queued, when the store answers, the batch is large enough for the outbox, no other transaction
  holds the row and the sender takes this mail, the next batch hands it to the sender; its row is
  still there, marked as sent and unlocked. The tasks of the batch may run in any order, and the
  sender may refuse the other mails or crash on them.\<close>

theorem queued_mail_delivered:
  assumes "email_sender send handed" and "reliable L" and "tx w = Auto"
    and "enqueue_email L (int now) receiver subject body w = (Ok (), w1)"
    and "int (length (outbox (db w))) < batch_size self" and "\<And>i. \<not> held i" and "now \<le> now'"
    and "\<And>batch. mset (map snd (sched batch)) = mset batch"
    and "\<And>s. fst (send receiver subject body s) = Ok ()"
  shows "case process_batch L send held sched self now' (w1, s) of (r, w', s') \<Rightarrow>
    r = Ok () \<and> (receiver, subject, body) \<in> set (handed s') \<and>
    (\<exists>q. q \<in> set (outbox (db w')) \<and> o_id q = pg_uuid L (pg_draws w) \<and> o_to_address q = receiver) \<and>
    (\<forall>q. q \<in> set (outbox (db w')) \<and> o_id q = pg_uuid L (pg_draws w) \<longrightarrow> o_sent_at q \<noteq> None \<and> o_locked_at q = None)"
proof -
  let ?id = "pg_uuid L (pg_draws w)"
  let ?new = "new_mail ?id (int now) receiver subject body"
  have new: "e_id (email_of ?new) = ?id" "e_to_address (email_of ?new) = receiver" "e_subject (email_of ?new) = subject"
      "e_body (email_of ?new) = body" "mail_of (email_of ?new) = (receiver, subject, body)"
    by (simp_all add: mail_of_def email_of_def new_mail_def)
  have w1: "tx w1 = Auto" "outbox (db w1) = outbox (db w) @ [?new]"
    using assms(3,4) by (auto simp: enqueue_email_def db_query_Ok_iff Let_def split: if_splits)
  define ids where "ids = claim_ids held (int now') (batch_size self) (reclaim_after_secs self) (outbox (db w1))"
  define batch where "batch = claimed_emails ids (outbox (db w1))"
  have "email_of ?new \<in> set batch"
    unfolding ids_def batch_def by (rule claimed_next [OF w1(2) assms(5)]) (use assms(6,7) in simp_all)
  moreover have "snd ` set (sched batch) = set batch" using arg_cong [OF assms(8), of set_mset] by simp
  ultimately have task: "email_of ?new \<in> snd ` set (sched batch)" by simp
  have size: "0 \<le> batch_size self" using assms(5) by simp
  obtain w2 where claim: "act_bind (acquire L) (\<lambda>_. claim_pending_emails L held (int now') (batch_size self) (reclaim_after_secs self)) w1 =
      (Ok batch, w2)" "tx w2 = Auto" "outbox (db w2) = lock_rows (int now') ids (outbox (db w1))"
    using claim_succeeds [OF assms(2) w1(1) size] unfolding ids_def batch_def by blast
  obtain w' s' where tasks: "fold (deliver L send) (sched batch) (w2, s) = (w', s')"
    by (cases "fold (deliver L send) (sched batch) (w2, s)")
  have run: "process_batch L send held sched self now' (w1, s) = (Ok (), w', s')"
    by (simp add: process_batch_def act_map_err_def claim(1) tasks)
  have out: "mails_in (outbox (db w')) = mails_in (outbox (db w1))" "delivered ?id (outbox (db w'))"
      "(receiver, subject, body) \<in> set (handed s')"
    using email_sender.batch_delivers [OF assms(1,2) claim(2) _ tasks, of "email_of ?new"] task assms(9) claim(3)
    by (simp_all add: new)
  have "(?id, receiver, subject, body) \<in> set (mails_in (outbox (db w')))"
    unfolding out(1) w1(2) by (simp add: mails_in_def new_mail_def)
  then obtain q where "q \<in> set (outbox (db w'))" "o_id q = ?id" "o_to_address q = receiver"
    by (auto simp: mails_in_def)
  then show ?thesis using out(2,3) by (auto simp: run delivered_def)
qed

definition demo_sched :: "outbox_email_row list \<Rightarrow> (instant \<times> outbox_email_row) list" where
  "demo_sched batch = map (\<lambda>item. (from_secs 1002, item)) (rev batch)"

lemma demo_sched_laws: "mset (map snd (demo_sched batch)) = mset batch" "sorted (map fst (demo_sched batch))"
  "\<forall>t\<in>set (map fst (demo_sched batch)). from_secs 1001 \<le> t"
  by (simp_all add: demo_sched_def comp_def from_secs_def map_replicate_const)

definition demo_lettre :: lettre where
  "demo_lettre =
     \<lparr> parse_address = Inr, parse_mailbox = (\<lambda>s. Inr \<lparr> mailbox_name = None, mailbox_email = s \<rparr>),
       starttls_relay_fault = (\<lambda>h. None), message_fault = (\<lambda>m. None), smtp_fault = (\<lambda>i m. None) \<rparr>"

definition demo_smtp :: smtp_email_sender where
  "demo_smtp = \<lparr> mailer = builder_dangerous ''mx'', sender_from = \<lparr> mailbox_name = None, mailbox_email = ''no@x'' \<rparr> \<rparr>"

lemma demo_smtp_takes: "fst (smtp_send demo_lettre demo_smtp receiver subject body s) = Ok ()"
  by (simp add: smtp_send_def demo_lettre_def Let_def)

theorem queued_mail_delivered_witness:
  "\<exists>w1. enqueue_email ref_lib (int (from_secs 1000)) ''a@b'' ''hi'' ''text'' (demo_world demo_tables) = (Ok (), w1) \<and>
    (case process_batch ref_lib (smtp_send demo_lettre demo_smtp) (\<lambda>_. False) demo_sched worker_new (from_secs 1001)
       (w1, \<lparr> smtp_attempts = 0, smtp_taken = [] \<rparr>) of (r, w', s') \<Rightarrow>
      (''a@b'', ''hi'', ''text'') \<in> set (smtp_handed s') \<and> (\<exists>q\<in>set (outbox (db w')). o_sent_at q \<noteq> None))"
proof -
  let ?w = "demo_world demo_tables" and ?s = "\<lparr> smtp_attempts = 0, smtp_taken = [] \<rparr>"
  let ?w1 = "snd (enqueue_email ref_lib (int (from_secs 1000)) ''a@b'' ''hi'' ''text'' ?w)"
  have texts: "list_all pg_text [''a@b'', ''hi'', ''text'']" "char_count ''a@b'' \<le> 255" by code_simp+
  have ob: "outbox demo_tables = []" by (simp add: demo_tables_def)
  have "fst (enqueue_email ref_lib (int (from_secs 1000)) ''a@b'' ''hi'' ''text'' ?w) = Ok ()"
    using texts by (simp add: enqueue_email_def reliable_query [OF demo_reliable] Let_def ob)
  then have run: "enqueue_email ref_lib (int (from_secs 1000)) ''a@b'' ''hi'' ''text'' ?w = (Ok (), ?w1)" by (metis prod.collapse)
  have size: "int (length (outbox (db ?w))) < batch_size worker_new" by (simp add: ob worker_new_def DEFAULT_BATCH_SIZE_def)
  have later: "from_secs 1000 \<le> from_secs 1001" by (simp add: from_secs_def)
  from queued_mail_delivered [OF smtp.email_sender_axioms demo_reliable _ run size, of "\<lambda>_. False" "from_secs 1001" demo_sched
      demo_lettre demo_smtp ?s, OF _ _ later demo_sched_laws(1) demo_smtp_takes]
  show ?thesis using run by (intro exI [of _ ?w1]) (simp add: split_beta, blast)
qed

text \<open>A delivery that failed is put off, not lost: when the transport refuses a mail and the store
  takes the record of it, the row is unlocked, counts one attempt more and keeps the error; it
  cannot be claimed before the backoff has passed, and can be claimed after it exactly when
  attempts are left.\<close>

theorem failed_mail_retried:
  assumes "chrono_laws L" and "reliable L" and "tx w = Auto" and "distinct (map o_id (outbox (db w)))"
    and row: "row \<in> set (outbox (db w))" "o_sent_at row = None" "o_attempts row \<noteq> 32767"
    and "pg_text (email_error_to_string e)"
    and "chrono_plus_seconds L (int now) (compute_backoff_secs (o_attempts row)) = Some t"
  shows "case record_outcome L now (email_of row) (Err e) w of (r, w') \<Rightarrow>
    \<exists>row'\<in>set (outbox (db w')). o_id row' = o_id row \<and> o_attempts row' = o_attempts row + 1 \<and>
      o_last_error row' = Some (email_error_to_string e) \<and> o_locked_at row' = None \<and>
      (\<forall>later reclaim. claimable later reclaim row' \<longleftrightarrow>
         int now + compute_backoff_secs (o_attempts row) * int NANOS_PER_SEC \<le> later \<and> o_attempts row + 1 < o_max_attempts row)"
proof -
  let ?row = "row\<lparr>o_attempts := o_attempts row + 1, o_last_error := Some (email_error_to_string e), o_available_at := t, o_locked_at := None\<rparr>"
  have t: "t = int now + compute_backoff_secs (o_attempts row) * int NANOS_PER_SEC"
    using chrono_laws.plus_seconds [OF assms(1,9)] .
  have "\<not> (\<exists>r\<in>set (outbox (db w)). o_id r = o_id row \<and> o_attempts r = 32767)"
    using row distinct_same [OF assms(4) _ row(1)] by auto
  then have "outbox (db (snd (record_outcome L now (email_of row) (Err e) w))) =
      failed_rows (o_id row) t (email_error_to_string e) (outbox (db w))"
    using assms(2,3,8,9)
    by (auto simp: record_outcome_def act_ok_def act_bind_def acquire_def reliable_read mark_email_failed_def reliable_query
        Let_def email_of_def split_beta)
  moreover have "?row \<in> set (failed_rows (o_id row) t (email_error_to_string e) (outbox (db w)))"
    using row(1) by (auto simp: in_failed_rows)
  ultimately have "?row \<in> set (outbox (db (snd (record_outcome L now (email_of row) (Err e) w))))" by simp
  moreover have "claimable later reclaim ?row \<longleftrightarrow> t \<le> later \<and> o_attempts row + 1 < o_max_attempts row" for later reclaim
    using row(2) by (simp add: claimable_def)
  ultimately show ?thesis unfolding split_beta t [symmetric] by (intro bexI [of _ ?row]) simp_all
qed

definition demo_outbox_row :: outbox_row where
  "demo_outbox_row = (new_mail 7 0 ''a@b'' ''hi'' ''text'')\<lparr>o_locked_at := Some 0\<rparr>"

definition demo_outbox_tables :: tables where
  "demo_outbox_tables = demo_tables\<lparr>outbox := [demo_outbox_row]\<rparr>"

theorem failed_mail_retried_witness:
  "case record_outcome ref_lib (from_secs 1000) (email_of demo_outbox_row) (Err (Send ''down'')) (demo_world demo_outbox_tables) of (r, w') \<Rightarrow>
    \<exists>row'\<in>set (outbox (db w')). o_id row' = 7 \<and> o_attempts row' = 1 \<and>
      (\<forall>later reclaim. claimable later reclaim row' \<longleftrightarrow> int (from_secs 1030) \<le> later)"
proof -
  have backoff: "compute_backoff_secs 0 = 30" by (simp add: backoff_formula)
  have chrono: "chrono_plus_seconds ref_lib (int (from_secs 1000)) 30 = Some (int (from_secs 1030))"
    by (simp add: ref_chrono_max_def from_secs_def NANOS_PER_SEC_def)
  have "pg_text (email_error_to_string (Send ''down''))" by code_simp
  moreover have "o_attempts demo_outbox_row = 0" "o_sent_at demo_outbox_row = None" "o_id demo_outbox_row = 7" "o_max_attempts demo_outbox_row = 5"
    by (simp_all add: demo_outbox_row_def new_mail_def)
  moreover have "int (from_secs 1000) + 30 * int NANOS_PER_SEC = int (from_secs 1030)" by (simp add: from_secs_def)
  ultimately show ?thesis
    using failed_mail_retried [OF ref_chrono.chrono_laws_axioms demo_reliable, of "demo_world demo_outbox_tables" demo_outbox_row
        "Send ''down''" "from_secs 1000" "int (from_secs 1030)"] backoff chrono
    by (simp add: demo_outbox_tables_def split_beta) blast
qed

text \<open>C36. A batch over SMTP is a run of the concurrent machine that starts and ends with nothing in
  flight, whatever fails on the way; the mails that the run logs are those the relay took during
  the batch.\<close>

theorem process_batch_refines:
  assumes "process_batch L (smtp_send X sender) held sched self now (w, s) = (r, (w', s'))"
    and "\<And>batch. mset (map snd (sched batch)) = mset batch" and "\<And>batch. sorted (map fst (sched batch))"
    and "\<And>batch. \<forall>t\<in>set (map fst (sched batch)). now \<le> t"
  shows "\<exists>log t. (any_step (reclaim_after_secs self))\<^sup>*\<^sup>*
       \<lparr> ob_now = int now, ob_rows = outbox (db w), ob_flights = [], ob_log = log0 \<rparr>
       \<lparr> ob_now = t, ob_rows = outbox (db w'), ob_flights = [], ob_log = log0 @ log \<rparr> \<and>
     smtp_handed s' = smtp_handed s @ map mail_of log"
  using smtp.batch_steps [OF assms(1), of log0] assms(2-4) by (auto simp: batch_state_def taken_off_def)

theorem process_batch_refines_witness:
  "\<exists>r w' s' log t. process_batch ref_lib (smtp_send demo_lettre demo_smtp) (\<lambda>_. False) demo_sched worker_new (from_secs 1001)
       (demo_world demo_outbox_tables, \<lparr> smtp_attempts = 0, smtp_taken = [] \<rparr>) = (r, (w', s')) \<and>
     (any_step RECLAIM_AFTER_SECS)\<^sup>*\<^sup>*
       \<lparr> ob_now = int (from_secs 1001), ob_rows = [demo_outbox_row], ob_flights = [], ob_log = [] \<rparr>
       \<lparr> ob_now = t, ob_rows = outbox (db w'), ob_flights = [], ob_log = log \<rparr>"
proof -
  let ?run = "process_batch ref_lib (smtp_send demo_lettre demo_smtp) (\<lambda>_. False) demo_sched worker_new (from_secs 1001)
       (demo_world demo_outbox_tables, \<lparr> smtp_attempts = 0, smtp_taken = [] \<rparr>)"
  obtain r w' s' where run: "?run = (r, (w', s'))" by (cases ?run) auto
  have "outbox (db (demo_world demo_outbox_tables)) = [demo_outbox_row]" "reclaim_after_secs worker_new = RECLAIM_AFTER_SECS"
    by (simp_all add: demo_outbox_tables_def worker_new_def)
  with process_batch_refines [OF run demo_sched_laws, of "[]"] run show ?thesis by auto
qed

end
