(* ===== verification/Tenant.thy ===== *)
theory Tenant
  imports Store Reference_Libs
begin

text \<open>
  \<open>store/tenant.rs\<close>: a transaction that carries the tenant it works for in a setting of the
  connection, for the row-level security of the database to read. A connection has settings of its
  session and settings that its transaction made, each local to the transaction or not
  (\<open>session_settings\<close> and \<open>tx_settings\<close> of \<open>world\<close>): a commit keeps the others, a rollback none.
\<close>

section \<open>The guard\<close>

definition TENANT_SETTING :: string where
  "TENANT_SETTING = ''app.current_tenant''"

record tenant_tx =
  guard_tenant_id :: uuid

text \<open>\<open>SELECT set_config(name, $1, is_local)\<close>: outside a transaction a local setting is gone with its
  statement. \<open>current_setting\<close> reads the latest value.\<close>

definition set_config :: "lib \<Rightarrow> string \<Rightarrow> string \<Rightarrow> bool \<Rightarrow> ('g, 'r, sqlx_error, unit) sact" where
  "set_config L name value is_local =
     act_bind (db_read L [value] (\<lambda>_. ())) (\<lambda>_ w.
       (Ok (), case tx w of
                 InTx snap b \<Rightarrow> w\<lparr>tx_settings := tx_settings w @ [(name, value, is_local)]\<rparr>
               | Auto \<Rightarrow> if is_local then w else w\<lparr>session_settings := (session_settings w)(name \<mapsto> value)\<rparr>))"

definition current_setting :: "string \<Rightarrow> ('g, 'r) world \<Rightarrow> string option" where
  "current_setting name w =
     (case find (\<lambda>(k, v, is_local). k = name) (rev (tx_settings w)) of
        Some (k, v, is_local) \<Rightarrow> Some v
      | None \<Rightarrow> session_settings w name)"

text \<open>A failure drops the transaction that was just begun.\<close>

definition tenant_begin :: "lib \<Rightarrow> uuid \<Rightarrow> ('g, 'r, sqlx_error, tenant_tx) sact" where
  "tenant_begin L tenant_id =
     act_bind (begin_tx L) (\<lambda>_ w.
       case set_config L ''app.current_tenant'' (uuid_to_string L tenant_id) True w of
         (Ok _, w') \<Rightarrow> (Ok \<lparr> guard_tenant_id = tenant_id \<rparr>, w')
       | (Err e, w') \<Rightarrow> (Err e, drop_tx w')
       | (Panic, w') \<Rightarrow> (Panic, drop_tx w'))"

definition tenant_id :: "tenant_tx \<Rightarrow> uuid" where
  "tenant_id self = guard_tenant_id self"

definition tenant_commit :: "lib \<Rightarrow> ('g, 'r, sqlx_error, unit) sact" where
  "tenant_commit L = commit L"


section \<open>Work inside the guard\<close>

text \<open>The guard dereferences to the connection, so the SQL that runs on it may change tables and may
  change settings. A statement on tables is a function of them.\<close>

datatype guarded_sql = OnTables "string list" "unit statement" | SetConfig string string bool

fun run_sql :: "lib \<Rightarrow> guarded_sql \<Rightarrow> ('g, 'r, sqlx_error, unit) sact" where
  "run_sql L (OnTables texts stmt) = db_query L texts stmt"
| "run_sql L (SetConfig name value is_local) = set_config L name value is_local"

text \<open>The use that the module documents: statements on the guarded connection, each with \<open>?\<close>, then a
  commit. An error drops the guard.\<close>

fun run_statements :: "lib \<Rightarrow> guarded_sql list \<Rightarrow> ('g, 'r, sqlx_error, unit) sact" where
  "run_statements L [] = act_return ()"
| "run_statements L (sql # sqls) = act_bind (run_sql L sql) (\<lambda>_. run_statements L sqls)"

definition tenant_work :: "lib \<Rightarrow> uuid \<Rightarrow> guarded_sql list \<Rightarrow> ('g, 'r, sqlx_error, unit) sact" where
  "tenant_work L tenant sqls =
     act_bind (tenant_begin L tenant) (\<lambda>_ w.
       case act_bind (run_statements L sqls) (\<lambda>_. tenant_commit L) w of (r, w') \<Rightarrow> (r, drop_tx w'))"


fun sets_tenant :: "guarded_sql \<Rightarrow> bool" where
  "sets_tenant (OnTables texts stmt) = False"
| "sets_tenant (SetConfig name value is_local) = (name = ''app.current_tenant'')"

section \<open>Lemmas\<close>

text \<open>The connection inside the guard: its transaction can be rolled back to \<open>D\<close>. The tenant is \<open>s\<close> for
  the transaction only, and none for the session.\<close>

definition guarded :: "tables \<Rightarrow> ('g, 'r) world \<Rightarrow> bool" where
  "guarded D w \<longleftrightarrow> in_tx D (tx w)"

definition tenant_set :: "string \<Rightarrow> ('g, 'r) world \<Rightarrow> bool" where
  "tenant_set s w \<longleftrightarrow>
     current_setting ''app.current_tenant'' w = Some s \<and> session_settings w ''app.current_tenant'' = None \<and>
     (\<forall>value. (''app.current_tenant'', value, False) \<notin> set (tx_settings w))"



lemma begin_tx_outcome:
  assumes "tx w = Auto"
  shows "case begin_tx L w of
     (Ok _, w') \<Rightarrow> w' = w\<lparr>calls := calls w + 1, tx := InTx (db w) False\<rparr>
   | (Err e, w') \<Rightarrow> w' = w\<lparr>calls := calls w + 1\<rparr>
   | (Panic, w') \<Rightarrow> False"
  using assms
  by (auto simp: begin_tx_def act_bind_def db_read_def db_query_def Let_def world_same split: option.splits)

lemma tenant_begin_outcome:
  assumes "tx w = Auto" and "tx_settings w = []"
  shows "case tenant_begin L tenant w of
     (Ok g, w') \<Rightarrow> tenant_id g = tenant \<and> tx w' = InTx (db w) False \<and> db w' = db w \<and> pg_draws w' = pg_draws w \<and>
       session_settings w' = session_settings w \<and>
       tx_settings w' = [(''app.current_tenant'', uuid_to_string L tenant, True)]
   | (Err e, w') \<Rightarrow> tx w' = Auto \<and> db w' = db w \<and> tx_settings w' = []
   | (Panic, w') \<Rightarrow> False"
proof -
  obtain r w1 where b: "begin_tx L w = (r, w1)" by (cases "begin_tx L w")
  show ?thesis
  proof (cases r)
    case (Ok x)
    then have w1: "w1 = w\<lparr>calls := calls w + 1, tx := InTx (db w) False\<rparr>"
      using begin_tx_outcome [OF assms(1), of L] b by simp
    show ?thesis
      using assms by (auto simp: tenant_begin_def act_bind_def b Ok w1 set_config_def db_read_def db_query_def Let_def
          drop_tx_def tenant_id_def split: option.splits)
  qed (use begin_tx_outcome [OF assms(1), of L] b assms in \<open>auto simp: tenant_begin_def act_bind_def\<close>)
qed

text \<open>One statement inside the guard.\<close>

fun sql_tables :: "guarded_sql \<Rightarrow> tables \<Rightarrow> nat \<Rightarrow> (sqlx_error, tables \<times> nat) res" where
  "sql_tables (OnTables texts stmt) d n = res_bind (stmt d n) (\<lambda>(_, d', n'). Ok (d', n'))"
| "sql_tables (SetConfig name value is_local) d n = Ok (d, n)"

lemma run_sql_tenant:
  assumes "guarded D w" and "tenant_set s w" and "\<not> sets_tenant sql" and "run_sql L sql w = (r, w')"
  shows "tenant_set s w'"
proof -
  have "current_setting ''app.current_tenant'' (w\<lparr>calls := c, db := d, tx := t, pg_draws := n\<rparr>) =
      current_setting ''app.current_tenant'' w" for c d t n
    by (simp add: current_setting_def split: option.split)
  with assms show ?thesis
    by (cases sql) (auto simp: tenant_set_def guarded_def in_tx_def set_config_def act_bind_def db_read_def
        db_query_def Let_def current_setting_def split: option.splits if_splits res.splits prod.splits tx_state.splits)
qed

lemma run_sql_outcome:
  assumes "guarded D w" and "run_sql L sql w = (r, w')"
  shows "guarded D w' \<and> (r = Ok () \<longrightarrow> tx w' = tx w \<and> sql_tables sql (db w) (pg_draws w) = Ok (db w', pg_draws w'))"
  using assms
  by (cases sql) (auto simp: guarded_def in_tx_def set_config_def act_bind_def db_read_def
      db_query_def Let_def split: option.splits if_splits res.splits prod.splits tx_state.splits)

text \<open>The statements run one after the other.\<close>

fun run_tables :: "guarded_sql list \<Rightarrow> tables \<Rightarrow> nat \<Rightarrow> (sqlx_error, tables \<times> nat) res" where
  "run_tables [] d n = Ok (d, n)"
| "run_tables (sql # sqls) d n = res_bind (sql_tables sql d n) (\<lambda>(d', n'). run_tables sqls d' n')"

lemma run_statements_outcome:
  assumes "guarded D w"
  shows "case run_statements L sqls w of (r, w') \<Rightarrow>
    guarded D w' \<and> (r = Ok () \<longrightarrow> tx w' = tx w \<and> run_tables sqls (db w) (pg_draws w) = Ok (db w', pg_draws w')) \<and>
    (\<forall>s. tenant_set s w \<longrightarrow> list_all (\<lambda>sql. \<not> sets_tenant sql) sqls \<longrightarrow> tenant_set s w')"
  using assms
proof (induction sqls arbitrary: w)
  case (Cons sql sqls)
  obtain r w1 where q: "run_sql L sql w = (r, w1)" by (cases "run_sql L sql w")
  note one = run_sql_outcome [OF Cons.prems q] run_sql_tenant [OF Cons.prems _ _ q]
  show ?case
  proof (cases r)
    case (Ok x)
    with one Cons.IH [of w1] show ?thesis by (auto simp: act_bind_def q split: prod.splits)
  qed (use one in \<open>auto simp: act_bind_def q\<close>)
qed simp

lemma commit_guarded:
  assumes "guarded D w"
  shows "case tenant_commit L w of (r, w') \<Rightarrow>
    tx w' = Auto \<and> tx_settings w' = [] \<and> db w' = (if r = Ok () \<and> \<not> is_aborted (tx w) then db w else D) \<and> r \<noteq> Panic"
  using assms
  by (auto simp: tenant_commit_def commit_def Let_def guarded_def in_tx_def drop_tx_def split: option.splits)


section \<open>Properties\<close>

text \<open>Work for a tenant is all or nothing and leaves no trace of the tenant on the connection.
  Before and after, the connection has no transaction and no tenant; if the work succeeds, the
  tables are the result of all its statements in order, and if anything fails (the begin, the
  setting, a statement or the commit), they are as before.\<close>

theorem tenant_work_atomic:
  assumes "tx w = Auto" and "tx_settings w = []"
  shows "case tenant_work L tenant stmts w of (r, w') \<Rightarrow>
    tx w' = Auto \<and> tx_settings w' = [] \<and>
    (if r = Ok () then \<exists>n. run_tables stmts (db w) (pg_draws w) = Ok (db w', n) else db w' = db w)"
proof -
  obtain b w1 where b: "tenant_begin L tenant w = (b, w1)" by (cases "tenant_begin L tenant w")
  note begun = tenant_begin_outcome [OF assms, where L = L and tenant = tenant]
  show ?thesis
  proof (cases b)
    case (Ok g)
    then have w1: "tx w1 = InTx (db w) False" "db w1 = db w" "pg_draws w1 = pg_draws w"
      "guarded (db w) w1"
      using begun b by (simp_all add: guarded_def)
    obtain r w2 where run: "run_statements L stmts w1 = (r, w2)" by (cases "run_statements L stmts w1")
    have w2: "guarded (db w) w2"
      "r = Ok () \<Longrightarrow> \<not> is_aborted (tx w2) \<and> run_tables stmts (db w) (pg_draws w) = Ok (db w2, pg_draws w2)"
      using run_statements_outcome [OF w1(4), where L = L and sqls = stmts] run w1(1,2,3) by auto
    show ?thesis
    proof (cases "r = Ok ()")
      case True
      obtain c w3 where c: "tenant_commit L w2 = (c, w3)" by (cases "tenant_commit L w2")
      have "tx w3 = Auto" "tx_settings w3 = []" "db w3 = (if c = Ok () then db w2 else db w)"
        using commit_guarded [OF w2(1), of L] w2(2) [OF True] c by simp_all
      then show ?thesis
        using w2(2) [OF True] by (simp add: tenant_work_def act_bind_def b Ok run True c drop_tx_def)
    next
      case False
      have "drop_tx w2 = w2\<lparr>db := db w, tx := Auto, tx_settings := []\<rparr>"
        using w2(1) by (intro drop_tx_in_tx) (simp add: guarded_def)
      with False show ?thesis
        by (cases r) (simp_all add: tenant_work_def act_bind_def b Ok run)
    qed
  qed (use begun b in \<open>auto simp: tenant_work_def act_bind_def\<close>)
qed


text \<open>A connection on which the statements can be evaluated, and the numerals as identifiers.\<close>

definition demo_connection :: "(unit, unit) world" where
  "demo_connection =
     \<lparr> db = empty_tables, tx = Auto, session_settings = Map.empty, tx_settings = [], calls = 0, pg_draws = 0, w_draws = 0, grace_cache = (),
       totp_replay_cache = () \<rparr>"

definition demo_statement :: "unit statement" where
  "demo_statement d n = Ok ((), d\<lparr>login_attempts := []\<rparr>, n + 1)"




lemma demo_connection_simps [simp]:
  "tx demo_connection = Auto" "session_settings demo_connection = Map.empty" "tx_settings demo_connection = []" "db demo_connection = empty_tables" "pg_draws demo_connection = 0"
  by (simp_all add: demo_connection_def)

theorem tenant_work_atomic_witness:
  "case tenant_work ref_lib 5 [OnTables [] demo_statement, OnTables [[CHR 0x00]] demo_statement] demo_connection of (r, w') \<Rightarrow>
     tx w' = Auto \<and> tx_settings w' = []"
  using tenant_work_atomic [where w = demo_connection and L = ref_lib and tenant = 5 and
      stmts = "[OnTables [] demo_statement, OnTables [[CHR 0x00]] demo_statement]"]
  by (simp split: prod.splits)


end
