(* ===== verification/Dpop.thy ===== *)
theory Dpop
  imports Token Cache
begin

text \<open>
  \<open>dpop.rs\<close> and \<open>state.rs\<close>: validation of a DPoP proof (RFC 9449, section 4.3). The two caches
  and the number of random draws made so far are the state \<open>caches\<close>; \<open>validate_dpop_proof\<close> is
  an action on it, at one reading \<open>now\<close> of the clock. The caches of moka and the Unix time are
  read from the same clock.
\<close>

section \<open>Data\<close>

definition MAX_PROOF_LEN :: nat where
  "MAX_PROOF_LEN = 8192"

record dpop_claims =
  htm :: string
  htu :: string
  iat :: u64
  jti :: string
  nonce :: "string option"
  ath :: "string option"

record validated_proof =
  vp_jwk :: jwk
  vp_claims :: dpop_claims
  vp_thumbprint :: string

text \<open>The \<open>Debug\<close> rendering shows at most eight bytes of the thumbprint; the slice panics when
  it would cut a character.\<close>

definition masked_jkt :: "validated_proof \<Rightarrow> ('e, string) res" where
  "masked_jkt vp =
     (if 8 < length (vp_thumbprint vp)
      then if is_char_boundary (vp_thumbprint vp) 8
           then Ok (take 8 (vp_thumbprint vp) @ ''...'') else Panic
      else Ok ''***'')"

record validation_context =
  proof_jwt :: string
  expected_htm :: string
  expected_htu :: string
  access_token :: "string option"
  ctx_nonce_required :: bool
  ctx_clock_skew :: duration
  ctx_allowed_algs :: "algorithm list"

record 'c caches =
  jti_cache :: 'c
  nonce_cache :: 'c
  draws :: nat

text \<open>The derived \<open>Deserialize\<close> of \<open>DpopClaims\<close>: \<open>nonce\<close> and \<open>ath\<close> may be absent or null, other
  members are ignored.\<close>

definition de_option_string :: "string \<Rightarrow> members \<Rightarrow> string + string option" where
  "de_option_string k m =
     (case filter (\<lambda>(k', _). k' = k) m of
        [] \<Rightarrow> Inr None
      | [(_, v)] \<Rightarrow> (case v of JNull \<Rightarrow> Inr None | _ \<Rightarrow> sum_bind (de_string v) (\<lambda>s. Inr (Some s)))
      | _ \<Rightarrow> Inl (duplicate_field k))"

definition dpop_claims_from_members :: "members \<Rightarrow> string + dpop_claims" where
  "dpop_claims_from_members m =
     sum_bind (de_field de_string ''htm'' m) (\<lambda>hm.
     sum_bind (de_field de_string ''htu'' m) (\<lambda>hu.
     sum_bind (de_field de_u64 ''iat'' m) (\<lambda>ia.
     sum_bind (de_field de_string ''jti'' m) (\<lambda>ji.
     sum_bind (de_option_string ''nonce'' m) (\<lambda>no.
     sum_bind (de_option_string ''ath'' m) (\<lambda>at'.
     Inr \<lparr> htm = hm, htu = hu, iat = ia, jti = ji, nonce = no, ath = at' \<rparr>))))))"

section \<open>The checks\<close>

definition normalize_htu :: "lib \<Rightarrow> string \<Rightarrow> (dpop_error, string) res" where
  "normalize_htu L raw =
     res_bind (ok_or HtuMismatch (url_parse L raw)) (\<lambda>url.
     Ok (scheme url @ ''://'' @
         (case host_str url of Some host \<Rightarrow> host | None \<Rightarrow> []) @
         (case port url of Some p \<Rightarrow> '':'' @ digits_of p | None \<Rightarrow> []) @
         url_path url))"

text \<open>\<open>split('.').next()\<close> has a first piece always, so the error branch of the source is the
  case of an empty list here.\<close>

definition reject_private_header_jwk :: "lib \<Rightarrow> string \<Rightarrow> (dpop_error, unit) res" where
  "reject_private_header_jwk L prf =
     res_bind (ok_or (InvalidSignature ''malformed proof'')
        (case split_on CHR ''.'' prf of [] \<Rightarrow> None | p # _ \<Rightarrow> Some p)) (\<lambda>header_b64.
     res_bind (ok_or (InvalidSignature ''invalid header encoding'') (base64url_decode L header_b64)) (\<lambda>bytes.
     res_bind (ok_or (InvalidSignature ''invalid header json'') (json_from_slice L bytes)) (\<lambda>header.
     case Option.bind (json_get header ''jwk'') as_object of
       Some ms \<Rightarrow>
         if contains_key ms ''d'' \<or> contains_key ms ''k''
         then Err (InvalidSignature ''jwk must not contain private key material'')
         else Ok ()
     | None \<Rightarrow> Ok ())))"

definition is_private_op :: "key_operations \<Rightarrow> bool" where
  "is_private_op op = (case op of Sign \<Rightarrow> True | Decrypt \<Rightarrow> True | UnwrapKey \<Rightarrow> True | _ \<Rightarrow> False)"

definition ensure_public_jwk :: "jwk \<Rightarrow> (dpop_error, unit) res" where
  "ensure_public_jwk k =
     (case jwk_algorithm k of
        OctetKey _ \<Rightarrow> Err (InvalidSignature ''jwk must not be a symmetric key'')
      | _ \<Rightarrow>
        (case key_operations k of
           Some ops \<Rightarrow>
             if \<exists>op\<in>set ops. is_private_op op
             then Err (InvalidSignature ''jwk must not declare private key_ops'')
             else Ok ()
         | None \<Rightarrow> Ok ()))"

definition proof_validation :: "lib \<Rightarrow> algorithm \<Rightarrow> validation" where
  "proof_validation L a =
     (validation_new L a)\<lparr> validate_exp := False, validate_aud := False, required_spec_claims := [] \<rparr>"

definition in_window :: "u64 \<Rightarrow> u64 \<Rightarrow> u64 \<Rightarrow> bool" where
  "in_window issued now window \<longleftrightarrow>
     saturating_sub issued window \<le> now \<and> now \<le> saturating_add issued window"

section \<open>Validation\<close>

text \<open>The signature and the claims, from the text of the proof up to the comparison of the
  target URI: the part of \<open>validate_dpop_proof\<close> that touches no cache.\<close>

definition check_header :: "lib \<Rightarrow> validation_context \<Rightarrow> (dpop_error, jwt_header \<times> jwk) res" where
  "check_header L ctx =
     (if MAX_PROOF_LEN < length (proof_jwt ctx)
      then Err (InvalidSignature ''proof too large (max 8KB)'')
      else
      res_bind (reject_private_header_jwk L (proof_jwt ctx)) (\<lambda>_.
      res_bind (map_err InvalidSignature (of_sum (decode_header L (proof_jwt ctx)))) (\<lambda>header.
      if header_typ header \<noteq> Some ''dpop+jwt''
      then Err (InvalidTyp (case header_typ header of Some t \<Rightarrow> t | None \<Rightarrow> []))
      else if alg header \<notin> set (ctx_allowed_algs ctx)
      then Err (InvalidAlgorithm (algorithm_debug (alg header) @ '' not allowed''))
      else
      res_bind (ok_or (InvalidSignature ''jwk missing in header'') (jwk_member header)) (\<lambda>k.
      res_bind (ensure_public_jwk k) (\<lambda>_.
      Ok (header, k))))))"

definition check_proof :: "lib \<Rightarrow> instant \<Rightarrow> validation_context \<Rightarrow> (dpop_error, validated_proof) res" where
  "check_proof L now_ns ctx =
     res_bind (check_header L ctx) (\<lambda>(header, k).
     res_bind (compute_jwk_thumbprint L k) (\<lambda>thumbprint.
     res_bind (map_err InvalidSignature (of_sum (decoding_key_from_jwk L k))) (\<lambda>key.
     res_bind (map_err jwt_error_to_dpop
        (of_sum (decode_as L (as_secs now_ns) dpop_claims_from_members (proof_jwt ctx) key
                   (proof_validation L (alg header))))) (\<lambda>claims.
     if \<not> in_window (iat claims) (as_secs now_ns) (as_secs (ctx_clock_skew ctx)) then Err Expired
     else if htm claims \<noteq> expected_htm ctx then Err (HtmMismatch (expected_htm ctx) (htm claims))
     else
     res_bind (normalize_htu L (htu claims)) (\<lambda>got.
     res_bind (normalize_htu L (expected_htu ctx)) (\<lambda>expected.
     if got \<noteq> expected then Err HtuMismatch
     else Ok \<lparr> vp_jwk = k, vp_claims = claims, vp_thumbprint = thumbprint \<rparr>))))))"

text \<open>The nonce check, which hands out a fresh nonce when it fails.\<close>

definition check_nonce ::
    "lib \<Rightarrow> ('c, string, bool) cache_ops \<Rightarrow> instant \<Rightarrow> validation_context \<Rightarrow> dpop_claims \<Rightarrow>
     ('c caches, dpop_error, unit) act" where
  "check_nonce L M now ctx claims s =
     (if ctx_nonce_required ctx \<or> nonce claims \<noteq> None then
        let is_valid = (case nonce claims of Some n \<Rightarrow> cache_contains M now n (nonce_cache s) | None \<Rightarrow> False)
        in if \<not> is_valid then
             let new_nonce = uuid_to_string L (new_v4 L (draws s));
                 s' = s\<lparr>nonce_cache := cache_insert M now new_nonce True (nonce_cache s),
                        draws := draws s + 1\<rparr>
             in (Err (if access_token ctx \<noteq> None then ResourceNonceRequired new_nonce
                      else TokenNonceRequired new_nonce), s')
           else (Ok (), s)
      else (Ok (), s))"

definition check_ath :: "lib \<Rightarrow> validation_context \<Rightarrow> dpop_claims \<Rightarrow> (dpop_error, unit) res" where
  "check_ath L ctx claims =
     (case access_token ctx of
        Some token \<Rightarrow>
          (case ath claims of
             None \<Rightarrow> Err (InvalidSignature ''missing ath claim in resource proof'')
           | Some provided_ath \<Rightarrow>
               if \<not> ct_eq L provided_ath (compute_ath L token)
               then Err (InvalidSignature ''ath mismatch'')
               else Ok ())
      | None \<Rightarrow> Ok ())"

definition check_replay ::
    "('c, string, bool) cache_ops \<Rightarrow> instant \<Rightarrow> string \<Rightarrow> ('c caches, dpop_error, unit) act" where
  "check_replay M now j s =
     (let (is_fresh, cache') = cache_or_insert M now j True (jti_cache s);
          s' = s\<lparr>jti_cache := cache'\<rparr>
      in if \<not> is_fresh then (Err JtiReplay, s') else (Ok (), s'))"

definition validate_dpop_proof ::
    "lib \<Rightarrow> ('c, string, bool) cache_ops \<Rightarrow> instant \<Rightarrow> validation_context \<Rightarrow>
     ('c caches, dpop_error, validated_proof) act" where
  "validate_dpop_proof L M now ctx =
     act_bind (act_lift (check_proof L now ctx)) (\<lambda>vp.
     act_bind (check_nonce L M now ctx (vp_claims vp)) (\<lambda>_.
     act_bind (act_lift (check_ath L ctx (vp_claims vp))) (\<lambda>_.
     act_bind (check_replay M now (jti (vp_claims vp))) (\<lambda>_.
     act_return vp))))"

section \<open>The shared state\<close>

record 'c dpop_state =
  config :: dpop_config
  state_caches :: "'c caches"

text \<open>\<open>Duration * 2 + Duration\<close> panics when it leaves the range of a duration.\<close>

definition dpop_state_new ::
    "('c, string, bool) cache_ops \<Rightarrow> nat \<Rightarrow> dpop_config \<Rightarrow> ('e, 'c dpop_state) res" where
  "dpop_state_new M first_draw cfg =
     (let jti_ttl = clock_skew cfg * 2 + from_secs 5
      in if duration_max < jti_ttl then Panic
         else Ok \<lparr> config = cfg,
                   state_caches = \<lparr> jti_cache = create_jti_cache M jti_ttl,
                                    nonce_cache = create_nonce_cache M,
                                    draws = first_draw \<rparr> \<rparr>)"

definition config_from_ref :: "'c dpop_state \<Rightarrow> dpop_config" where
  "config_from_ref st = config st"

section \<open>What a valid proof is\<close>

text \<open>The requirements of RFC 9449, section 4.3, on the proof itself, read off the request: the
  freshness window is stated over the integers.\<close>

definition public_key :: "jwk \<Rightarrow> bool" where
  "public_key k \<longleftrightarrow>
     (case jwk_algorithm k of OctetKey _ \<Rightarrow> False | _ \<Rightarrow> True) \<and>
     (case key_operations k of None \<Rightarrow> True | Some ops \<Rightarrow> list_all (\<lambda>op. \<not> is_private_op op) ops)"

definition fresh_at :: "u64 \<Rightarrow> u64 \<Rightarrow> u64 \<Rightarrow> bool" where
  "fresh_at issued now window \<longleftrightarrow>
     unat issued \<le> unat now + unat window \<and> unat now \<le> unat issued + unat window"

definition signed_by :: "lib \<Rightarrow> u64 \<Rightarrow> validation_context \<Rightarrow> validated_proof \<Rightarrow> bool" where
  "signed_by L now ctx vp \<longleftrightarrow>
     (\<exists>h key. decode_header L (proof_jwt ctx) = Inr h \<and> header_typ h = Some ''dpop+jwt'' \<and>
        alg h \<in> set (ctx_allowed_algs ctx) \<and> jwk_member h = Some (vp_jwk vp) \<and>
        decoding_key_from_jwk L (vp_jwk vp) = Inr key \<and>
        decode_as L now dpop_claims_from_members (proof_jwt ctx) key (proof_validation L (alg h)) =
          Inr (vp_claims vp))"

definition same_target :: "lib \<Rightarrow> string \<Rightarrow> string \<Rightarrow> bool" where
  "same_target L u v \<longleftrightarrow> (\<exists>n. normalize_htu L u = Ok n \<and> normalize_htu L v = Ok n)"

definition rfc9449_proof :: "lib \<Rightarrow> instant \<Rightarrow> validation_context \<Rightarrow> validated_proof \<Rightarrow> bool" where
  "rfc9449_proof L now ctx vp \<longleftrightarrow>
     length (proof_jwt ctx) \<le> 8192 \<and>
     reject_private_header_jwk L (proof_jwt ctx) = Ok () \<and>
     signed_by L (as_secs now) ctx vp \<and>
     public_key (vp_jwk vp) \<and>
     jwk_thumbprint L (vp_jwk vp) = Some (vp_thumbprint vp) \<and>
     fresh_at (iat (vp_claims vp)) (as_secs now) (as_secs (ctx_clock_skew ctx)) \<and>
     htm (vp_claims vp) = expected_htm ctx \<and>
     same_target L (htu (vp_claims vp)) (expected_htu ctx)"

definition bound_to_token :: "lib \<Rightarrow> validation_context \<Rightarrow> dpop_claims \<Rightarrow> bool" where
  "bound_to_token L ctx claims \<longleftrightarrow>
     (case access_token ctx of None \<Rightarrow> True | Some token \<Rightarrow> ath claims = Some (compute_ath L token))"

definition nonce_accepted ::
    "('c, string, bool) cache_ops \<Rightarrow> instant \<Rightarrow> validation_context \<Rightarrow> dpop_claims \<Rightarrow> 'c \<Rightarrow> bool" where
  "nonce_accepted M now ctx claims cache \<longleftrightarrow>
     (case nonce claims of Some n \<Rightarrow> cache_contains M now n cache | None \<Rightarrow> \<not> ctx_nonce_required ctx)"

section \<open>Lemmas\<close>

lemma in_window_iff: "in_window issued now window \<longleftrightarrow> fresh_at issued now window"
  using unat_u64_bound [of now]
  by (auto simp: in_window_def fresh_at_def word_le_nat_alt unat_saturating_add unat_saturating_sub)

lemma ensure_public_jwk_Ok_iff: "ensure_public_jwk k = Ok u \<longleftrightarrow> public_key k"
  by (auto simp: ensure_public_jwk_def public_key_def list_all_iff
      split: algorithm_parameters.splits option.splits)

lemma check_header_Ok_iff:
  "check_header L ctx = Ok (h, k) \<longleftrightarrow>
     length (proof_jwt ctx) \<le> 8192 \<and> reject_private_header_jwk L (proof_jwt ctx) = Ok () \<and>
     decode_header L (proof_jwt ctx) = Inr h \<and> header_typ h = Some ''dpop+jwt'' \<and>
     alg h \<in> set (ctx_allowed_algs ctx) \<and> jwk_member h = Some k \<and> public_key k"
  by (auto simp: check_header_def res_bind_Ok_iff MAX_PROOF_LEN_def ensure_public_jwk_Ok_iff
      split: if_splits)

lemma check_proof_Ok_iff: "check_proof L now ctx = Ok vp \<longleftrightarrow> rfc9449_proof L now ctx vp"
proof -
  have "check_proof L now ctx = Ok vp \<longleftrightarrow>
    (\<exists>h k key. check_header L ctx = Ok (h, k) \<and> jwk_thumbprint L k = Some (vp_thumbprint vp) \<and>
      decoding_key_from_jwk L k = Inr key \<and> vp_jwk vp = k \<and>
      decode_as L (as_secs now) dpop_claims_from_members (proof_jwt ctx) key
        (proof_validation L (alg h)) = Inr (vp_claims vp) \<and>
      fresh_at (iat (vp_claims vp)) (as_secs now) (as_secs (ctx_clock_skew ctx)) \<and>
      htm (vp_claims vp) = expected_htm ctx \<and> same_target L (htu (vp_claims vp)) (expected_htu ctx))"
    by (cases vp) (auto simp: check_proof_def res_bind_Ok_iff compute_jwk_thumbprint_def
        in_window_iff same_target_def split: if_splits)
  then show ?thesis
    by (auto simp: check_header_Ok_iff rfc9449_proof_def signed_by_def)
qed

lemma check_proof_no_panic: "check_proof L now ctx \<noteq> Panic"
  by (auto simp: check_proof_def check_header_def compute_jwk_thumbprint_def res_bind_Panic_iff
      reject_private_header_jwk_def ensure_public_jwk_def normalize_htu_def
      split: if_splits option.splits algorithm_parameters.splits)

text \<open>No check but the nonce check answers with a challenge.\<close>

definition no_challenge :: "(dpop_error, 'a) res \<Rightarrow> bool" where
  "no_challenge r \<longleftrightarrow>
     (case r of Err (TokenNonceRequired n) \<Rightarrow> False | Err (ResourceNonceRequired n) \<Rightarrow> False | _ \<Rightarrow> True)"

lemma no_challenge_Ok [intro!]: "no_challenge (Ok a)"
  by (simp add: no_challenge_def)

lemma no_challenge_bind [intro!]:
  "no_challenge r \<Longrightarrow> (\<And>a. no_challenge (f a)) \<Longrightarrow> no_challenge (res_bind r f)"
  by (cases r) (simp_all add: no_challenge_def)

lemma no_challenge_ok_or [intro!]:
  "no_challenge (Err e :: (dpop_error, 'a) res) \<Longrightarrow> no_challenge (ok_or e x :: (dpop_error, 'a) res)"
  by (cases x) (simp_all add: no_challenge_def)

lemma no_challenge_map_err [intro!]:
  "(\<And>e. no_challenge (Err (g e) :: (dpop_error, 'a) res)) \<Longrightarrow> no_challenge (map_err g r :: (dpop_error, 'a) res)"
  by (cases r) (simp_all add: no_challenge_def)

lemma no_challenge_Err [simp]:
  "no_challenge (Err (InvalidSignature m))" "no_challenge (Err (InvalidTyp m))"
  "no_challenge (Err (InvalidAlgorithm m))" "no_challenge (Err HtuMismatch)"
  "no_challenge (Err (HtmMismatch m m'))" "no_challenge (Err Expired)"
  "no_challenge (Err (jwt_error_to_dpop e'))"
  by (simp_all add: no_challenge_def jwt_error_to_dpop_def split: error_kind.splits)

lemma check_proof_no_challenge: "no_challenge (check_proof L now ctx)"
proof -
  have "no_challenge (reject_private_header_jwk L q)" for q
    by (auto simp: reject_private_header_jwk_def split: option.splits)
  moreover have "no_challenge (ensure_public_jwk k)" for k
    by (auto simp: ensure_public_jwk_def split: option.splits algorithm_parameters.splits)
  ultimately have "no_challenge (check_header L ctx)"
    by (auto simp: check_header_def)
  moreover have "no_challenge (normalize_htu L q)" for q
    by (auto simp: normalize_htu_def)
  ultimately show ?thesis
    by (auto simp: check_proof_def compute_jwk_thumbprint_def)
qed

lemma check_ath_no_challenge: "no_challenge (check_ath L ctx c)" "check_ath L ctx c \<noteq> Panic"
  by (auto simp: check_ath_def split: option.splits)

lemma no_challengeD:
  "no_challenge r \<Longrightarrow> r \<noteq> Err (TokenNonceRequired n)" "no_challenge r \<Longrightarrow> r \<noteq> Err (ResourceNonceRequired n)"
  by (auto simp: no_challenge_def)

lemmas challenge_free =
  no_challengeD [OF check_proof_no_challenge] no_challengeD [OF check_ath_no_challenge(1)]
  check_ath_no_challenge(2) check_proof_no_panic

lemma check_ath_Ok_iff: "subtle_laws L \<Longrightarrow> check_ath L ctx c = Ok u \<longleftrightarrow> bound_to_token L ctx c"
  by (auto simp: check_ath_def bound_to_token_def subtle_laws.ct_eq_iff split: option.splits)

lemma check_nonce_Ok_iff:
  "check_nonce L M now ctx c s = (Ok u, s') \<longleftrightarrow>
     nonce_accepted M now ctx c (nonce_cache s) \<and> s' = s"
  by (auto simp: check_nonce_def nonce_accepted_def Let_def split: option.splits if_splits)

definition nonce_challenge :: "validation_context \<Rightarrow> string \<Rightarrow> dpop_error" where
  "nonce_challenge ctx n =
     (if access_token ctx \<noteq> None then ResourceNonceRequired n else TokenNonceRequired n)"

lemma check_nonce_eq:
  "check_nonce L M now ctx c s =
     (if nonce_accepted M now ctx c (nonce_cache s) then (Ok (), s)
      else let n = uuid_to_string L (new_v4 L (draws s))
           in (Err (nonce_challenge ctx n),
               s\<lparr>nonce_cache := cache_insert M now n True (nonce_cache s), draws := draws s + 1\<rparr>))"
  by (auto simp: check_nonce_def nonce_accepted_def nonce_challenge_def Let_def split: option.splits)

lemma check_replay_Ok_iff:
  "check_replay M now j s = (Ok u, s') \<longleftrightarrow>
     (\<exists>c'. cache_or_insert M now j True (jti_cache s) = (True, c') \<and> s' = s\<lparr>jti_cache := c'\<rparr>)"
  by (auto simp: check_replay_def Let_def split: prod.splits if_splits)

lemma validate_Ok_iff:
  assumes "subtle_laws L"
  shows "validate_dpop_proof L M now ctx s = (Ok vp, s') \<longleftrightarrow>
    rfc9449_proof L now ctx vp \<and> bound_to_token L ctx (vp_claims vp) \<and>
    nonce_accepted M now ctx (vp_claims vp) (nonce_cache s) \<and>
    (\<exists>c'. cache_or_insert M now (jti (vp_claims vp)) True (jti_cache s) = (True, c') \<and>
          s' = s\<lparr>jti_cache := c'\<rparr>)"
  by (auto simp: validate_dpop_proof_def act_bind_Ok_iff check_proof_Ok_iff check_nonce_Ok_iff
      check_ath_Ok_iff [OF assms] check_replay_Ok_iff)

text \<open>The stages of a validation.\<close>

lemma validate_stages:
  assumes "moka M entries ttl capacity"
  shows "validate_dpop_proof L M now ctx s =
    (case check_proof L now ctx of
       Panic \<Rightarrow> (Panic, s) | Err e \<Rightarrow> (Err e, s)
     | Ok vp \<Rightarrow>
         let c = vp_claims vp; n = uuid_to_string L (new_v4 L (draws s)) in
         if \<not> nonce_accepted M now ctx c (nonce_cache s)
         then (Err (nonce_challenge ctx n),
               s\<lparr>nonce_cache := cache_insert M now n True (nonce_cache s), draws := draws s + 1\<rparr>)
         else (case check_ath L ctx c of
             Panic \<Rightarrow> (Panic, s) | Err e \<Rightarrow> (Err e, s)
           | Ok _ \<Rightarrow>
               if cache_get M now (jti c) (jti_cache s) = None
               then (Ok vp, s\<lparr>jti_cache := cache_insert M now (jti c) True (jti_cache s)\<rparr>)
               else (Err JtiReplay, s)))"
  by (simp add: validate_dpop_proof_def act_bind_def check_nonce_eq check_replay_def
      moka.or_insert [OF assms] Let_def split: res.splits)

lemma validate_no_panic:
  "moka M entries ttl capacity \<Longrightarrow> fst (validate_dpop_proof L M now ctx s) \<noteq> Panic"
  by (auto simp: validate_stages challenge_free Let_def split: res.splits)

section \<open>Concrete proofs\<close>

text \<open>A proof made with the reference library, and when it is valid.\<close>

definition ref_proof :: "jwk \<Rightarrow> members \<Rightarrow> string" where
  "ref_proof k m =
     piece (put_json (header_json \<lparr> header_typ = Some ''dpop+jwt'', alg = ES256, jwk_member = Some k \<rparr>)) @
     ''.'' @ piece (put_json (JObj m)) @ ''.'' @
     piece (case jwk_algorithm k of EllipticCurve s \<Rightarrow> s | RSA s \<Rightarrow> s | OctetKey s \<Rightarrow> s | OctetKeyPair s \<Rightarrow> s)"

lemma ref_proof_parts:
  "ref_jwt_parts (ref_proof k m) =
     Some (\<lparr> header_typ = Some ''dpop+jwt'', alg = ES256, jwk_member = Some k \<rparr>, m,
       case jwk_algorithm k of EllipticCurve s \<Rightarrow> s | RSA s \<Rightarrow> s | OctetKey s \<Rightarrow> s | OctetKeyPair s \<Rightarrow> s)"
  by (rule ref_jwt_parts_encode) (simp add: ref_proof_def)

lemma ref_proof_no_private: "reject_private_header_jwk ref_lib (ref_proof k m) = Ok ()"
proof -
  have "split_on CHR ''.'' (ref_proof k m) =
    [piece (put_json (header_json \<lparr> header_typ = Some ''dpop+jwt'', alg = ES256, jwk_member = Some k \<rparr>)),
     piece (put_json (JObj m)),
     piece (case jwk_algorithm k of EllipticCurve s \<Rightarrow> s | RSA s \<Rightarrow> s | OctetKey s \<Rightarrow> s | OctetKeyPair s \<Rightarrow> s)]"
    unfolding ref_proof_def by (rule split_pieces)
  then show ?thesis
    by (cases "jwk_algorithm k"; cases "key_operations k")
      (simp_all add: reject_private_header_jwk_def piece_def base64url_round_trip json_round_trip
        header_json_def jwk_json_def contains_key_def del: put_json.simps)
qed

lemma ref_proof_valid:
  assumes "proof_jwt ctx = ref_proof k m" and "length (ref_proof k m) \<le> 8192" and "public_key k"
    and "ES256 \<in> set (ctx_allowed_algs ctx)" and "dpop_claims_from_members m = Inr c"
    and "fresh_at (iat c) (as_secs now) (as_secs (ctx_clock_skew ctx))"
    and "htm c = expected_htm ctx" and "same_target ref_lib (htu c) (expected_htu ctx)"
  shows "rfc9449_proof ref_lib now ctx
           \<lparr> vp_jwk = k, vp_claims = c, vp_thumbprint = the (ref_jwk_thumbprint k) \<rparr>"
proof -
  have "jwk_thumbprint ref_lib k = Some (the (ref_jwk_thumbprint k))"
    by (simp add: ref_jwk_thumbprint_def)
  moreover have "signed_by ref_lib (as_secs now) ctx
       \<lparr> vp_jwk = k, vp_claims = c, vp_thumbprint = the (ref_jwk_thumbprint k) \<rparr>"
    using assms(1,4,5)
    by (simp add: signed_by_def ref_decode_header_def ref_proof_parts ref_decoding_key_from_jwk_def
        decode_as_def de_error_def proof_validation_def exp_ok_def iss_ok_def aud_ok_def)
  ultimately show ?thesis
    using assms ref_proof_no_private by (simp add: rfc9449_proof_def)
qed

definition demo_jwk :: jwk where
  "demo_jwk = \<lparr> key_operations = Some [Verify], jwk_algorithm = EllipticCurve ''key'' \<rparr>"

definition demo_claims :: "string option \<Rightarrow> dpop_claims" where
  "demo_claims n =
     \<lparr> htm = ''POST'', htu = ''https://api.test/refresh'', iat = 1000, jti = ''j1'', nonce = n, ath = None \<rparr>"

definition demo_members :: "string option \<Rightarrow> members" where
  "demo_members n =
     [(''htm'', JStr ''POST''), (''htu'', JStr ''https://api.test/refresh''), (''iat'', JNum 1000),
      (''jti'', JStr ''j1'')] @ (case n of None \<Rightarrow> [] | Some v \<Rightarrow> [(''nonce'', JStr v)])"

definition demo_ctx :: "bool \<Rightarrow> string option \<Rightarrow> validation_context" where
  "demo_ctx required n =
     \<lparr> proof_jwt = ref_proof demo_jwk (demo_members n), expected_htm = ''POST'',
       expected_htu = ''https://API.test/refresh?x=1'', access_token = None,
       ctx_nonce_required = required, ctx_clock_skew = from_secs 60, ctx_allowed_algs = [ES256] \<rparr>"

definition demo_proof :: "string option \<Rightarrow> validated_proof" where
  "demo_proof n =
     \<lparr> vp_jwk = demo_jwk, vp_claims = demo_claims n, vp_thumbprint = the (ref_jwk_thumbprint demo_jwk) \<rparr>"

lemma demo_same_target:
  "same_target ref_lib ''https://api.test/refresh'' ''https://API.test/refresh?x=1''"
proof -
  have "map ascii_lower ''API.test'' = ''api.test''" "map ascii_lower ''api.test'' = ''api.test''"
    by code_simp+
  then show ?thesis
    by (simp add: same_target_def normalize_htu_def ref_url_parse_def strip_prefix_def ref_url_def
        take_until_def Let_def)
qed

lemma length_put_str [simp]: "length (put_str s) = 2 * length s + 1"
  by (induction s) simp_all

lemma demo_length: "length v \<le> 100 \<Longrightarrow> n = None \<or> n = Some v \<Longrightarrow> length (ref_proof demo_jwk (demo_members n)) \<le> 8192"
proof -
  assume v: "length v \<le> 100" "n = None \<or> n = Some v"
  have "length (put_bits 1000) = 10" by code_simp
  with v have "length (put_json (JObj (demo_members n))) \<le> 1000"
    by (auto simp: demo_members_def put_int_def)
  then have "length (piece (put_json (JObj (demo_members n)))) \<le> 2000"
    unfolding piece_def ref_base64url_length by linarith
  moreover have "length (put_json (header_json \<lparr>header_typ = Some ''dpop+jwt'', alg = ES256, jwk_member = Some demo_jwk\<rparr>)) \<le> 500"
    by (simp add: header_json_def demo_jwk_def jwk_json_def)
  then have "length (piece (put_json (header_json \<lparr>header_typ = Some ''dpop+jwt'', alg = ES256, jwk_member = Some demo_jwk\<rparr>))) \<le> 1000"
    unfolding piece_def ref_base64url_length by linarith
  moreover have "length (piece ''key'') = 4" by (simp add: piece_def ref_base64url_length)
  ultimately show ?thesis by (simp add: ref_proof_def demo_jwk_def del: put_json.simps)
qed

lemma demo_valid:
  assumes "length v \<le> 100" and "n = None \<or> n = Some v"
    and "from_secs 940 \<le> now" and "now \<le> from_secs 1060"
  shows "rfc9449_proof ref_lib now (demo_ctx r n) (demo_proof n)"
proof -
  have "dpop_claims_from_members (demo_members n) = Inr (demo_claims n)"
    by (cases n) (simp_all add: dpop_claims_from_members_def demo_members_def demo_claims_def
        de_field_def de_option_string_def)
  moreover have "public_key demo_jwk" by (simp add: public_key_def demo_jwk_def is_private_op_def)
  moreover have "940 \<le> now div NANOS_PER_SEC" "now div NANOS_PER_SEC \<le> 1060"
    using assms(3,4) by (auto simp: from_secs_def NANOS_PER_SEC_def)
  then have "fresh_at 1000 (as_secs now) (as_secs (from_secs 60))"
    using unat_as_secs [of now] assms(4) as_secs_from_secs [of 60]
    by (simp add: fresh_at_def duration_max_def from_secs_def NANOS_PER_SEC_def)
  ultimately show ?thesis
    unfolding demo_proof_def using demo_length [OF assms(1,2)] demo_same_target
    by (intro ref_proof_valid [where m = "demo_members n"])
      (simp_all add: demo_ctx_def demo_claims_def)
qed

section \<open>Properties\<close>

text \<open>C3. A proof is accepted exactly when it satisfies RFC 9449, section 4.3: it has at most 8192
  bytes, its header shows no private key material, the signature and the claims verify under
  the public key in the header with an accepted algorithm and the type \<open>dpop+jwt\<close>, the issue time
  is within the tolerated skew in both directions (with no effect of saturation), method and
  normalised target are those of the request, the access token, if there is one, is the one the
  proof names, the nonce is one the server issued, and the identifier \<open>jti\<close> is not remembered.
  Acceptance remembers the identifier and changes nothing else.\<close>

theorem validate_accepts_iff:
  assumes "subtle_laws L" and "moka M entries ttl capacity"
  shows "validate_dpop_proof L M now ctx s = (Ok vp, s') \<longleftrightarrow>
    rfc9449_proof L now ctx vp \<and> bound_to_token L ctx (vp_claims vp) \<and>
    nonce_accepted M now ctx (vp_claims vp) (nonce_cache s) \<and>
    cache_get M now (jti (vp_claims vp)) (jti_cache s) = None \<and>
    s' = s\<lparr>jti_cache := cache_insert M now (jti (vp_claims vp)) True (jti_cache s)\<rparr>"
  by (auto simp: validate_Ok_iff [OF assms(1)] moka.or_insert [OF assms(2)])

definition demo_caches :: "(string, bool) ref_cache caches" where
  "demo_caches =
     \<lparr> jti_cache = create_jti_cache ref_ops (from_secs 125), nonce_cache = create_nonce_cache ref_ops,
       draws = 0 \<rparr>"

lemma demo_caches_simps:
  "cache_get ref_ops now k (jti_cache demo_caches) = None"
  "cache_get ref_ops now k (nonce_cache demo_caches) = None"
  by (simp_all add: demo_caches_def create_jti_cache_def create_nonce_cache_def ref_cache.get_build)

theorem validate_accepts_iff_witness:
  "subtle_laws ref_lib \<and> moka ref_ops ref_lookup ref_ttl ref_capacity \<and>
   validate_dpop_proof ref_lib ref_ops (from_secs 1010) (demo_ctx False None) demo_caches =
     (Ok (demo_proof None),
      demo_caches\<lparr>jti_cache := cache_insert ref_ops (from_secs 1010) ''j1'' True (jti_cache demo_caches)\<rparr>)"
proof -
  have "rfc9449_proof ref_lib (from_secs 1010) (demo_ctx False None) (demo_proof None)"
    using demo_valid [of "[]" None "from_secs 1010" False] by (simp add: from_secs_def)
  moreover have "bound_to_token ref_lib (demo_ctx False None) (vp_claims (demo_proof None))"
    "nonce_accepted ref_ops (from_secs 1010) (demo_ctx False None) (vp_claims (demo_proof None)) (nonce_cache demo_caches)"
    "jti (vp_claims (demo_proof None)) = ''j1''"
    by (simp_all add: bound_to_token_def demo_ctx_def nonce_accepted_def demo_proof_def demo_claims_def)
  ultimately show ?thesis
    using validate_accepts_iff [OF ref_subtle.subtle_laws_axioms ref_cache.moka_axioms,
        of "from_secs 1010" "demo_ctx False None" demo_caches "demo_proof None"]
      ref_subtle.subtle_laws_axioms ref_cache.moka_axioms
    by (auto simp: demo_caches_simps)
qed

text \<open>C29. A proof that is not accepted is an error, never a panic, and consumes no slot of the
  replay cache; the nonce cache changes only when the answer is a nonce challenge, by the nonce
  that the challenge carries, and the challenge is the one for a protected resource exactly when
  the request came with an access token.\<close>

theorem rejected_proof_effects:
  assumes "moka M entries ttl capacity"
  shows "case validate_dpop_proof L M now ctx s of
      (Ok vp, s') \<Rightarrow> nonce_cache s' = nonce_cache s \<and> draws s' = draws s
    | (Err e, s') \<Rightarrow>
        jti_cache s' = jti_cache s \<and>
        (case e of
           TokenNonceRequired n \<Rightarrow>
             access_token ctx = None \<and> n = uuid_to_string L (new_v4 L (draws s)) \<and>
             nonce_cache s' = cache_insert M now n True (nonce_cache s) \<and> draws s' = draws s + 1
         | ResourceNonceRequired n \<Rightarrow>
             access_token ctx \<noteq> None \<and> n = uuid_to_string L (new_v4 L (draws s)) \<and>
             nonce_cache s' = cache_insert M now n True (nonce_cache s) \<and> draws s' = draws s + 1
         | _ \<Rightarrow> s' = s)
    | (Panic, s') \<Rightarrow> False"
  by (auto simp: validate_stages [OF assms] nonce_challenge_def challenge_free Let_def
      split: res.splits dpop_error.splits)

lemma digits_0: "digits_of 0 = ''0''"
  by code_simp

theorem rejected_proof_effects_witness:
  "case validate_dpop_proof ref_lib ref_ops (from_secs 1010) (demo_ctx True None) demo_caches of
     (Err (TokenNonceRequired n), s') \<Rightarrow> n = ''0'' \<and> jti_cache s' = jti_cache demo_caches
   | _ \<Rightarrow> False"
proof -
  have "check_proof ref_lib (from_secs 1010) (demo_ctx True None) = Ok (demo_proof None)"
    using demo_valid [of "[]" None "from_secs 1010" True] by (simp add: check_proof_Ok_iff from_secs_def)
  then obtain n s' where v: "validate_dpop_proof ref_lib ref_ops (from_secs 1010) (demo_ctx True None) demo_caches =
      (Err (TokenNonceRequired n), s')"
    by (simp add: validate_dpop_proof_def act_bind_def check_nonce_def demo_proof_def demo_claims_def
        demo_ctx_def Let_def)
  with rejected_proof_effects [OF ref_cache.moka_axioms, where L = ref_lib and
      now = "from_secs 1010" and ctx = "demo_ctx True None" and s = demo_caches]
  show ?thesis using digits_0 by (simp add: demo_caches_def)
qed

lemma challenge_state:
  assumes "moka M entries ttl capacity" and "validate_dpop_proof L M now ctx s = (Err e, s')"
    and "e = TokenNonceRequired n \<or> e = ResourceNonceRequired n"
  shows "jti_cache s' = jti_cache s \<and> nonce_cache s' = cache_insert M now n True (nonce_cache s)"
  using assms(2,3)
  by (auto simp: validate_stages [OF assms(1)] nonce_challenge_def challenge_free Let_def
      split: res.splits if_splits)

text \<open>A nonce challenge can be answered: the client that repeats the request with a valid proof
  carrying the nonce of the challenge, within the five minutes the nonce lives and with an
  identifier that is not remembered, is accepted.\<close>

theorem nonce_challenge_answered:
  assumes "subtle_laws L" and moka: "moka M entries ttl capacity"
    and challenge: "validate_dpop_proof L M now ctx s = (Err e, s')"
      "e = TokenNonceRequired n \<or> e = ResourceNonceRequired n"
    and room: "card (dom (entries (nonce_cache s))) < capacity (nonce_cache s)"
    and life: "ttl (nonce_cache s) = NONCE_TTL" "now \<le> now'" "now' < now + NONCE_TTL"
    and retry: "rfc9449_proof L now' ctx' vp" "bound_to_token L ctx' (vp_claims vp)"
      "nonce (vp_claims vp) = Some n" "cache_get M now' (jti (vp_claims vp)) (jti_cache s) = None"
  shows "fst (validate_dpop_proof L M now' ctx' s') = Ok vp"
proof -
  have st: "jti_cache s' = jti_cache s" "nonce_cache s' = cache_insert M now n True (nonce_cache s)"
    using challenge_state [OF moka challenge] by simp_all
  have "cache_get M now' n (nonce_cache s') = Some True"
    using moka.insert_visible [OF moka room life(2), of n True] life st by simp
  then have "nonce_accepted M now' ctx' (vp_claims vp) (nonce_cache s')"
    using retry(3) by (simp add: nonce_accepted_def moka.contains_get [OF moka])
  then obtain t where "validate_dpop_proof L M now' ctx' s' = (Ok vp, t)"
    using retry st by (simp add: validate_Ok_iff [OF assms(1)] moka.or_insert [OF moka])
  then show ?thesis by simp
qed

lemma demo_retry:
  "nonce (vp_claims (demo_proof (Some ''0''))) = Some ''0'' \<and>
   bound_to_token ref_lib (demo_ctx True (Some ''0'')) (vp_claims (demo_proof (Some ''0'')))"
  by (simp add: bound_to_token_def demo_ctx_def demo_proof_def demo_claims_def)

lemma demo_challenge:
  "validate_dpop_proof ref_lib ref_ops (from_secs 1010) (demo_ctx True None) demo_caches =
     (Err (TokenNonceRequired ''0''),
      demo_caches\<lparr>nonce_cache := cache_insert ref_ops (from_secs 1010) ''0'' True (nonce_cache demo_caches),
                  draws := 1\<rparr>)"
proof -
  have "check_proof ref_lib (from_secs 1010) (demo_ctx True None) = Ok (demo_proof None)"
    using demo_valid [of "[]" None "from_secs 1010" True] by (simp add: check_proof_Ok_iff from_secs_def)
  moreover have "\<not> nonce_accepted ref_ops now (demo_ctx True None) (vp_claims (demo_proof None)) c" for now c
    by (simp add: nonce_accepted_def demo_proof_def demo_claims_def demo_ctx_def)
  moreover have "draws demo_caches = 0" by (simp add: demo_caches_def)
  ultimately show ?thesis
    using digits_0
    by (simp add: validate_stages [OF ref_cache.moka_axioms] nonce_challenge_def demo_ctx_def Let_def)
qed

theorem nonce_challenge_answered_witness:
  "fst (validate_dpop_proof ref_lib ref_ops (from_secs 1040) (demo_ctx True (Some ''0''))
     (snd (validate_dpop_proof ref_lib ref_ops (from_secs 1010) (demo_ctx True None) demo_caches))) =
   Ok (demo_proof (Some ''0''))"
proof -
  have ok: "rfc9449_proof ref_lib (from_secs 1040) (demo_ctx True (Some ''0'')) (demo_proof (Some ''0''))"
    using demo_valid [of "''0''" "Some ''0''" "from_secs 1040" True] by (simp add: from_secs_def)
  have "card (dom (ref_lookup (nonce_cache demo_caches))) < ref_capacity (nonce_cache demo_caches)"
    "ref_ttl (nonce_cache demo_caches) = NONCE_TTL"
    by (simp_all add: demo_caches_def create_nonce_cache_def ref_cache.entries_build dom_def
        ref_cache.capacity_build ref_cache.ttl_build CACHE_CAPACITY_def)
  with nonce_challenge_answered [OF ref_subtle.subtle_laws_axioms ref_cache.moka_axioms demo_challenge, of "''0''",
      OF _ _ _ _ _ ok] demo_retry
  show ?thesis unfolding demo_challenge
    by (simp add: demo_caches_simps from_secs_def NONCE_TTL_def NANOS_PER_SEC_def)
qed

section \<open>Replays\<close>

text \<open>A server that answers a sequence of requests.\<close>

fun dpop_run ::
    "lib \<Rightarrow> ('c, string, bool) cache_ops \<Rightarrow> (instant \<times> validation_context) list \<Rightarrow> 'c caches \<Rightarrow>
     (dpop_error, validated_proof) res list" where
  "dpop_run L M [] s = []"
| "dpop_run L M ((now, ctx) # reqs) s =
     (let (r, s') = validate_dpop_proof L M now ctx s in r # dpop_run L M reqs s')"

fun accepted :: "(dpop_error, validated_proof) res list \<Rightarrow> validated_proof list" where
  "accepted [] = []"
| "accepted (r # rs) = (case r of Ok vp \<Rightarrow> vp # accepted rs | _ \<Rightarrow> accepted rs)"

definition proof_id :: "validated_proof \<Rightarrow> string \<times> u64" where
  "proof_id vp = (jti (vp_claims vp), iat (vp_claims vp))"

text \<open>Two times at which a proof of the same issue time is fresh are less than the lifetime of a
  cache entry apart.\<close>

lemma window_within_ttl:
  assumes "fresh_at i (as_secs t) (as_secs skew)" and "fresh_at i (as_secs t') (as_secs skew)"
    and "t \<le> duration_max" and "t' \<le> duration_max" and "skew \<le> duration_max"
  shows "t' < t + (skew * 2 + from_secs 5)"
proof -
  have "t' div NANOS_PER_SEC \<le> t div NANOS_PER_SEC + 2 * (skew div NANOS_PER_SEC)"
    using assms by (simp add: fresh_at_def unat_as_secs)
  then show ?thesis by (simp add: from_secs_def NANOS_PER_SEC_def)
qed

lemma validate_jti_cache:
  assumes moka: "moka M entries ttl capacity" and v: "validate_dpop_proof L M now ctx s = (r, s')"
  shows "jti_cache s' = jti_cache s \<or>
      (\<exists>vp. r = Ok vp \<and> cache_get M now (jti (vp_claims vp)) (jti_cache s) = None \<and>
        jti_cache s' = cache_insert M now (jti (vp_claims vp)) True (jti_cache s))"
proof (cases "check_proof L now ctx")
  case (Ok vp)
  with v show ?thesis
    by (cases "check_ath L ctx (vp_claims vp)")
      (auto simp: validate_stages [OF moka] Let_def split: if_splits, metis option.distinct(1))
qed (use v in \<open>auto simp: validate_stages [OF moka]\<close>)

lemma run_cannot_repeat:
  assumes laws: "subtle_laws L" and moka: "moka M entries ttl capacity"
  assumes "sorted (map fst reqs)"
    and "\<forall>(now, ctx)\<in>set reqs. now \<le> duration_max \<and> ctx_clock_skew ctx = skew"
    and "card (dom (entries (jti_cache s))) + length reqs \<le> capacity (jti_cache s)"
    and "ttl (jti_cache s) = skew * 2 + from_secs 5"
    and "skew \<le> duration_max" and "t \<le> duration_max" and "fresh_at i (as_secs t) (as_secs skew)"
    and "entries (jti_cache s) k = Some (t, v) \<or> (\<forall>now\<in>set (map fst reqs). t + ttl (jti_cache s) \<le> now)"
  shows "(k, i) \<notin> proof_id ` set (accepted (dpop_run L M reqs s))"
  using assms(3-)
proof (induction reqs arbitrary: s)
  case (Cons req reqs)
  obtain now ctx where req: "req = (now, ctx)" by (cases req)
  obtain r s' where v: "validate_dpop_proof L M now ctx s = (r, s')"
    by (cases "validate_dpop_proof L M now ctx s")
  note eff = validate_jti_cache [OF moka v]
  then have ttl: "ttl (jti_cache s') = ttl (jti_cache s)" "capacity (jti_cache s') = capacity (jti_cache s)"
    and card: "card (dom (entries (jti_cache s'))) \<le> Suc (card (dom (entries (jti_cache s))))"
    using moka.insert_ttl [OF moka] moka.insert_capacity [OF moka] moka.card_dom_insert [OF moka]
    by auto
  have room: "card (dom (entries (jti_cache s))) < capacity (jti_cache s)"
    using Cons.prems(3) by simp
  have later: "\<forall>n\<in>set (map fst reqs). now \<le> n" and bound: "now \<le> duration_max" "ctx_clock_skew ctx = skew"
    using Cons.prems(1,2) by (auto simp: req)
  have head: "proof_id vp \<noteq> (k, i)" if "r = Ok vp" for vp
  proof
    assume id: "proof_id vp = (k, i)"
    from v that have ok: "rfc9449_proof L now ctx vp" "cache_get M now (jti (vp_claims vp)) (jti_cache s) = None"
      by (simp_all add: validate_Ok_iff [OF laws] moka.or_insert [OF moka] split: if_splits)
    then have "now < t + (skew * 2 + from_secs 5)"
      using window_within_ttl [of i t skew now] Cons.prems(5,6,7) bound id
      by (simp add: rfc9449_proof_def proof_id_def)
    with Cons.prems(4,8) req have "cache_get M now k (jti_cache s) \<noteq> None"
      by (auto simp: moka.get_entries [OF moka])
    with ok id show False by (simp add: proof_id_def)
  qed
  have keep: "entries (jti_cache s') k = Some (t, v) \<or> (\<forall>n\<in>set (map fst reqs). t + ttl (jti_cache s') \<le> n)"
  proof (cases "entries (jti_cache s) k = Some (t, v) \<and> now < t + ttl (jti_cache s)")
    case True
    then have "entries (cache_insert M now j True (jti_cache s)) k = Some (t, v)"
      if "cache_get M now j (jti_cache s) = None" for j
      using moka.claimed_survives [OF moka, of "jti_cache s" k t v now j True] room that
      by (simp add: moka.or_insert [OF moka])
    with True eff show ?thesis by auto
  next
    case False
    with Cons.prems(8) req later ttl(1) show ?thesis by (auto intro: order_trans)
  qed
  have "(k, i) \<notin> proof_id ` set (accepted (dpop_run L M reqs s'))"
    using Cons.IH [of s'] Cons.prems card ttl keep by (auto simp: req)
  with head show ?case by (auto simp: req v split: res.splits)
qed simp

text \<open>C4. Over any sequence of requests with a clock that does not run backwards, starting from the
  caches of a new state and with no more requests than the replay cache holds, no two accepted
  proofs have the same identifier and issue time. So a captured proof is good for one request
  only: the cache remembers an identifier for the whole freshness window, for every clock skew
  whose cache lifetime is representable.\<close>

theorem no_proof_accepted_twice:
  assumes laws: "subtle_laws L" and moka: "moka M entries ttl capacity"
    and new: "dpop_state_new M d cfg = Ok st"
    and sorted: "sorted (map fst reqs)"
    and reqs: "\<forall>(now, ctx)\<in>set reqs. now \<le> duration_max \<and> ctx_clock_skew ctx = clock_skew cfg"
    and few: "length reqs \<le> CACHE_CAPACITY"
  shows "distinct (map proof_id (accepted (dpop_run L M reqs (state_caches st))))"
proof -
  let ?skew = "clock_skew cfg"
  have skew: "?skew \<le> duration_max"
    using new by (simp add: dpop_state_new_def Let_def split: if_splits)
  have "distinct (map proof_id (accepted (dpop_run L M reqs s)))"
    if "sorted (map fst reqs)"
      "\<forall>(now, ctx)\<in>set reqs. now \<le> duration_max \<and> ctx_clock_skew ctx = ?skew"
      "card (dom (entries (jti_cache s))) + length reqs \<le> capacity (jti_cache s)"
      "ttl (jti_cache s) = ?skew * 2 + from_secs 5" for s
    using that
  proof (induction reqs arbitrary: s)
    case (Cons req reqs)
    obtain now ctx where req: "req = (now, ctx)" by (cases req)
    obtain r s' where v: "validate_dpop_proof L M now ctx s = (r, s')"
      by (cases "validate_dpop_proof L M now ctx s")
    have s': "ttl (jti_cache s') = ttl (jti_cache s)" "capacity (jti_cache s') = capacity (jti_cache s)"
      "card (dom (entries (jti_cache s'))) \<le> Suc (card (dom (entries (jti_cache s))))"
      using validate_jti_cache [OF moka v] moka.insert_ttl [OF moka] moka.insert_capacity [OF moka]
        moka.card_dom_insert [OF moka] by auto
    have rest: "sorted (map fst reqs)" "card (dom (entries (jti_cache s'))) + length reqs \<le> capacity (jti_cache s')"
      "\<forall>(now, ctx)\<in>set reqs. now \<le> duration_max \<and> ctx_clock_skew ctx = ?skew"
      "ttl (jti_cache s') = ?skew * 2 + from_secs 5"
      using Cons.prems s' by auto
    have "proof_id vp \<notin> proof_id ` set (accepted (dpop_run L M reqs s'))" if ok: "r = Ok vp" for vp
    proof -
      have "rfc9449_proof L now ctx vp"
        "jti_cache s' = cache_insert M now (jti (vp_claims vp)) True (jti_cache s)"
        using v ok by (auto simp: validate_Ok_iff [OF laws] moka.or_insert [OF moka] split: if_splits)
      moreover have "card (dom (entries (jti_cache s))) < capacity (jti_cache s)"
        using Cons.prems(3) by simp
      ultimately have "entries (jti_cache s') (jti (vp_claims vp)) = Some (now, True)"
        "fresh_at (iat (vp_claims vp)) (as_secs now) (as_secs ?skew)" "now \<le> duration_max"
        using Cons.prems(2) moka.insert_room [OF moka] by (auto simp: req rfc9449_proof_def)
      then show ?thesis
        unfolding proof_id_def [of vp]
        by (intro run_cannot_repeat [OF laws moka rest(1,3,2,4) skew, where t = now and v = True]) simp_all
    qed
    with Cons.IH rest show ?case by (auto simp: req v split: res.splits)
  qed simp
  moreover have "entries (jti_cache (state_caches st)) = (\<lambda>k. None)"
    "capacity (jti_cache (state_caches st)) = CACHE_CAPACITY"
    "ttl (jti_cache (state_caches st)) = ?skew * 2 + from_secs 5"
    using new moka.entries_build [OF moka] moka.capacity_build [OF moka] moka.ttl_build [OF moka]
    by (auto simp: dpop_state_new_def create_jti_cache_def Let_def split: if_splits)
  ultimately show ?thesis using sorted reqs few by (simp add: dom_def)
qed

definition demo_config :: dpop_config where
  "demo_config =
     \<lparr> public_url = ''https://api.test'', issuer = ''https://api.test'', audience = ''https://api.test'',
       clock_skew = from_secs 60, nonce_required = False, allowed_algs = [ES256, PS256],
       signer = Symmetric (EncodingKey ''k'') (DecodingKey ''k''),
       access_token_ttl = from_secs 900, refresh_token_ttl = from_secs 2592000,
       grace_period = from_secs 5, allow_registration = True, config_cookie = cookie_config_default \<rparr>"

lemma demo_state_new:
  "dpop_state_new ref_ops 0 demo_config = Ok \<lparr> config = demo_config, state_caches = demo_caches \<rparr>"
  by (simp add: dpop_state_new_def demo_config_def demo_caches_def duration_max_def from_secs_def
      NANOS_PER_SEC_def)

theorem no_proof_accepted_twice_witness:
  "case dpop_run ref_lib ref_ops
          [(from_secs 1010, demo_ctx False None), (from_secs 1030, demo_ctx False None)] demo_caches of
     [Ok vp, r] \<Rightarrow> vp = demo_proof None \<and> r \<noteq> Ok (demo_proof None)
   | _ \<Rightarrow> False"
proof -
  let ?reqs = "[(from_secs 1010, demo_ctx False None), (from_secs 1030, demo_ctx False None)]"
  have hyps: "sorted (map fst ?reqs)"
    "\<forall>(now, ctx)\<in>set ?reqs. now \<le> duration_max \<and> ctx_clock_skew ctx = clock_skew demo_config"
    "length ?reqs \<le> CACHE_CAPACITY"
    by (simp_all add: from_secs_def NANOS_PER_SEC_def duration_max_def demo_ctx_def demo_config_def
        CACHE_CAPACITY_def)
  have d: "distinct (map proof_id (accepted (dpop_run ref_lib ref_ops ?reqs demo_caches)))"
    using no_proof_accepted_twice [OF ref_subtle.subtle_laws_axioms ref_cache.moka_axioms demo_state_new hyps]
    by (simp only: dpop_state.simps)
  have "rfc9449_proof ref_lib (from_secs 1010) (demo_ctx False None) (demo_proof None)"
    using demo_valid [of "[]" None "from_secs 1010" False] by (simp add: from_secs_def)
  then obtain s' where "validate_dpop_proof ref_lib ref_ops (from_secs 1010) (demo_ctx False None) demo_caches =
      (Ok (demo_proof None), s')"
    by (simp add: validate_Ok_iff [OF ref_subtle.subtle_laws_axioms] bound_to_token_def demo_ctx_def
        nonce_accepted_def demo_proof_def demo_claims_def ref_cache.or_insert demo_caches_simps)
  with d show ?thesis by (auto split: prod.splits)
qed

end
