(* ===== verification/Middleware.thy ===== *)
theory Middleware
  imports Dpop
begin

text \<open>
  \<open>axum/middleware.rs\<close> and \<open>axum/extractor.rs\<close>: the layer that authenticates every request of a
  protected service, and the extractor handlers read the session with. The inner service is an
  argument: it takes the request and the state of the application and returns a response and
  the new state.
\<close>

section \<open>Requests and sessions\<close>

record validated_session =
  s_sub :: string
  s_jti :: string
  s_jkt :: string
  s_extra :: members

record 't dpop_session =
  d_sub :: string
  d_jti :: string
  d_jkt :: string
  d_claims :: 't

text \<open>Header names are in lower case; a name may occur several times. \<open>req_session\<close> is the
  \<open>ValidatedSession\<close> among the extensions of the request.\<close>

record request =
  req_method :: string
  req_path :: string
  req_headers :: "(string \<times> string) list"
  req_session :: "validated_session option"

definition get_all :: "request \<Rightarrow> string \<Rightarrow> string list" where
  "get_all req name = map snd (filter (\<lambda>(k, _). k = name) (req_headers req))"

section \<open>The layer\<close>

definition DPOP_HEADER :: string where
  "DPOP_HEADER = ''dpop''"

definition exactly_one_dpop_header :: "lib \<Rightarrow> request \<Rightarrow> (dpop_error, string) res" where
  "exactly_one_dpop_header L req =
     (case get_all req DPOP_HEADER of
        [] \<Rightarrow> Err MissingHeader
      | [first] \<Rightarrow> ok_or (InvalidSignature ''invalid DPoP header encoding'') (header_to_str L first)
      | _ \<Rightarrow> Err (InvalidSignature ''multiple DPoP headers present''))"

definition extract_request :: "lib \<Rightarrow> request \<Rightarrow> (dpop_error, string \<times> string \<times> string \<times> string) res" where
  "extract_request L req =
     res_bind (ok_or MissingHeader
       (Option.bind (case get_all req ''authorization'' of [] \<Rightarrow> None | v # _ \<Rightarrow> Some v) (\<lambda>v.
        Option.bind (header_to_str L v) (\<lambda>v. strip_prefix ''DPoP '' v)))) (\<lambda>token.
     res_bind (exactly_one_dpop_header L req) (\<lambda>pf.
     Ok (token, pf, req_method req, req_path req)))"

definition build_htu :: "string \<Rightarrow> string \<Rightarrow> string" where
  "build_htu url path = trim_end_matches CHR ''/'' url @ path"

definition resource_context :: "dpop_config \<Rightarrow> string \<Rightarrow> string \<Rightarrow> string \<Rightarrow> string \<Rightarrow> validation_context" where
  "resource_context cfg token pf meth path =
     \<lparr> proof_jwt = pf,
       expected_htm = meth,
       expected_htu = build_htu (public_url cfg) path,
       access_token = Some token,
       ctx_nonce_required = nonce_required cfg,
       ctx_clock_skew = clock_skew cfg,
       ctx_allowed_algs = allowed_algs cfg \<rparr>"

definition verify_with_config :: "lib \<Rightarrow> instant \<Rightarrow> dpop_config \<Rightarrow> string \<Rightarrow> (dpop_error, access_token_claims) res" where
  "verify_with_config L now cfg token =
     verify_access_token L now (signer_algorithm (signer cfg)) (signer_decoding_key (signer cfg))
       token (issuer cfg) (audience cfg) (clock_skew cfg)"

definition authenticate ::
    "lib \<Rightarrow> ('c, string, bool) cache_ops \<Rightarrow> instant \<Rightarrow> dpop_config \<Rightarrow> string \<Rightarrow> string \<Rightarrow> string \<Rightarrow> string \<Rightarrow>
     ('c caches, dpop_error, validated_session) act" where
  "authenticate L M now cfg token pf meth path =
     act_bind (act_lift (verify_with_config L now cfg token)) (\<lambda>claims.
     act_bind (validate_dpop_proof L M now (resource_context cfg token pf meth path)) (\<lambda>validated.
     if conf_jkt (t_cnf claims) \<noteq> vp_thumbprint validated
     then act_fail (InvalidSignature ''jkt mismatch'')
     else act_return
       \<lparr> s_sub = t_sub claims,
         s_jti = t_jti claims,
         s_jkt = conf_jkt (t_cnf claims),
         s_extra = t_extra claims \<rparr>))"

definition dpop_service_call ::
    "lib \<Rightarrow> ('c, string, bool) cache_ops \<Rightarrow> instant \<Rightarrow> dpop_config \<Rightarrow> (request \<Rightarrow> 'a \<Rightarrow> response \<times> 'a) \<Rightarrow>
     request \<Rightarrow> ('c caches \<times> 'a, 'e, response) act" where
  "dpop_service_call L M now cfg inner req st =
     (case extract_request L req of
        Err err \<Rightarrow> (Ok (dpop_into_response L err), st)
      | Panic \<Rightarrow> (Panic, st)
      | Ok (token, pf, meth, path) \<Rightarrow>
         (case authenticate L M now cfg token pf meth path (fst st) of
            (Ok session, s') \<Rightarrow>
              let (resp, app') = inner (req\<lparr>req_session := Some session\<rparr>) (snd st)
              in (Ok resp, (s', app'))
          | (Err err, s') \<Rightarrow> (Ok (dpop_into_response L err), (s', snd st))
          | (Panic, s') \<Rightarrow> (Panic, (s', snd st))))"

subsection \<open>The layer as a tower service\<close>

text \<open>What the layer needs of the service it wraps: \<open>clone\<close>, and \<open>poll_ready\<close>, which says whether
  the service is ready and may change it. \<open>call\<close> hands the request to the service returned by
  \<open>called_service\<close>, and \<open>dpop_service_call\<close> is what that call does.\<close>

record 's tower_ops =
  tower_clone :: "'s \<Rightarrow> 's"
  tower_poll_ready :: "'s \<Rightarrow> bool \<times> 's"

record 'c dpop_layer =
  layer_state :: "'c dpop_state"

record ('c, 's) dpop_service =
  svc_inner :: 's
  svc_state :: "'c dpop_state"

definition dpop_layer_new :: "'c dpop_state \<Rightarrow> 'c dpop_layer" where
  "dpop_layer_new st = \<lparr> layer_state = st \<rparr>"

definition layer_service :: "'c dpop_layer \<Rightarrow> 's \<Rightarrow> ('c, 's) dpop_service" where
  "layer_service l inner = \<lparr> svc_inner = inner, svc_state = layer_state l \<rparr>"

definition service_poll_ready ::
    "'s tower_ops \<Rightarrow> ('c, 's) dpop_service \<Rightarrow> bool \<times> ('c, 's) dpop_service" where
  "service_poll_ready T svc =
     (let (ready, inner) = tower_poll_ready T (svc_inner svc) in (ready, svc\<lparr>svc_inner := inner\<rparr>))"

definition called_service :: "'s tower_ops \<Rightarrow> ('c, 's) dpop_service \<Rightarrow> 's" where
  "called_service T svc = tower_clone T (svc_inner svc)"

text \<open>Tower lets a service refuse a call before its \<open>poll_ready\<close> has said that it is ready, and a
  clone of a ready service need not be ready. The layer calls such a clone.\<close>

lemma layer_calls_unready_clone:
  "\<exists>T ready (svc :: ('c, bool) dpop_service).
     (\<forall>inner. fst (tower_poll_ready T inner) \<longrightarrow> ready (snd (tower_poll_ready T inner))) \<and>
     fst (service_poll_ready T svc) \<and> \<not> ready (called_service T (snd (service_poll_ready T svc)))"
  by (rule exI [of _ "\<lparr> tower_clone = (\<lambda>_. False), tower_poll_ready = (\<lambda>_. (True, True)) \<rparr>"], rule exI [of _ "\<lambda>b. b"])
    (simp add: service_poll_ready_def called_service_def)

section \<open>The extractor\<close>

text \<open>\<open>from_extra\<close> of the unit type, and of a type that derives \<open>Deserialize\<close>: \<open>de\<close> is its
  deserializer.\<close>

definition from_extra_unit :: "members \<Rightarrow> (dpop_error, unit) res" where
  "from_extra_unit extra = Ok ()"

definition deserialize_extra :: "(json \<Rightarrow> string + 't) \<Rightarrow> members \<Rightarrow> (dpop_error, 't) res" where
  "deserialize_extra de extra = map_err Internal (of_sum (de (JObj extra)))"

text \<open>The implementation of \<open>FromExtra\<close> that \<open>impl_from_extra!\<close> writes for a type, and the one
  of \<open>#[derive(FromExtra)]\<close>.\<close>

definition impl_from_extra :: "(json \<Rightarrow> string + 't) \<Rightarrow> members \<Rightarrow> (dpop_error, 't) res" where
  "impl_from_extra de extra = deserialize_extra de extra"

definition derive_from_extra :: "(json \<Rightarrow> string + 't) \<Rightarrow> members \<Rightarrow> (dpop_error, 't) res" where
  "derive_from_extra de extra = deserialize_extra de extra"

definition session_from_request ::
    "(members \<Rightarrow> (dpop_error, 't) res) \<Rightarrow> request \<Rightarrow> (dpop_error, 't dpop_session) res" where
  "session_from_request from_extra req =
     res_bind (ok_or MissingHeader (req_session req)) (\<lambda>session.
     res_bind (from_extra (s_extra session)) (\<lambda>claims.
     Ok \<lparr> d_sub = s_sub session, d_jti = s_jti session, d_jkt = s_jkt session, d_claims = claims \<rparr>))"

section \<open>Lemmas\<close>

lemma extract_request_Ok_iff:
  "extract_request L req = Ok (token, pf, meth, path) \<longleftrightarrow>
     (\<exists>a as p. get_all req ''authorization'' = a # as \<and> header_to_str L a = Some (''DPoP '' @ token) \<and>
        get_all req DPOP_HEADER = [p] \<and> header_to_str L p = Some pf \<and>
        meth = req_method req \<and> path = req_path req)"
  by (auto simp: extract_request_def exactly_one_dpop_header_def res_bind_Ok_iff bind_eq_Some_conv
      strip_prefix_Some_iff split: list.splits)

lemma extract_no_panic: "extract_request L req \<noteq> Panic"
  by (auto simp: extract_request_def exactly_one_dpop_header_def res_bind_Panic_iff split: list.splits)

lemma authenticate_Ok_iff:
  assumes "subtle_laws L"
  shows "authenticate L M now cfg token pf meth path s = (Ok sess, s') \<longleftrightarrow>
    (\<exists>claims vp. verify_with_config L now cfg token = Ok claims \<and>
       validate_dpop_proof L M now (resource_context cfg token pf meth path) s = (Ok vp, s') \<and>
       conf_jkt (t_cnf claims) = vp_thumbprint vp \<and>
       sess = \<lparr> s_sub = t_sub claims, s_jti = t_jti claims, s_jkt = conf_jkt (t_cnf claims),
                s_extra = t_extra claims \<rparr>)"
  by (auto simp: authenticate_def act_bind_Ok_iff)

lemma authenticate_no_panic:
  assumes "moka M entries ttl capacity"
  shows "fst (authenticate L M now cfg token pf meth path s) \<noteq> Panic"
  using validate_no_panic [OF assms, of L now "resource_context cfg token pf meth path" s]
  by (auto simp: authenticate_def act_bind_def verify_with_config_def verify_access_token_def
      split: res.splits prod.splits)

lemma issued_token_claims:
  assumes "jwt_laws L key_pair"
    and "issue_access_token L now i tsig iss aud ttl subject jkt extra = Ok token"
    and "verify_access_token L now' algorithm dk token iss' aud' skew = Ok c"
  shows "t_sub c = subject \<and> conf_jkt (t_cnf c) = jkt"
proof -
  let ?m = "claims_to_members (issued_claims L now i iss aud ttl subject jkt extra)"
  obtain m where m: "jwt_decode L (as_secs now') (de_error claims_from_members) token dk
      (access_validation L algorithm iss' aud' skew) = Inr m" "claims_from_members m = Inr c"
    using assms(3) by (auto simp: verify_access_token_Ok_iff)
  then have "m = ?m"
    using jwt_laws.decode_encode_shape [OF assms(1) _ m(1)] assms(2) by (auto simp: issue_access_token_Ok_iff)
  with m(2) show ?thesis
    by (auto simp: claims_from_members_def sum_bind_Inr_iff claims_to_members_def issued_claims_def
        de_field_def split: list.splits)
qed

section \<open>A concrete request\<close>

definition demo_jkt :: string where
  "demo_jkt = the (ref_jwk_thumbprint demo_jwk)"

definition demo_access_token :: string where
  "demo_access_token =
     projr (ref_jwt_encode \<lparr> header_typ = Some ''JWT'', alg = HS256, jwk_member = None \<rparr>
       (claims_to_members (issued_claims ref_lib (from_secs 1000) 3 ''https://api.test'' ''https://api.test''
          (from_secs 900) ''user'' demo_jkt []))
       (EncodingKey ''k''))"

definition demo_resource_claims :: dpop_claims where
  "demo_resource_claims =
     \<lparr> htm = ''GET'', htu = ''https://api.test/me'', iat = 1000, jti = ''j2'', nonce = None,
       ath = Some (compute_ath ref_lib demo_access_token) \<rparr>"

definition demo_resource_members :: members where
  "demo_resource_members =
     [(''htm'', JStr ''GET''), (''htu'', JStr ''https://api.test/me''), (''iat'', JNum 1000),
      (''jti'', JStr ''j2''), (''ath'', JStr (compute_ath ref_lib demo_access_token))]"

definition demo_resource_pf :: string where
  "demo_resource_pf = ref_proof demo_jwk demo_resource_members"

definition demo_resource_proof :: validated_proof where
  "demo_resource_proof =
     \<lparr> vp_jwk = demo_jwk, vp_claims = demo_resource_claims, vp_thumbprint = demo_jkt \<rparr>"

lemma demo_issue:
  "issue_access_token ref_lib (from_secs 1000) 3 (signer demo_config) (issuer demo_config)
     (audience demo_config) (access_token_ttl demo_config) ''user'' demo_jkt [] = Ok demo_access_token"
  by (simp add: issue_access_token_Ok_iff demo_config_def demo_access_token_def)

lemma demo_resource_length: "length demo_resource_pf \<le> 8192"
proof -
  have "length (put_bits 1000) = 10" by code_simp
  moreover have "length (compute_ath ref_lib demo_access_token) = 43"
    by (simp add: compute_ath_def ref_base64url_length ref_sha256_def)
  ultimately have "length (put_json (JObj demo_resource_members)) \<le> 500"
    by (simp add: demo_resource_members_def put_int_def)
  then have "length (piece (put_json (JObj demo_resource_members))) \<le> 1000"
    unfolding piece_def ref_base64url_length by linarith
  moreover have "length (put_json (header_json \<lparr>header_typ = Some ''dpop+jwt'', alg = ES256, jwk_member = Some demo_jwk\<rparr>)) \<le> 500"
    by (simp add: header_json_def demo_jwk_def jwk_json_def)
  then have "length (piece (put_json (header_json \<lparr>header_typ = Some ''dpop+jwt'', alg = ES256, jwk_member = Some demo_jwk\<rparr>))) \<le> 1000"
    unfolding piece_def ref_base64url_length by linarith
  moreover have "length (piece ''key'') = 4" by (simp add: piece_def ref_base64url_length)
  ultimately show ?thesis
    by (simp add: demo_resource_pf_def ref_proof_def demo_jwk_def del: put_json.simps)
qed

lemma demo_resource_valid:
  "rfc9449_proof ref_lib (from_secs 1010)
     (resource_context demo_config demo_access_token demo_resource_pf ''GET'' ''/me'') demo_resource_proof"
proof -
  let ?ctx = "resource_context demo_config demo_access_token demo_resource_pf ''GET'' ''/me''"
  have "dpop_claims_from_members demo_resource_members = Inr demo_resource_claims"
    by (simp add: dpop_claims_from_members_def demo_resource_members_def demo_resource_claims_def
        de_field_def de_option_string_def)
  moreover have "public_key demo_jwk" by (simp add: public_key_def demo_jwk_def is_private_op_def)
  moreover have "fresh_at 1000 (as_secs (from_secs 1010)) (as_secs (from_secs 60))"
    using as_secs_from_secs [of 1010] as_secs_from_secs [of 60] by (simp add: fresh_at_def)
  moreover have "expected_htu ?ctx = ''https://api.test/me''"
    by (simp add: resource_context_def build_htu_def demo_config_def trim_end_matches_def)
  moreover have "same_target ref_lib ''https://api.test/me'' ''https://api.test/me''"
    by (simp add: same_target_def normalize_htu_def ref_url_parse_def strip_prefix_def)
  ultimately show ?thesis
    unfolding demo_resource_proof_def demo_jkt_def
    using demo_resource_length
    by (intro ref_proof_valid [where m = demo_resource_members])
      (simp_all add: demo_resource_pf_def demo_resource_claims_def resource_context_def demo_config_def)
qed

lemma demo_resource_binding:
  "ath (vp_claims demo_resource_proof) = Some (compute_ath ref_lib demo_access_token)"
  "jwk_thumbprint ref_lib (vp_jwk demo_resource_proof) = Some demo_jkt"
  "nonce_accepted M now (resource_context demo_config demo_access_token pf meth path)
     (vp_claims demo_resource_proof) c"
  "jti (vp_claims demo_resource_proof) = ''j2''"
  by (simp_all add: demo_resource_proof_def demo_resource_claims_def demo_jkt_def ref_jwk_thumbprint_def
      nonce_accepted_def resource_context_def demo_config_def)

lemma demo_resource_bound:
  "bound_to_token ref_lib (resource_context demo_config demo_access_token pf meth path)
     (vp_claims demo_resource_proof)"
  using demo_resource_binding(1) by (simp add: bound_to_token_def resource_context_def)

definition demo_request :: request where
  "demo_request =
     \<lparr> req_method = ''GET'', req_path = ''/me'',
       req_headers = [(''authorization'', ''DPoP '' @ demo_access_token), (''dpop'', demo_resource_pf)],
       req_session = None \<rparr>"

section \<open>Properties\<close>

text \<open>C14. A handler behind the layer runs only for an authenticated request. Either the response is
  the rejection of some error and the state of the application is untouched, or the request
  carried one \<open>DPoP\<close> header and a token that verifies under the configured signer, issuer and
  audience, the proof is valid for the method and the public URL of this very request and for
  this token, the key of the proof is the one the token is bound to, and the handler ran once, on
  the request with the session of that token (whatever session it came with).\<close>

theorem handler_only_when_authenticated:
  assumes "subtle_laws L" and "moka M entries ttl capacity"
    and "dpop_service_call L M now cfg inner req (s, app) = (r, (s', app'))"
  shows "(\<exists>err. r = Ok (dpop_into_response L err) \<and> app' = app) \<or>
    (\<exists>token pf claims vp.
       extract_request L req = Ok (token, pf, req_method req, req_path req) \<and>
       verify_with_config L now cfg token = Ok claims \<and>
       rfc9449_proof L now (resource_context cfg token pf (req_method req) (req_path req)) vp \<and>
       ath (vp_claims vp) = Some (compute_ath L token) \<and>
       jwk_thumbprint L (vp_jwk vp) = Some (conf_jkt (t_cnf claims)) \<and>
       (let (resp, app'') = inner (req\<lparr>req_session := Some \<lparr> s_sub = t_sub claims, s_jti = t_jti claims,
              s_jkt = conf_jkt (t_cnf claims), s_extra = t_extra claims \<rparr>\<rparr>) app
        in r = Ok resp \<and> app' = app''))"
proof (cases "extract_request L req")
  case (Ok q)
  obtain token pf meth path where q: "q = (token, pf, meth, path)" by (cases q)
  with Ok have mp: "meth = req_method req" "path = req_path req" by (auto simp: extract_request_Ok_iff)
  let ?ctx = "resource_context cfg token pf (req_method req) (req_path req)"
  obtain a s1 where a: "authenticate L M now cfg token pf (req_method req) (req_path req) s = (a, s1)"
    by (cases "authenticate L M now cfg token pf (req_method req) (req_path req) s")
  show ?thesis
  proof (cases a)
    case (Ok sess)
    with a obtain claims vp where c: "verify_with_config L now cfg token = Ok claims"
      "validate_dpop_proof L M now ?ctx s = (Ok vp, s1)" "conf_jkt (t_cnf claims) = vp_thumbprint vp"
      "sess = \<lparr> s_sub = t_sub claims, s_jti = t_jti claims, s_jkt = conf_jkt (t_cnf claims),
                s_extra = t_extra claims \<rparr>"
      by (auto simp: authenticate_Ok_iff [OF assms(1)])
    from c(2) have v: "rfc9449_proof L now ?ctx vp" "bound_to_token L ?ctx (vp_claims vp)"
      by (simp_all add: validate_Ok_iff [OF assms(1)])
    then have "ath (vp_claims vp) = Some (compute_ath L token)"
      "jwk_thumbprint L (vp_jwk vp) = Some (conf_jkt (t_cnf claims))"
      using c(3) by (simp_all add: bound_to_token_def resource_context_def rfc9449_proof_def)
    with \<open>extract_request L req = Ok q\<close> q mp c v a Ok assms(3) show ?thesis
      by (intro disjI2 exI [of _ token] exI [of _ pf] exI [of _ claims] exI [of _ vp])
        (auto simp: dpop_service_call_def Let_def split: prod.splits)
  next
    case (Err e)
    with \<open>extract_request L req = Ok q\<close> q mp a assms(3) show ?thesis
      by (auto simp: dpop_service_call_def)
  next
    case Panic
    with a authenticate_no_panic [OF assms(2), of L now cfg token pf "req_method req" "req_path req" s]
    show ?thesis by simp
  qed
qed (use assms(3) extract_no_panic in \<open>auto simp: dpop_service_call_def\<close>)

text \<open>C15. A stolen access token is worthless without the key it was issued for: a request that
  presents a token of the library is authenticated only with a proof made by a key whose
  thumbprint is the one the token was issued with, and the session then belongs to the subject
  the token was issued to.\<close>

theorem token_useless_without_key:
  assumes "subtle_laws L" and "jwt_laws L key_pair"
    and "issue_access_token L t0 i tsig iss aud ttl subject jkt extra = Ok token"
    and "authenticate L M now cfg token pf meth path s = (Ok sess, s')"
  shows "(\<exists>vp. rfc9449_proof L now (resource_context cfg token pf meth path) vp \<and>
            jwk_thumbprint L (vp_jwk vp) = Some jkt) \<and> s_sub sess = subject \<and> s_jkt sess = jkt"
proof -
  from assms(4) obtain claims vp where c: "verify_with_config L now cfg token = Ok claims"
    "validate_dpop_proof L M now (resource_context cfg token pf meth path) s = (Ok vp, s')"
    "conf_jkt (t_cnf claims) = vp_thumbprint vp" "s_sub sess = t_sub claims"
    "s_jkt sess = conf_jkt (t_cnf claims)"
    by (auto simp: authenticate_Ok_iff [OF assms(1)])
  then show ?thesis
    using issued_token_claims [OF assms(2,3)]
    by (auto simp: verify_with_config_def validate_Ok_iff [OF assms(1)] rfc9449_proof_def)
qed

text \<open>The legitimate client gets in: a token issued by the configured signer for the
  thumbprint of the client's key, presented within its lifetime with a valid proof of that key,
  authenticates the request as the subject of the token, with its application claims.\<close>

theorem issued_token_authenticates:
  assumes laws: "subtle_laws L" "jwt_laws L key_pair" "moka M entries ttl capacity"
    and keys: "key_pair (signer_encoding_key (signer cfg)) (signer_decoding_key (signer cfg))"
    and extra: "distinct (map fst extra)" "set (map fst extra) \<inter> set RESERVED = {}"
    and issued: "issue_access_token L t0 i (signer cfg) (issuer cfg) (audience cfg) (access_token_ttl cfg)
                   subject jkt extra = Ok token"
    and alive: "unat (as_secs now) \<le> min (unat (as_secs t0) + unat (as_secs (access_token_ttl cfg))) (2 ^ 64 - 1)"
    and valid: "rfc9449_proof L now (resource_context cfg token pf meth path) vp"
      "ath (vp_claims vp) = Some (compute_ath L token)" "jwk_thumbprint L (vp_jwk vp) = Some jkt"
      "nonce_accepted M now (resource_context cfg token pf meth path) (vp_claims vp) (nonce_cache s)"
      "cache_get M now (jti (vp_claims vp)) (jti_cache s) = None"
  shows "fst (authenticate L M now cfg token pf meth path s) =
    Ok \<lparr> s_sub = subject, s_jti = uuid_to_string L (new_v4 L i), s_jkt = jkt, s_extra = extra \<rparr>"
proof -
  let ?c = "issued_claims L t0 i (issuer cfg) (audience cfg) (access_token_ttl cfg) subject jkt extra"
  have "verify_with_config L now cfg token = Ok ?c"
    using verify_issued [OF laws(2) keys extra issued, of now "clock_skew cfg"]
      trans_le_add1 [OF alive, of "unat (as_secs (clock_skew cfg))"]
    by (simp add: verify_with_config_def split: if_splits)
  moreover obtain s' where "validate_dpop_proof L M now (resource_context cfg token pf meth path) s = (Ok vp, s')"
    using valid by (simp add: validate_Ok_iff [OF laws(1)] moka.or_insert [OF laws(3)] bound_to_token_def
        resource_context_def)
  moreover have "vp_thumbprint vp = jkt"
    using valid(1,3) by (simp add: rfc9449_proof_def)
  ultimately show ?thesis
    by (simp add: authenticate_def act_bind_def issued_claims_def)
qed

theorem issued_token_authenticates_witness:
  "fst (authenticate ref_lib ref_ops (from_secs 1010) demo_config demo_access_token demo_resource_pf
          ''GET'' ''/me'' demo_caches) =
     Ok \<lparr> s_sub = ''user'', s_jti = ''3'', s_jkt = demo_jkt, s_extra = [] \<rparr>"
proof -
  have keys: "ref_key_pair (signer_encoding_key (signer demo_config)) (signer_decoding_key (signer demo_config))"
    by (simp add: demo_config_def)
  have ex: "distinct (map fst ([] :: members))" "set (map fst ([] :: members)) \<inter> set RESERVED = {}"
    by simp_all
  have alive: "unat (as_secs (from_secs 1010)) \<le>
      min (unat (as_secs (from_secs 1000)) + unat (as_secs (access_token_ttl demo_config))) (2 ^ 64 - 1)"
    using as_secs_from_secs [of 1010] as_secs_from_secs [of 1000] as_secs_from_secs [of 900]
    by (simp add: demo_config_def)
  have three: "digits_of 3 = ''3''" by code_simp
  show ?thesis
    using issued_token_authenticates [OF ref_subtle.subtle_laws_axioms ref_jwt.jwt_laws_axioms
        ref_cache.moka_axioms keys ex demo_issue alive demo_resource_valid demo_resource_binding(1-3)]
    by (simp add: demo_caches_simps three)
qed

theorem token_useless_without_key_witness:
  "\<exists>sess s'. authenticate ref_lib ref_ops (from_secs 1010) demo_config demo_access_token demo_resource_pf
      ''GET'' ''/me'' demo_caches = (Ok sess, s') \<and> s_sub sess = ''user'' \<and> s_jkt sess = demo_jkt"
proof -
  obtain vs where "validate_dpop_proof ref_lib ref_ops (from_secs 1010)
      (resource_context demo_config demo_access_token demo_resource_pf ''GET'' ''/me'') demo_caches =
      (Ok demo_resource_proof, vs)"
    using demo_resource_valid
    by (simp add: validate_Ok_iff [OF ref_subtle.subtle_laws_axioms] ref_cache.or_insert demo_caches_simps
        demo_resource_bound demo_resource_binding(3,4))
  moreover have "verify_with_config ref_lib (from_secs 1010) demo_config demo_access_token =
      Ok (issued_claims ref_lib (from_secs 1000) 3 (issuer demo_config) (audience demo_config)
        (access_token_ttl demo_config) ''user'' demo_jkt [])"
    using verify_issued [OF ref_jwt.jwt_laws_axioms _ _ _ demo_issue, of "signer_decoding_key (signer demo_config)"
        "from_secs 1010" "clock_skew demo_config"]
      as_secs_from_secs [of 1010] as_secs_from_secs [of 1000] as_secs_from_secs [of 900]
    by (simp add: verify_with_config_def demo_config_def)
  moreover have "vp_thumbprint demo_resource_proof = demo_jkt"
    by (simp add: demo_resource_proof_def)
  ultimately obtain sess s' where ok: "authenticate ref_lib ref_ops (from_secs 1010) demo_config
      demo_access_token demo_resource_pf ''GET'' ''/me'' demo_caches = (Ok sess, s')"
    by (simp add: authenticate_def act_bind_def issued_claims_def)
  from token_useless_without_key [OF ref_subtle.subtle_laws_axioms ref_jwt.jwt_laws_axioms demo_issue ok] ok
  show ?thesis by blast
qed

definition demo_inner :: "request \<Rightarrow> string list \<Rightarrow> response \<times> string list" where
  "demo_inner req app =
     (response_of 200 EmptyBody, (case req_session req of Some x \<Rightarrow> s_sub x | None \<Rightarrow> ''nobody'') # app)"

theorem handler_only_when_authenticated_witness:
  "case (dpop_service_call ref_lib ref_ops (from_secs 1010) demo_config demo_inner
          (demo_request\<lparr>req_headers := []\<rparr>) (demo_caches, []) :: (unit, response) res \<times> _) of
     (Ok resp, (s', app')) \<Rightarrow> app' = [] | _ \<Rightarrow> False"
proof -
  obtain r s' app' where c: "dpop_service_call ref_lib ref_ops (from_secs 1010) demo_config demo_inner
          (demo_request\<lparr>req_headers := []\<rparr>) (demo_caches, []) = (r :: (unit, response) res, (s', app'))"
    by (metis prod.exhaust)
  have "extract_request ref_lib (demo_request\<lparr>req_headers := []\<rparr>) = Err MissingHeader"
    by (simp add: extract_request_def get_all_def)
  with handler_only_when_authenticated [OF ref_subtle.subtle_laws_axioms ref_cache.moka_axioms c]
  have "(\<exists>err. r = Ok (dpop_into_response ref_lib err)) \<and> app' = []" by auto
  with c show ?thesis by auto
qed

end
