(* ===== verification/Web_Client.thy ===== *)
theory Web_Client
  imports Middleware
begin

text \<open>
  The browser client \<open>examples/web\<close>: \<open>crypto.rs\<close> (the DPoP proof of a request) and \<open>client.rs\<close> (a
  request that answers one nonce challenge). What the browser does (WebCrypto, \<open>fetch\<close>, headers)
  and how \<open>serde_json\<close> prints a value are the parameter \<open>browser\<close>.

  The last section composes the client with the layer of \<open>axum/middleware.rs\<close>.
\<close>

section \<open>The browser\<close>

type_synonym js_error = string

text \<open>\<open>subtle_sign\<close> is an ECDSA signature over P-256 with the private key of the pair; a signature is
  randomised, so the calls are numbered. \<open>set_header_fault\<close> is what \<open>Headers.set\<close> raises.\<close>

record browser =
  has_window :: bool
  json_text :: "json \<Rightarrow> string"
  subtle_sign :: "string \<Rightarrow> nat \<Rightarrow> string \<Rightarrow> js_error + string"
  client_uuid :: "nat \<Rightarrow> string"
  set_header_fault :: "string \<Rightarrow> js_error option"
  body_text :: "body \<Rightarrow> js_error + string option"

record fetch_request =
  fr_method :: string
  fr_url :: string
  fr_headers :: "(string \<times> string) list"
  fr_body :: "string option"

type_synonym 's network = "instant \<Rightarrow> fetch_request \<Rightarrow> 's \<Rightarrow> (js_error + response) \<times> 's"

section \<open>Proofs\<close>

definition client_compute_ath :: "lib \<Rightarrow> string \<Rightarrow> string" where
  "client_compute_ath L token = base64url_encode L (sha256 L token)"

text \<open>The members of a \<open>serde_json\<close> object are kept in the order of their names.\<close>

definition proof_header :: "json \<Rightarrow> json" where
  "proof_header jwk = JObj [(''alg'', JStr ''ES256''), (''jwk'', jwk), (''typ'', JStr ''dpop+jwt'')]"

definition proof_members ::
    "lib \<Rightarrow> string \<Rightarrow> string \<Rightarrow> u64 \<Rightarrow> string \<Rightarrow> string option \<Rightarrow> string option \<Rightarrow> members" where
  "proof_members L meth url now j token n =
     (case token of None \<Rightarrow> [] | Some t \<Rightarrow> [(''ath'', JStr (client_compute_ath L t))]) @
     [(''htm'', JStr meth), (''htu'', JStr url), (''iat'', JNum (uint now)), (''jti'', JStr j)] @
     (case n of None \<Rightarrow> [] | Some v \<Rightarrow> [(''nonce'', JStr v)])"

definition build_proof_signing_input ::
    "lib \<Rightarrow> browser \<Rightarrow> json \<Rightarrow> string \<Rightarrow> string \<Rightarrow> u64 \<Rightarrow> string \<Rightarrow> string option \<Rightarrow> string option \<Rightarrow> string" where
  "build_proof_signing_input L B jwk meth url now j token n =
     (let header_b64 = base64url_encode L (json_text B (proof_header jwk));
          claims_b64 = base64url_encode L (json_text B (JObj (proof_members L meth url now j token n)))
      in header_b64 @ ''.'' @ claims_b64)"

definition client_sign :: "browser \<Rightarrow> string \<Rightarrow> nat \<Rightarrow> string \<Rightarrow> (js_error, string) res" where
  "client_sign B sk i data =
     (if \<not> has_window B then Err ''not window'' else of_sum (subtle_sign B sk i data))"

definition generate_proof ::
    "lib \<Rightarrow> browser \<Rightarrow> instant \<Rightarrow> nat \<Rightarrow> string \<Rightarrow> json \<Rightarrow> string \<Rightarrow> string \<Rightarrow> string option \<Rightarrow> string option \<Rightarrow>
     (js_error, string) res" where
  "generate_proof L B now i sk jwk meth url token n =
     (let j = client_uuid B i;
          signing_input = build_proof_signing_input L B jwk meth url (as_secs now) j token n
      in res_bind (client_sign B sk i signing_input) (\<lambda>signature.
         Ok (signing_input @ ''.'' @ base64url_encode L signature)))"

section \<open>Requests\<close>

record dpop_response =
  dr_status :: nat
  dr_headers :: "(string \<times> string) list"
  dr_text :: string

definition set_headers :: "browser \<Rightarrow> (string \<times> string) list \<Rightarrow> (js_error, (string \<times> string) list) res" where
  "set_headers B hs =
     (case find (\<lambda>(_, v). set_header_fault B v \<noteq> None) hs of
        Some (_, v) \<Rightarrow> Err (the (set_header_fault B v))
      | None \<Rightarrow> Ok hs)"

definition request_headers :: "string \<Rightarrow> string option \<Rightarrow> string option \<Rightarrow> (string \<times> string) list" where
  "request_headers pf token req_body =
     [(''dpop'', pf)] @
     (case token of None \<Rightarrow> [] | Some t \<Rightarrow> [(''authorization'', ''DPoP '' @ t)]) @
     (case req_body of None \<Rightarrow> [] | Some _ \<Rightarrow> [(''content-type'', ''application/json'')])"

definition nonce_challenged :: "response \<Rightarrow> string option" where
  "nonce_challenged resp = (if status resp = 401 \<or> status resp = 400 then resp_header resp DPOP_NONCE else None)"

text \<open>One round of the loop for each remaining attempt; \<open>clock\<close> is the time of each round.\<close>

fun dpop_attempts ::
    "lib \<Rightarrow> browser \<Rightarrow> (nat \<Rightarrow> instant) \<Rightarrow> 's network \<Rightarrow> string \<Rightarrow> json \<Rightarrow> string \<Rightarrow> string \<Rightarrow> string option \<Rightarrow>
     string option \<Rightarrow> nat \<Rightarrow> string option \<Rightarrow> (nat \<times> 's) \<Rightarrow> (js_error, dpop_response) res \<times> nat \<times> 's" where
  "dpop_attempts L B clock fetch sk jwk meth url token req_body 0 n st =
     (Err ''nonce retry limit reached'', st)"
| "dpop_attempts L B clock fetch sk jwk meth url token req_body (Suc rounds) n (i, net) =
     (case res_bind (generate_proof L B (clock i) i sk jwk meth url token n)
             (\<lambda>pf. set_headers B (request_headers pf token req_body)) of
        Err e \<Rightarrow> (Err e, i + 1, net)
      | Panic \<Rightarrow> (Panic, i + 1, net)
      | Ok headers \<Rightarrow>
          if \<not> has_window B then (Panic, i + 1, net)
          else (case fetch (clock i) \<lparr> fr_method = meth, fr_url = url, fr_headers = headers, fr_body = req_body \<rparr> net of
             (Inl e, net') \<Rightarrow> (Err e, i + 1, net')
           | (Inr response, net') \<Rightarrow>
               (case nonce_challenged response of
                  Some fresh \<Rightarrow>
                    dpop_attempts L B clock fetch sk jwk meth url token req_body rounds (Some fresh) (i + 1, net')
                | None \<Rightarrow>
                    (case body_text B (resp_body response) of
                       Inl e \<Rightarrow> (Err e, i + 1, net')
                     | Inr t \<Rightarrow>
                         (Ok \<lparr> dr_status = status response, dr_headers = resp_headers response,
                               dr_text = (case t of Some t \<Rightarrow> t | None \<Rightarrow> []) \<rparr>, i + 1, net')))))"

definition dpop_requests ::
    "lib \<Rightarrow> browser \<Rightarrow> (nat \<Rightarrow> instant) \<Rightarrow> 's network \<Rightarrow> string \<Rightarrow> json \<Rightarrow> string \<Rightarrow> string \<Rightarrow> string option \<Rightarrow>
     string option \<Rightarrow> (nat \<times> 's) \<Rightarrow> (js_error, dpop_response) res \<times> nat \<times> 's" where
  "dpop_requests L B clock fetch sk jwk meth url token req_body st =
     dpop_attempts L B clock fetch sk jwk meth url token req_body 2 None st"

text \<open>The claims the server reads out of a proof of the client.\<close>

definition client_claims :: "lib \<Rightarrow> browser \<Rightarrow> instant \<Rightarrow> nat \<Rightarrow> string \<Rightarrow> string \<Rightarrow> string option \<Rightarrow> string option \<Rightarrow> dpop_claims" where
  "client_claims L B now i meth url token n =
     \<lparr> htm = meth, htu = url, iat = as_secs now, jti = client_uuid B i, nonce = n, ath = map_option (compute_ath L) token \<rparr>"

section \<open>A key pair the server can read\<close>

text \<open>What the client relies on for one key pair: base64 and JSON are read back as they were
  written, \<open>jsonwebtoken\<close> reads the header that names the public key \<open>k\<close>, and a signature of the
  private key verifies under \<open>k\<close>.\<close>

locale web_key =
  fixes L :: lib and B :: browser and sk :: string and jwk :: json and k :: jwk and dk :: decoding_key
  assumes window: "has_window B"
    and base64_round: "base64url_decode L (base64url_encode L s) = Some s"
    and base64_no_dot: "CHR ''.'' \<notin> set (base64url_encode L s)"
    and json_round: "json_from_slice L (json_text B j) = Some j"
    and header_read: "decode_header L (base64url_encode L (json_text B (proof_header jwk)) @ ''.'' @
        base64url_encode L (json_text B (JObj m)) @ ''.'' @ base64url_encode L q) =
      Inr \<lparr> header_typ = Some ''dpop+jwt'', alg = ES256, jwk_member = Some k \<rparr>"
    and key_read: "decoding_key_from_jwk L k = Inr dk"
    and validation_alg: "v_algorithm (validation_new L a) = a"
    and validation_iss: "v_iss (validation_new L a) = None"
    and signature_ok:
      "\<lbrakk> input = base64url_encode L (json_text B (proof_header jwk)) @ ''.'' @ base64url_encode L (json_text B (JObj m));
         subtle_sign B sk i input = Inr signature; v_algorithm v = ES256; de m = None;
         set (required_spec_claims v) \<subseteq> set (map fst m); exp_ok now v m; iss_ok v m; aud_ok v m \<rbrakk> \<Longrightarrow>
       jwt_decode L now de (input @ ''.'' @ base64url_encode L signature) dk v = Inr m"
    and public: "\<exists>ms. jwk = JObj ms \<and> \<not> contains_key ms ''d'' \<and> \<not> contains_key ms ''k''" "public_key k"
begin

lemma generate_proof_Ok:
  assumes "generate_proof L B now i sk jwk meth url token n = Ok pf"
  obtains signature where
    "subtle_sign B sk i (build_proof_signing_input L B jwk meth url (as_secs now) (client_uuid B i) token n) = Inr signature"
    "pf = build_proof_signing_input L B jwk meth url (as_secs now) (client_uuid B i) token n @ ''.'' @ base64url_encode L signature"
  using assms by (auto simp: generate_proof_def client_sign_def res_bind_Ok_iff Let_def window)

lemma proof_members_read:
  "dpop_claims_from_members (proof_members L meth url (as_secs now) (client_uuid B i) token n) = Inr (client_claims L B now i meth url token n)"
  by (cases token; cases n)
    (simp_all add: dpop_claims_from_members_def proof_members_def client_claims_def de_field_def de_option_string_def
      client_compute_ath_def compute_ath_def)

lemma client_header_public:
  "reject_private_header_jwk L (base64url_encode L (json_text B (proof_header jwk)) @ ''.'' @ r) = Ok ()"
proof -
  have "split_on CHR ''.'' (base64url_encode L (json_text B (proof_header jwk)) @ ''.'' @ r) =
      base64url_encode L (json_text B (proof_header jwk)) # split_on CHR ''.'' r"
    using split_on_append [OF base64_no_dot] by simp
  then show ?thesis
    using public(1) by (auto simp: reject_private_header_jwk_def base64_round json_round proof_header_def)
qed

lemma client_proof_signed:
  assumes "generate_proof L B t i sk jwk meth url token n = Ok pf" and "proof_jwt ctx = pf" and "ES256 \<in> set (ctx_allowed_algs ctx)"
  shows "signed_by L now ctx \<lparr> vp_jwk = k, vp_claims = client_claims L B t i meth url token n, vp_thumbprint = tp \<rparr>"
proof -
  let ?m = "proof_members L meth url (as_secs t) (client_uuid B i) token n"
  let ?input = "base64url_encode L (json_text B (proof_header jwk)) @ ''.'' @ base64url_encode L (json_text B (JObj ?m))"
  obtain signature where sig: "subtle_sign B sk i ?input = Inr signature" "pf = ?input @ ''.'' @ base64url_encode L signature"
    using generate_proof_Ok [OF assms(1)] by (auto simp: build_proof_signing_input_def Let_def)
  have "jwt_decode L now (de_error dpop_claims_from_members) pf dk (proof_validation L ES256) = Inr ?m"
    unfolding sig(2)
    by (rule signature_ok [OF refl sig(1)])
      (simp_all add: proof_validation_def validation_alg validation_iss de_error_def proof_members_read exp_ok_def iss_ok_def aud_ok_def)
  then have "decode_as L now dpop_claims_from_members pf dk (proof_validation L ES256) = Inr (client_claims L B t i meth url token n)"
    by (simp add: decode_as_def proof_members_read)
  moreover have "decode_header L pf = Inr \<lparr> header_typ = Some ''dpop+jwt'', alg = ES256, jwk_member = Some k \<rparr>"
    unfolding sig(2) using header_read by simp
  ultimately show ?thesis
    using assms(2,3) key_read by (simp add: signed_by_def)
qed

text \<open>A proof of the client satisfies the requirements of the server.\<close>

lemma client_proof_valid:
  assumes gen: "generate_proof L B t i sk jwk meth url token n = Ok pf" and "length pf \<le> 8192"
    and "proof_jwt ctx = pf" and "ES256 \<in> set (ctx_allowed_algs ctx)" and "expected_htm ctx = meth"
    and "same_target L url (expected_htu ctx)" and "fresh_at (as_secs t) (as_secs now) (as_secs (ctx_clock_skew ctx))"
    and "jwk_thumbprint L k = Some tp"
  shows "rfc9449_proof L now ctx \<lparr> vp_jwk = k, vp_claims = client_claims L B t i meth url token n, vp_thumbprint = tp \<rparr>"
proof -
  obtain r where "pf = base64url_encode L (json_text B (proof_header jwk)) @ ''.'' @ r"
    using generate_proof_Ok [OF gen] by (auto simp: build_proof_signing_input_def Let_def)
  then have "reject_private_header_jwk L pf = Ok ()" using client_header_public by simp
  with assms client_proof_signed [OF gen assms(3,4)] public(2) show ?thesis
    by (simp add: rfc9449_proof_def client_claims_def)
qed

end

section \<open>The client against the layer\<close>

text \<open>The network brings a request to the service behind the layer, under the path its URL has.\<close>

definition request_of :: "string \<Rightarrow> fetch_request \<Rightarrow> request" where
  "request_of path fr = \<lparr> req_method = fr_method fr, req_path = path, req_headers = fr_headers fr, req_session = None \<rparr>"

definition layer_network ::
    "lib \<Rightarrow> ('c, string, bool) cache_ops \<Rightarrow> dpop_config \<Rightarrow> (request \<Rightarrow> 'a \<Rightarrow> response \<times> 'a) \<Rightarrow> string \<Rightarrow>
     ('c caches \<times> 'a) network" where
  "layer_network L M cfg inner path now fr st =
     (case (dpop_service_call L M now cfg inner (request_of path fr) st :: (unit, response) res \<times> _) of
        (Ok resp, st') \<Rightarrow> (Inr resp, st')
      | (_, st') \<Rightarrow> (Inl ''connection closed'', st'))"

lemma extract_client_request:
  assumes "header_to_str L pf = Some pf" and "header_to_str L (''DPoP '' @ token) = Some (''DPoP '' @ token)"
  shows "extract_request L (request_of path \<lparr> fr_method = meth, fr_url = url, fr_headers = request_headers pf (Some token) None, fr_body = None \<rparr>) =
    Ok (token, pf, meth, path)"
  using assms by (simp add: extract_request_Ok_iff request_of_def request_headers_def get_all_def DPOP_HEADER_def)

text \<open>One request of the client with a given nonce, when the store of nonces does not know it (or
  there is none) and when it does.\<close>

lemma layer_challenges:
  assumes "moka M entries ttl capacity" and "verify_with_config L now cfg token = Ok claims"
    and "extract_request L req = Ok (token, pf, meth, path)"
    and "rfc9449_proof L now (resource_context cfg token pf meth path) vp" and "nonce (vp_claims vp) = None" and "nonce_required cfg"
  shows "let fresh = uuid_to_string L (new_v4 L (draws s)) in
    dpop_service_call L M now cfg inner req (s, app) =
      (Ok (dpop_into_response L (ResourceNonceRequired fresh)),
       (s\<lparr>nonce_cache := cache_insert M now fresh True (nonce_cache s), draws := draws s + 1\<rparr>, app))"
proof -
  have "check_proof L now (resource_context cfg token pf meth path) = Ok vp" using assms(4) by (simp add: check_proof_Ok_iff)
  moreover have "\<not> nonce_accepted M now (resource_context cfg token pf meth path) (vp_claims vp) (nonce_cache s)"
    using assms(5,6) by (simp add: nonce_accepted_def resource_context_def)
  ultimately show ?thesis
    using assms(2,3)
    by (simp add: dpop_service_call_def authenticate_def act_bind_def validate_stages [OF assms(1)] Let_def nonce_challenge_def
        resource_context_def)
qed

lemma layer_accepts:
  assumes "subtle_laws L" and "moka M entries ttl capacity" and "verify_with_config L now cfg token = Ok claims"
    and "extract_request L req = Ok (token, pf, meth, path)"
    and "rfc9449_proof L now (resource_context cfg token pf meth path) vp" and "ath (vp_claims vp) = Some (compute_ath L token)"
    and "nonce_accepted M now (resource_context cfg token pf meth path) (vp_claims vp) (nonce_cache s)"
    and "cache_get M now (jti (vp_claims vp)) (jti_cache s) = None" and "conf_jkt (t_cnf claims) = vp_thumbprint vp"
    and "inner (req\<lparr>req_session := Some \<lparr> s_sub = t_sub claims, s_jti = t_jti claims, s_jkt = conf_jkt (t_cnf claims),
           s_extra = t_extra claims \<rparr>\<rparr>) app = (resp, app')"
  shows "\<exists>s'. dpop_service_call L M now cfg inner req (s, app) = (Ok resp, (s', app'))"
proof -
  let ?ctx = "resource_context cfg token pf meth path"
  have "bound_to_token L ?ctx (vp_claims vp)"
    using assms(6) by (simp add: bound_to_token_def resource_context_def)
  then obtain s' where "validate_dpop_proof L M now ?ctx s = (Ok vp, s')"
    using assms(5,7,8) by (simp add: validate_Ok_iff [OF assms(1)] moka.or_insert [OF assms(2)])
  then have "authenticate L M now cfg token pf meth path s =
      (Ok \<lparr> s_sub = t_sub claims, s_jti = t_jti claims, s_jkt = conf_jkt (t_cnf claims), s_extra = t_extra claims \<rparr>, s')"
    using assms(3,9) by (auto simp: authenticate_Ok_iff [OF assms(1)])
  with assms(4,10) show ?thesis by (simp add: dpop_service_call_def)
qed

section \<open>A concrete browser\<close>

definition demo_browser :: browser where
  "demo_browser =
     \<lparr> has_window = True, json_text = put_json, subtle_sign = (\<lambda>sk i data. Inr sk),
       client_uuid = (\<lambda>i. CHR ''c'' # digits_of i), set_header_fault = (\<lambda>v. None), body_text = (\<lambda>b. Inr (Some [])) \<rparr>"

lemma demo_browser_simps [simp]:
  "has_window demo_browser" "json_text demo_browser = put_json" "subtle_sign demo_browser sk i data = Inr sk"
  "client_uuid demo_browser i = CHR ''c'' # digits_of i" "set_header_fault demo_browser v = None"
  "body_text demo_browser b = Inr (Some [])"
  by (simp_all add: demo_browser_def)

lemma demo_client_parts:
  "ref_jwt_parts (piece (put_json (proof_header (jwk_json demo_jwk))) @ ''.'' @ piece (put_json (JObj m)) @ ''.'' @ piece q) =
     Some (\<lparr> header_typ = Some ''dpop+jwt'', alg = ES256, jwk_member = Some demo_jwk \<rparr>, m, q)"
proof -
  have "header_of_json (proof_header (jwk_json demo_jwk)) =
      Some \<lparr> header_typ = Some ''dpop+jwt'', alg = ES256, jwk_member = Some demo_jwk \<rparr>"
    by (simp add: header_of_json_def proof_header_def algorithm_of_name_def enum_algorithm_def)
  then show ?thesis
    by (simp add: ref_jwt_parts_def split_pieces del: append_Cons put_json.simps)
      (simp add: piece_def base64url_round_trip)
qed

interpretation demo_key: web_key ref_lib demo_browser "''key''" "jwk_json demo_jwk" demo_jwk "DecodingKey ''key''"
proof
  show "jwt_decode ref_lib now de (input @ ''.'' @ base64url_encode ref_lib signature) (DecodingKey ''key'') v = Inr m"
    if "input = base64url_encode ref_lib (json_text demo_browser (proof_header (jwk_json demo_jwk))) @ ''.'' @
          base64url_encode ref_lib (json_text demo_browser (JObj m))"
      "subtle_sign demo_browser ''key'' i input = Inr signature" "v_algorithm v = ES256" "de m = None"
      "set (required_spec_claims v) \<subseteq> set (map fst m)" "exp_ok now v m" "iss_ok v m" "aud_ok v m"
    for input m i signature v de now
    using that demo_client_parts [of m "''key''"] by (simp add: piece_def del: put_json.simps)
  show "\<exists>ms. jwk_json demo_jwk = JObj ms \<and> \<not> contains_key ms ''d'' \<and> \<not> contains_key ms ''k''"
    by (simp add: jwk_json_def demo_jwk_def contains_key_def)
  show "public_key demo_jwk" by (simp add: public_key_def demo_jwk_def is_private_op_def)
  show "decode_header ref_lib (base64url_encode ref_lib (json_text demo_browser (proof_header (jwk_json demo_jwk))) @ ''.'' @
      base64url_encode ref_lib (json_text demo_browser (JObj m)) @ ''.'' @ base64url_encode ref_lib q) =
      Inr \<lparr> header_typ = Some ''dpop+jwt'', alg = ES256, jwk_member = Some demo_jwk \<rparr>" for m q
    using demo_client_parts [of m q] by (simp add: ref_decode_header_def piece_def del: put_json.simps)
qed (simp_all add: base64url_round_trip base64url_no_dot json_round_trip ref_decoding_key_from_jwk_def demo_jwk_def)

section \<open>Properties\<close>

text \<open>The proofs of the browser client are the ones the library accepts: what \<open>generate_proof\<close>
  signs for a method, a URL, an access token and a nonce passes \<open>validate_dpop_proof\<close> for a request
  with that method, URL and token, at any time within the clock skew, when the server issued the
  nonce and has not seen the identifier; the server then reads back the claims the client wrote
  and the thumbprint of the client's key.\<close>

theorem client_proof_round_trip:
  assumes "web_key L B sk jwk k dk" and "subtle_laws L" and "moka M entries ttl capacity"
    and gen: "generate_proof L B t i sk jwk meth url token n = Ok pf" and "length pf \<le> 8192"
    and ctx: "proof_jwt ctx = pf" "ES256 \<in> set (ctx_allowed_algs ctx)" "expected_htm ctx = meth"
      "same_target L url (expected_htu ctx)" "access_token ctx = token"
    and "fresh_at (as_secs t) (as_secs now) (as_secs (ctx_clock_skew ctx))"
    and "jwk_thumbprint L k = Some tp"
    and "case n of None \<Rightarrow> \<not> ctx_nonce_required ctx | Some v \<Rightarrow> cache_contains M now v (nonce_cache s)"
    and "cache_get M now (client_uuid B i) (jti_cache s) = None"
  shows "validate_dpop_proof L M now ctx s =
    (Ok \<lparr> vp_jwk = k, vp_claims = client_claims L B t i meth url token n, vp_thumbprint = tp \<rparr>,
     s\<lparr>jti_cache := cache_insert M now (client_uuid B i) True (jti_cache s)\<rparr>)"
proof -
  have "rfc9449_proof L now ctx \<lparr> vp_jwk = k, vp_claims = client_claims L B t i meth url token n, vp_thumbprint = tp \<rparr>"
    using web_key.client_proof_valid [OF assms(1) gen] assms by simp
  moreover have "bound_to_token L ctx (client_claims L B t i meth url token n)"
    using ctx(5) by (simp add: bound_to_token_def client_claims_def split: option.splits)
  moreover have "nonce_accepted M now ctx (client_claims L B t i meth url token n) (nonce_cache s)"
    using assms(13) by (simp add: nonce_accepted_def client_claims_def)
  ultimately show ?thesis
    using assms(14) by (simp add: validate_Ok_iff [OF assms(2)] moka.or_insert [OF assms(3)] client_claims_def)
qed

text \<open>A network that counts the requests.\<close>

definition counted :: "'s network \<Rightarrow> (nat \<times> 's) network" where
  "counted fetch now fr st = (case fetch now fr (snd st) of (r, net) \<Rightarrow> (r, (fst st + 1, net)))"

lemma counted_apply: "counted fetch now fr (c, st) = (case fetch now fr st of (r, net) \<Rightarrow> (r, (c + 1, net)))"
  by (simp add: counted_def)

lemma attempts_bounded:
  "fst (snd (snd (dpop_attempts L B clock (counted fetch) sk jwk meth url token req_body rounds n (i, c, net)))) \<le> c + rounds"
proof (induction rounds arbitrary: n i c net)
  case (Suc rounds)
  have "fst (snd (snd (dpop_attempts L B clock (counted fetch) sk jwk meth url token req_body rounds n' (i', c + 1, net')))) \<le> c + Suc rounds"
    for n' i' net' using Suc [of n' i' "c + 1" net'] by simp
  then show ?case
    by (auto simp: counted_apply split: res.splits prod.splits sum.splits option.splits)
qed simp

text \<open>C39. The loop of the client ends: whatever the server answers, a call makes at most two requests,
  and against a server that challenges every request it makes exactly two and gives up with an
  error.\<close>

theorem client_stops:
  "case dpop_requests L B clock (counted fetch) sk jwk meth url token req_body (i, 0, net) of
     (r, _, requests, _) \<Rightarrow> requests \<le> 2 \<and>
       ((\<forall>now fr st. \<exists>resp st'. fetch now fr st = (Inr resp, st') \<and> nonce_challenged resp \<noteq> None) \<and>
        (\<forall>t j n. \<exists>pf. generate_proof L B t j sk jwk meth url token n = Ok pf) \<and> (\<forall>v. set_header_fault B v = None) \<and> has_window B \<longrightarrow>
        requests = 2 \<and> r = Err ''nonce retry limit reached'')"
proof -
  have step: "\<exists>n' net'. dpop_attempts L B clock (counted fetch) sk jwk meth url token req_body (Suc rounds) n (j, c, net) =
      dpop_attempts L B clock (counted fetch) sk jwk meth url token req_body rounds n' (j + 1, c + 1, net')"
    if challenge: "\<forall>now fr st. \<exists>resp st'. fetch now fr st = (Inr resp, st') \<and> nonce_challenged resp \<noteq> None"
      and sign: "\<forall>t j n. \<exists>pf. generate_proof L B t j sk jwk meth url token n = Ok pf"
      and browser: "\<forall>v. set_header_fault B v = None" "has_window B"
    for rounds n j c net
  proof -
    obtain pf where pf: "generate_proof L B (clock j) j sk jwk meth url token n = Ok pf" using sign by blast
    define fr where "fr = \<lparr> fr_method = meth, fr_url = url, fr_headers = request_headers pf token req_body, fr_body = req_body \<rparr>"
    obtain resp net' fresh where f: "fetch (clock j) fr net = (Inr resp, net')" "nonce_challenged resp = Some fresh"
      using challenge by blast
    have "find (\<lambda>(_, v). set_header_fault B v \<noteq> None) hs = None" for hs :: "(string \<times> string) list"
      using browser(1) by (auto simp: find_None_iff)
    then have "set_headers B hs = Ok hs" for hs unfolding set_headers_def by simp
    with pf f browser(2)
    have "dpop_attempts L B clock (counted fetch) sk jwk meth url token req_body (Suc rounds) n (j, c, net) =
      dpop_attempts L B clock (counted fetch) sk jwk meth url token req_body rounds (Some fresh) (j + 1, c + 1, net')"
      by (simp add: counted_apply fr_def)
    then show ?thesis by blast
  qed
  obtain r j requests net' where run:
    "dpop_requests L B clock (counted fetch) sk jwk meth url token req_body (i, 0, net) = (r, j, requests, net')"
    by (metis prod.exhaust)
  have "requests \<le> 2"
    using attempts_bounded [of L B clock fetch sk jwk meth url token req_body 2 None i 0 net] run
    by (simp add: dpop_requests_def)
  moreover have "requests = 2 \<and> r = Err ''nonce retry limit reached''"
    if asm: "\<forall>now fr st. \<exists>resp st'. fetch now fr st = (Inr resp, st') \<and> nonce_challenged resp \<noteq> None"
      "\<forall>t j n. \<exists>pf. generate_proof L B t j sk jwk meth url token n = Ok pf" "\<forall>v. set_header_fault B v = None" "has_window B"
  proof -
    obtain n1 net1 where 1: "dpop_requests L B clock (counted fetch) sk jwk meth url token req_body (i, 0, net) =
        dpop_attempts L B clock (counted fetch) sk jwk meth url token req_body 1 n1 (i + 1, 1, net1)"
      using step [OF asm, of 1 None i 0 net] by (auto simp: dpop_requests_def numeral_2_eq_2)
    obtain n2 net2 where "dpop_attempts L B clock (counted fetch) sk jwk meth url token req_body 1 n1 (i + 1, 1, net1) =
        dpop_attempts L B clock (counted fetch) sk jwk meth url token req_body 0 n2 (i + 1 + 1, 1 + 1, net2)"
      using step [OF asm, of 0 n1 "i + 1" 1 net1] by auto
    with 1 run show ?thesis by simp
  qed
  ultimately show ?thesis using run by auto
qed

text \<open>C33. The browser client gets through a layer that requires nonces: the first request is challenged,
  the second carries the nonce of the challenge, the handler runs once with the session of the
  access token, and the client returns the handler's response.\<close>

theorem client_answers_challenge:
  assumes key: "web_key L B sk jwk k dk" "jwk_thumbprint L k = Some (conf_jkt (t_cnf claims))"
    and laws: "subtle_laws L" "moka M entries ttl capacity"
    and cfg: "nonce_required cfg" "ES256 \<in> set (allowed_algs cfg)" "same_target L url (build_htu (public_url cfg) path)"
    and token: "verify_with_config L (clock i) cfg token = Ok claims" "verify_with_config L (clock (i + 1)) cfg token = Ok claims"
    and fresh: "fresh = uuid_to_string L (new_v4 L (draws s))" "header_value_ok L fresh"
    and proofs: "generate_proof L B (clock i) i sk jwk meth url (Some token) None = Ok pf"
      "generate_proof L B (clock (i + 1)) (i + 1) sk jwk meth url (Some token) (Some fresh) = Ok pf'"
      "length pf \<le> 8192" "length pf' \<le> 8192"
    and headers: "\<forall>v\<in>{pf, pf', ''DPoP '' @ token}. set_header_fault B v = None \<and> header_to_str L v = Some v"
    and caches: "card (dom (entries (nonce_cache s))) < capacity (nonce_cache s)" "ttl (nonce_cache s) = NONCE_TTL"
      "cache_get M (clock (i + 1)) (client_uuid B (i + 1)) (jti_cache s) = None"
    and time: "clock i \<le> clock (i + 1)" "clock (i + 1) < clock i + NONCE_TTL"
    and inner: "\<And>req. req_session req = Some \<lparr> s_sub = t_sub claims, s_jti = t_jti claims, s_jkt = conf_jkt (t_cnf claims),
        s_extra = t_extra claims \<rparr> \<Longrightarrow> inner req app = (resp, app')"
      "nonce_challenged resp = None" "body_text B (resp_body resp) = Inr (Some answer)"
  shows "\<exists>s'. dpop_requests L B clock (layer_network L M cfg inner path) sk jwk meth url (Some token) None (i, s, app) =
    (Ok \<lparr> dr_status = status resp, dr_headers = resp_headers resp, dr_text = answer \<rparr>, i + 2, s', app')"
proof -
  let ?fr = "\<lambda>p. \<lparr> fr_method = meth, fr_url = url, fr_headers = request_headers p (Some token) None, fr_body = None \<rparr>"
  let ?s = "s\<lparr>nonce_cache := cache_insert M (clock i) fresh True (nonce_cache s), draws := draws s + 1\<rparr>"
  let ?vp = "\<lambda>j n. \<lparr> vp_jwk = k, vp_claims = client_claims L B (clock j) j meth url (Some token) n,
      vp_thumbprint = conf_jkt (t_cnf claims) \<rparr>"
  have valid: "rfc9449_proof L (clock j) (resource_context cfg token p meth path) (?vp j n)"
    if "generate_proof L B (clock j) j sk jwk meth url (Some token) n = Ok p" "length p \<le> 8192" for j n p
    by (rule web_key.client_proof_valid [OF key(1) that(1,2) _ _ _ _ _ key(2)])
      (simp_all add: resource_context_def cfg fresh_at_def)
  have ext: "extract_request L (request_of path (?fr p)) = Ok (token, p, meth, path)" if "p \<in> {pf, pf'}" for p
    using that headers by (intro extract_client_request) auto
  have hs: "set_headers B (request_headers p (Some token) None) = Ok (request_headers p (Some token) None)" if "p \<in> {pf, pf'}" for p
    using that headers by (auto simp: set_headers_def request_headers_def)
  have "(dpop_service_call L M (clock i) cfg inner (request_of path (?fr pf)) (s, app) :: (unit, response) res \<times> _) =
      (Ok (dpop_into_response L (ResourceNonceRequired fresh)), (?s, app))"
    using layer_challenges [OF laws(2) token(1) ext valid [OF proofs(1,3)] _ cfg(1), where s = s and inner = inner and app = app] fresh(1)
    by (simp add: client_claims_def Let_def)
  then have first: "layer_network L M cfg inner path (clock i) (?fr pf) (s, app) =
      (Inr (dpop_into_response L (ResourceNonceRequired fresh)), (?s, app))"
    by (simp add: layer_network_def)
  have "cache_get M (clock (i + 1)) fresh (nonce_cache ?s) \<noteq> None"
    using moka.insert_visible [OF laws(2) caches(1) time(1)] time(2) caches(2) by simp
  with caches(3) have "\<exists>s'. (dpop_service_call L M (clock (i + 1)) cfg inner (request_of path (?fr pf')) (?s, app) :: (unit, response) res \<times> _) =
      (Ok resp, (s', app'))"
    by (intro layer_accepts [OF laws token(2) ext valid [OF proofs(2,4)]] inner(1))
      (simp_all add: client_claims_def nonce_accepted_def moka.contains_get [OF laws(2)])
  then obtain s' where "(dpop_service_call L M (clock (i + 1)) cfg inner (request_of path (?fr pf')) (?s, app) :: (unit, response) res \<times> _) =
      (Ok resp, (s', app'))"
    by blast
  then have second: "layer_network L M cfg inner path (clock (i + 1)) (?fr pf') (?s, app) = (Inr resp, (s', app'))"
    by (simp add: layer_network_def)
  have "nonce_challenged (dpop_into_response L (ResourceNonceRequired fresh)) = Some fresh"
    using fresh(2) by (simp add: nonce_challenged_def expose_def insert_nonce_def status_defs header_name_defs)
  then show ?thesis
    using proofs(1,2) hs first second inner(2,3) web_key.window [OF key(1)]
    by (simp add: dpop_requests_def numeral_2_eq_2)
qed

section \<open>The properties on the concrete browser\<close>

abbreviation demo_generate :: "instant \<Rightarrow> nat \<Rightarrow> string \<Rightarrow> string \<Rightarrow> string option \<Rightarrow> string option \<Rightarrow> (js_error, string) res" where
  "demo_generate t i \<equiv> generate_proof ref_lib demo_browser t i ''key'' (jwk_json demo_jwk)"

definition demo_client_pf :: "instant \<Rightarrow> nat \<Rightarrow> string \<Rightarrow> string \<Rightarrow> string option \<Rightarrow> string option \<Rightarrow> string" where
  "demo_client_pf t i meth url token n =
     piece (put_json (proof_header (jwk_json demo_jwk))) @ ''.'' @
     piece (put_json (JObj (proof_members ref_lib meth url (as_secs t) (CHR ''c'' # digits_of i) token n))) @ ''.'' @ piece ''key''"

lemma demo_generate_Ok: "demo_generate t i meth url token n = Ok (demo_client_pf t i meth url token n)"
  by (simp add: generate_proof_def client_sign_def build_proof_signing_input_def demo_client_pf_def piece_def Let_def
      del: put_json.simps)

lemma length_put_bits: "n < 2 ^ k \<Longrightarrow> length (put_bits n) \<le> k"
proof (induction k arbitrary: n)
  case (Suc k)
  then have "length (put_bits (n div 2)) \<le> k" by (simp add: less_mult_imp_div_less mult.commute)
  then show ?case by (subst put_bits.simps) simp
qed (simp add: put_bits.simps)

lemma demo_client_length:
  assumes "length meth \<le> 10" and "length url \<le> 100" and "i < 10" and "n = None \<or> n = Some v" and "length v \<le> 100"
  shows "length (demo_client_pf t i meth url token n) \<le> 8192"
proof -
  let ?m = "proof_members ref_lib meth url (as_secs t) (CHR ''c'' # digits_of i) token n"
  have digit: "length (digits_of i) = 1" using assms(3) by (subst digits_of.simps) simp
  have "length (put_bits (nat (uint (as_secs t)))) \<le> 64"
    using unat_u64_bound [of "as_secs t"] by (intro length_put_bits) simp
  then have "length (put_int (uint (as_secs t))) \<le> 200" by (simp add: put_int_def)
  moreover have "length (client_compute_ath ref_lib u) = 43" for u
    by (simp add: client_compute_ath_def ref_base64url_length ref_sha256_def)
  ultimately have "length (put_json (JObj ?m)) \<le> 1000"
    using assms digit by (cases token) (auto simp: proof_members_def)
  then have "length (piece (put_json (JObj ?m))) \<le> 2000"
    unfolding piece_def ref_base64url_length by linarith
  moreover have "length (put_json (proof_header (jwk_json demo_jwk))) \<le> 500"
    by (simp add: proof_header_def demo_jwk_def jwk_json_def)
  then have "length (piece (put_json (proof_header (jwk_json demo_jwk)))) \<le> 1000"
    unfolding piece_def ref_base64url_length by linarith
  moreover have "length (piece ''key'') = 4" by (simp add: piece_def ref_base64url_length)
  ultimately show ?thesis by (simp add: demo_client_pf_def del: put_json.simps)
qed

lemma base64url_visible: "c \<in> set (ref_base64url_encode s) \<Longrightarrow> visible_ascii c"
proof -
  have "list_all visible_ascii base64url_alphabet" by (simp add: base64url_alphabet_def visible_ascii_def)
  then have *: "visible_ascii (sextet n)" if "n < 64" for n
    using that alphabet_facts(1) by (simp add: sextet_def list_all_length)
  assume "c \<in> set (ref_base64url_encode s)"
  then show ?thesis
    by (induction s rule: ref_base64url_encode.induct) (auto simp: Let_def * sextet_bounds)
qed

lemma jwt_text_visible: "c \<in> set (piece h @ ''.'' @ piece p @ ''.'' @ piece q) \<Longrightarrow> visible_ascii c"
  using base64url_visible by (auto simp: piece_def) (simp add: visible_ascii_def)

lemma demo_client_visible: "c \<in> set (demo_client_pf t i meth url token n) \<Longrightarrow> visible_ascii c"
  unfolding demo_client_pf_def by (rule jwt_text_visible)

lemma demo_token_visible: "c \<in> set demo_access_token \<Longrightarrow> visible_ascii c"
  unfolding demo_access_token_def ref_jwt_encode.simps sum.sel by (rule jwt_text_visible)

lemma same_target_self: "normalize_htu L u = Ok v \<Longrightarrow> same_target L u u"
  by (simp add: same_target_def)

lemma demo_target: "same_target ref_lib ''https://api.test/me'' ''https://api.test/me''"
  by (rule same_target_self) (simp add: normalize_htu_def ref_url_parse_def strip_prefix_def)

definition demo_client_ctx :: validation_context where
  "demo_client_ctx =
     \<lparr> proof_jwt = demo_client_pf (from_secs 1000) 0 ''POST'' ''https://api.test/me'' None None, expected_htm = ''POST'',
       expected_htu = ''https://api.test/me'', access_token = None, ctx_nonce_required = False,
       ctx_clock_skew = from_secs 60, ctx_allowed_algs = [ES256] \<rparr>"

theorem client_proof_round_trip_witness:
  "fst (validate_dpop_proof ref_lib ref_ops (from_secs 1020) demo_client_ctx demo_caches) =
     Ok \<lparr> vp_jwk = demo_jwk,
          vp_claims = client_claims ref_lib demo_browser (from_secs 1000) 0 ''POST'' ''https://api.test/me'' None None,
          vp_thumbprint = demo_jkt \<rparr>"
proof -
  have "fresh_at (as_secs (from_secs 1000)) (as_secs (from_secs 1020)) (as_secs (from_secs 60))"
    using as_secs_from_secs [of 1000] as_secs_from_secs [of 1020] as_secs_from_secs [of 60] by (simp add: fresh_at_def)
  moreover have "length (demo_client_pf (from_secs 1000) 0 ''POST'' ''https://api.test/me'' None None) \<le> 8192"
    by (rule demo_client_length [where v = "[]"]) simp_all
  moreover have "jwk_thumbprint ref_lib demo_jwk = Some demo_jkt"
    by (simp add: demo_jkt_def ref_jwk_thumbprint_def)
  ultimately show ?thesis
    using client_proof_round_trip [OF demo_key.web_key_axioms ref_subtle.subtle_laws_axioms ref_cache.moka_axioms
        demo_generate_Ok, of "from_secs 1000" 0 "''POST''" "''https://api.test/me''" None None demo_client_ctx "from_secs 1020"
        demo_jkt demo_caches] demo_target
    by (simp add: demo_client_ctx_def demo_caches_simps)
qed

theorem client_stops_witness:
  "case dpop_requests ref_lib demo_browser from_secs
      (counted (\<lambda>now fr st. (Inr (dpop_into_response ref_lib (ResourceNonceRequired ''n'')), st)))
      ''key'' (jwk_json demo_jwk) ''GET'' ''https://api.test/me'' None None (0, 0, ()) of
     (r, _, requests, _) \<Rightarrow> requests = 2 \<and> r = Err ''nonce retry limit reached''"
proof -
  have "nonce_challenged (dpop_into_response ref_lib (ResourceNonceRequired ''n'')) \<noteq> None"
    by (simp add: nonce_challenged_def expose_def insert_nonce_def status_defs header_name_defs visible_ascii_def)
  then show ?thesis
    using client_stops [where L = ref_lib and B = demo_browser and clock = from_secs and
        fetch = "\<lambda>now fr st. (Inr (dpop_into_response ref_lib (ResourceNonceRequired ''n'')), st)" and sk = "''key''" and
        jwk = "jwk_json demo_jwk" and meth = "''GET''" and url = "''https://api.test/me''" and token = None and
        req_body = None and i = 0 and net = "()"] demo_generate_Ok
    by (auto split: prod.splits)
qed

definition demo_nonce_config :: dpop_config where
  "demo_nonce_config = demo_config\<lparr>nonce_required := True\<rparr>"

definition demo_clock :: "nat \<Rightarrow> instant" where
  "demo_clock i = from_secs (1010 + i)"

lemma demo_token_verifies:
  assumes "t \<in> {1010, 1011}"
  shows "verify_with_config ref_lib (from_secs t) demo_nonce_config demo_access_token =
    Ok (issued_claims ref_lib (from_secs 1000) 3 (issuer demo_config) (audience demo_config)
          (access_token_ttl demo_config) ''user'' demo_jkt [])"
  using verify_issued [OF ref_jwt.jwt_laws_axioms _ _ _ demo_issue, of "signer_decoding_key (signer demo_config)"
      "from_secs t" "clock_skew demo_config"] assms
    as_secs_from_secs [of 1010] as_secs_from_secs [of 1011] as_secs_from_secs [of 1000] as_secs_from_secs [of 900]
  by (auto simp: verify_with_config_def demo_config_def demo_nonce_config_def)

theorem client_answers_challenge_witness:
  "case dpop_requests ref_lib demo_browser demo_clock
      (layer_network ref_lib ref_ops demo_nonce_config demo_inner ''/me'') ''key'' (jwk_json demo_jwk) ''GET''
      ''https://api.test/me'' (Some demo_access_token) None (0, demo_caches, []) of
     (r, _, _, handled) \<Rightarrow> r = Ok \<lparr> dr_status = 200, dr_headers = [], dr_text = [] \<rparr> \<and> handled = [''user'']"
proof -
  let ?claims = "issued_claims ref_lib (from_secs 1000) 3 (issuer demo_config) (audience demo_config)
      (access_token_ttl demo_config) ''user'' demo_jkt []"
  let ?pf = "\<lambda>i. demo_client_pf (demo_clock i) i ''GET'' ''https://api.test/me'' (Some demo_access_token)"
  have len: "length (?pf 0 None) \<le> 8192" "length (?pf (0 + 1) (Some ''0'')) \<le> 8192"
    by (rule demo_client_length [where v = "''0''"], simp_all)+
  have target: "same_target ref_lib ''https://api.test/me'' (build_htu (public_url demo_nonce_config) ''/me'')"
    using demo_target by (simp add: build_htu_def demo_nonce_config_def demo_config_def trim_end_matches_def)
  have headers: "\<forall>v\<in>{?pf 0 None, ?pf (0 + 1) (Some ''0''), ''DPoP '' @ demo_access_token}.
      set_header_fault demo_browser v = None \<and> header_to_str ref_lib v = Some v"
    using demo_client_visible demo_token_visible by (auto simp: visible_ascii_def)
  have caches: "card (dom (ref_lookup (nonce_cache demo_caches))) < ref_capacity (nonce_cache demo_caches)"
    "ref_ttl (nonce_cache demo_caches) = NONCE_TTL"
    by (simp_all add: demo_caches_def create_nonce_cache_def ref_cache.entries_build dom_def
        ref_cache.capacity_build ref_cache.ttl_build CACHE_CAPACITY_def)
  have time: "demo_clock 0 \<le> demo_clock (0 + 1)" "demo_clock (0 + 1) < demo_clock 0 + NONCE_TTL"
    by (simp_all add: demo_clock_def from_secs_def NONCE_TTL_def NANOS_PER_SEC_def)
  have token: "verify_with_config ref_lib (demo_clock 0) demo_nonce_config demo_access_token = Ok ?claims"
    "verify_with_config ref_lib (demo_clock (0 + 1)) demo_nonce_config demo_access_token = Ok ?claims"
    by (simp_all add: demo_clock_def demo_token_verifies)
  have cfg: "nonce_required demo_nonce_config" "ES256 \<in> set (allowed_algs demo_nonce_config)"
    "''0'' = uuid_to_string ref_lib (new_v4 ref_lib (draws demo_caches))"
    by (simp_all add: demo_nonce_config_def demo_config_def demo_caches_def digits_0)
  have "\<exists>s'. dpop_requests ref_lib demo_browser demo_clock
      (layer_network ref_lib ref_ops demo_nonce_config demo_inner ''/me'') ''key'' (jwk_json demo_jwk) ''GET''
      ''https://api.test/me'' (Some demo_access_token) None (0, demo_caches, []) =
      (Ok \<lparr> dr_status = status (response_of 200 EmptyBody), dr_headers = resp_headers (response_of 200 EmptyBody), dr_text = [] \<rparr>,
       0 + 2, s', [''user''])"
    by (rule client_answers_challenge [OF demo_key.web_key_axioms _ ref_subtle.subtle_laws_axioms ref_cache.moka_axioms
          cfg(1,2) target token cfg(3) _ demo_generate_Ok demo_generate_Ok len headers caches _ time])
      (simp_all add: demo_caches_simps demo_inner_def issued_claims_def demo_jkt_def
        ref_jwk_thumbprint_def nonce_challenged_def visible_ascii_def response_of_def)
  then show ?thesis by (auto simp: response_of_def)
qed

end
