(* ===== verification/Server_Example.thy ===== *)
theory Server_Example
  imports Service_Machine Auth_Properties Web_Client
begin

text \<open>
  The demo server \<open>examples/server/src/lib.rs\<close>: registration, login and a protected resource over
  the service and the layer. The state is the pair of the DPoP caches and the world of the service.
  What axum itself answers (no route, wrong method, a body it cannot read, CORS) is the parameter
  \<open>axum\<close>; \<open>Server_Start\<close> starts it.
\<close>

section \<open>Data\<close>

record app_state =
  app_config :: dpop_config
  app_auth_service :: auth_service

record register_request =
  rr_kind :: string
  rr_value :: string
  rr_password :: string
  rr_name :: string

record login_request =
  lr_kind :: string
  lr_value :: string
  lr_password :: string

definition default_name :: string where
  "default_name = ''User''"

record token_response =
  resp_access_token :: string
  resp_refresh_token :: string
  resp_token_type :: string
  resp_expires_in :: u64

text \<open>The derived \<open>Deserialize\<close> and \<open>Serialize\<close>. \<open>serde_json\<close> also reads a structure from an array of its
  fields in their order.\<close>

definition register_request_of :: "json \<Rightarrow> json \<Rightarrow> json \<Rightarrow> string + string \<Rightarrow> string + register_request" where
  "register_request_of jk jv jp name =
     sum_bind (de_string jk) (\<lambda>k. sum_bind (de_string jv) (\<lambda>v. sum_bind (de_string jp) (\<lambda>p. sum_bind name (\<lambda>n.
     Inr \<lparr> rr_kind = k, rr_value = v, rr_password = p, rr_name = n \<rparr>))))"

fun de_register_request :: "json \<Rightarrow> string + register_request" where
  "de_register_request (JObj m) =
     sum_bind (de_field de_string ''kind'' m) (\<lambda>k.
     sum_bind (de_field de_string ''value'' m) (\<lambda>v.
     sum_bind (de_field de_string ''password'' m) (\<lambda>p.
     sum_bind (if contains_key m ''name'' then de_field de_string ''name'' m else Inr default_name) (\<lambda>n.
     Inr \<lparr> rr_kind = k, rr_value = v, rr_password = p, rr_name = n \<rparr>))))"
| "de_register_request (JArr [k, v, p]) = register_request_of k v p (Inr default_name)"
| "de_register_request (JArr [k, v, p, n]) = register_request_of k v p (de_string n)"
| "de_register_request _ = Inl (invalid_type ''expected struct RegisterRequest'')"

fun de_login_request :: "json \<Rightarrow> string + login_request" where
  "de_login_request (JObj m) =
     sum_bind (de_field de_string ''kind'' m) (\<lambda>k.
     sum_bind (de_field de_string ''value'' m) (\<lambda>v.
     sum_bind (de_field de_string ''password'' m) (\<lambda>p.
     Inr \<lparr> lr_kind = k, lr_value = v, lr_password = p \<rparr>)))"
| "de_login_request (JArr [jk, jv, jp]) =
     sum_bind (de_string jk) (\<lambda>k. sum_bind (de_string jv) (\<lambda>v. sum_bind (de_string jp) (\<lambda>p.
     Inr \<lparr> lr_kind = k, lr_value = v, lr_password = p \<rparr>)))"
| "de_login_request _ = Inl (invalid_type ''expected struct LoginRequest'')"

definition token_response_json :: "token_response \<Rightarrow> json" where
  "token_response_json r =
     JObj [(''access_token'', JStr (resp_access_token r)), (''refresh_token'', JStr (resp_refresh_token r)),
           (''token_type'', JStr (resp_token_type r)), (''expires_in'', JNum (uint (resp_expires_in r)))]"

definition token_response_of :: "token_pair \<Rightarrow> token_response" where
  "token_response_of tokens =
     \<lparr> resp_access_token = tp_access_token tokens, resp_refresh_token = tp_refresh_token tokens,
       resp_token_type = tp_token_type tokens, resp_expires_in = tp_expires_in tokens \<rparr>"

definition CREATED :: nat where "CREATED = 201"
definition OK_STATUS :: nat where "OK_STATUS = 200"

definition service_error_response :: "service_error \<Rightarrow> response" where
  "service_error_response e =
     (let st = (case e of Unauthorized \<Rightarrow> UNAUTHORIZED | Conflict _ \<Rightarrow> CONFLICT | RegistrationDisabled \<Rightarrow> FORBIDDEN
                | Validation _ \<Rightarrow> BAD_REQUEST | ServiceInternal _ \<Rightarrow> INTERNAL_SERVER_ERROR)
      in response_of st (JsonBody (JObj [(''error'', JStr (service_error_to_string e))])))"

section \<open>Handlers\<close>

type_synonym ('c, 'g, 'r) server_act = "('c caches \<times> ('g, 'r) world, unit, response) act"

text \<open>The first \<open>DPoP\<close> header, as \<open>HeaderMap::get\<close> returns it, and its validation for a request of the
  authorization server: the part \<open>register\<close> and \<open>login\<close> have in common. The continuation gets the
  validated proof.\<close>

definition proof_header_of :: "lib \<Rightarrow> request \<Rightarrow> (dpop_error, string) res" where
  "proof_header_of L req =
     (case get_all req DPOP_HEADER of
        p # _ \<Rightarrow> ok_or (InvalidSignature ''bad DPoP header'') (header_to_str L p)
      | [] \<Rightarrow> Err MissingHeader)"

definition server_context :: "dpop_config \<Rightarrow> string \<Rightarrow> string \<Rightarrow> validation_context" where
  "server_context cfg pf path =
     \<lparr> proof_jwt = pf,
       expected_htm = ''POST'',
       expected_htu = trim_end_matches CHR ''/'' (public_url cfg) @ path,
       access_token = None,
       ctx_nonce_required = nonce_required cfg,
       ctx_clock_skew = clock_skew cfg,
       ctx_allowed_algs = allowed_algs cfg \<rparr>"

definition with_proof ::
    "lib \<Rightarrow> ('c, string, bool) cache_ops \<Rightarrow> instant \<Rightarrow> app_state \<Rightarrow> request \<Rightarrow>
     (validated_proof \<Rightarrow> ('g, 'r) world \<Rightarrow> (unit, response) res \<times> ('g, 'r) world) \<Rightarrow> ('c, 'g, 'r) server_act" where
  "with_proof L M now app req k st =
     (case proof_header_of L req of
        Err e \<Rightarrow> (Ok (dpop_into_response L e), st)
      | Panic \<Rightarrow> (Panic, st)
      | Ok pf \<Rightarrow>
         (case validate_dpop_proof L M now (server_context (app_config app) pf (req_path req)) (fst st) of
            (Err e, s') \<Rightarrow> (Ok (dpop_into_response L e), (s', snd st))
          | (Panic, s') \<Rightarrow> (Panic, (s', snd st))
          | (Ok validated, s') \<Rightarrow> (case k validated (snd st) of (r, w') \<Rightarrow> (r, (s', w')))))"

definition register_response :: "(service_error, token_pair) res \<Rightarrow> (unit, response) res" where
  "register_response r =
     (case r of
        Ok tokens \<Rightarrow> Ok (response_of CREATED (JsonBody (token_response_json (token_response_of tokens))))
      | Err e \<Rightarrow> Ok (service_error_response e)
      | Panic \<Rightarrow> Panic)"

definition register_handler ::
    "lib \<Rightarrow> ('c, string, bool) cache_ops \<Rightarrow> instant \<Rightarrow> app_state \<Rightarrow> ip_address \<Rightarrow> register_request \<Rightarrow> request \<Rightarrow>
     ('c, 'g, 'r) server_act" where
  "register_handler L M now app addr rbody req =
     with_proof L M now app req (\<lambda>validated w.
       let user_agent = Option.bind (case get_all req ''user-agent'' of [] \<Rightarrow> None | h # _ \<Rightarrow> Some h) (header_to_str L);
           params = \<lparr> reg_kind = rr_kind rbody, reg_value = rr_value rbody, reg_password = rr_password rbody,
                      reg_name = rr_name rbody, reg_jkt = vp_thumbprint validated, reg_client_ip = addr,
                      reg_user_agent = user_agent \<rparr>
       in apfst register_response (register L now (app_auth_service app) params w))"

definition login_response :: "(service_error, login_outcome) res \<Rightarrow> (unit, response) res" where
  "login_response r =
     (case r of
        Ok (Success tokens) \<Rightarrow> Ok (response_of OK_STATUS (JsonBody (token_response_json (token_response_of tokens))))
      | Ok Requires2fa \<Rightarrow> Ok (response_of FORBIDDEN (JsonBody (JObj [(''error'', JStr ''2FA required'')])))
      | Err e \<Rightarrow> Ok (service_error_response e)
      | Panic \<Rightarrow> Panic)"

definition login_handler ::
    "lib \<Rightarrow> ('c, string, bool) cache_ops \<Rightarrow> instant \<Rightarrow> app_state \<Rightarrow> login_request \<Rightarrow> request \<Rightarrow>
     ('c, 'g, 'r) server_act" where
  "login_handler L M now app lbody req =
     with_proof L M now app req (\<lambda>validated w.
       apfst login_response (login L now (app_auth_service app) (lr_kind lbody) (lr_value lbody) (lr_password lbody)
         (vp_thumbprint validated) ''0.0.0.0'' None w))"

definition me_handler :: "lib \<Rightarrow> request \<Rightarrow> response" where
  "me_handler L req =
     (case session_from_request from_extra_unit req of
        Ok session \<Rightarrow> response_of OK_STATUS (JsonBody (JObj [(''jkt'', JStr (d_jkt session)), (''sub'', JStr (d_sub session))]))
      | Err e \<Rightarrow> dpop_into_response L e
      | Panic \<Rightarrow> response_of INTERNAL_SERVER_ERROR EmptyBody)"

section \<open>The application\<close>

text \<open>\<open>json_body\<close> is what the \<open>Json\<close> extractor makes of the body: its own rejection, or the value; the
  rejection of a value that does not deserialize carries the message of serde. \<open>cors_preflight\<close> is
  the answer of the CORS layer to a preflight request, \<open>cors_headers\<close> what it adds to a response.\<close>

record axum =
  json_body :: "request \<Rightarrow> string \<Rightarrow> response + json"
  json_data_error :: "string \<Rightarrow> response"
  not_found :: "request \<Rightarrow> response"
  method_not_allowed :: "request \<Rightarrow> response"
  cors_preflight :: "request \<Rightarrow> response option"
  cors_headers :: "request \<Rightarrow> response \<Rightarrow> response"

definition json_extract :: "axum \<Rightarrow> (json \<Rightarrow> string + 'b) \<Rightarrow> request \<Rightarrow> string \<Rightarrow> response + 'b" where
  "json_extract A de req bytes =
     sum_bind (json_body A req bytes) (\<lambda>j. case de j of Inl e \<Rightarrow> Inl (json_data_error A e) | Inr b \<Rightarrow> Inr b)"

definition create_app ::
    "lib \<Rightarrow> ('c, string, bool) cache_ops \<Rightarrow> 'g grace_ops \<Rightarrow> 'r replay_ops \<Rightarrow> nat \<Rightarrow> nat \<Rightarrow> dpop_config \<Rightarrow>
     ('e, app_state \<times> 'c caches \<times> 'g \<times> 'r) res" where
  "create_app L M G R first_draw i cfg =
     res_bind (dpop_state_new M first_draw cfg) (\<lambda>st.
     let (svc, grace, replay) = auth_service_new L G R i cfg
     in Ok (\<lparr> app_config = config st, app_auth_service = svc \<rparr>, state_caches st, grace, replay))"

text \<open>The routes. \<open>get\<close> answers \<open>HEAD\<close> too, without the body; the layer on \<open>get(me)\<close> also runs before
  the answer to a method without a handler.\<close>

definition me_route :: "lib \<Rightarrow> axum \<Rightarrow> request \<Rightarrow> 'w \<Rightarrow> response \<times> 'w" where
  "me_route L A req w =
     (if req_method req = ''GET'' then me_handler L req
      else if req_method req = ''HEAD'' then (me_handler L req)\<lparr>resp_body := EmptyBody\<rparr>
      else method_not_allowed A req, w)"

definition route ::
    "lib \<Rightarrow> axum \<Rightarrow> ('c, string, bool) cache_ops \<Rightarrow> instant \<Rightarrow> app_state \<Rightarrow> ip_address \<Rightarrow> request \<Rightarrow> string \<Rightarrow>
     ('c, 'g, 'r) server_act" where
  "route L A M now app addr req bytes =
     (if req_path req = ''/api/auth/register'' then
        if req_method req \<noteq> ''POST'' then act_return (method_not_allowed A req)
        else (case json_extract A de_register_request req bytes of
            Inl rejection \<Rightarrow> act_return rejection
          | Inr rbody \<Rightarrow> register_handler L M now app addr rbody req)
      else if req_path req = ''/api/auth/login'' then
        if req_method req \<noteq> ''POST'' then act_return (method_not_allowed A req)
        else (case json_extract A de_login_request req bytes of
            Inl rejection \<Rightarrow> act_return rejection
          | Inr lbody \<Rightarrow> login_handler L M now app lbody req)
      else if req_path req = ''/api/me'' then dpop_service_call L M now (app_config app) (me_route L A) req
      else act_return (not_found A req))"

definition serve ::
    "lib \<Rightarrow> axum \<Rightarrow> ('c, string, bool) cache_ops \<Rightarrow> instant \<Rightarrow> app_state \<Rightarrow> ip_address \<Rightarrow> request \<Rightarrow> string \<Rightarrow>
     ('c, 'g, 'r) server_act" where
  "serve L A M now app addr req bytes st =
     (case cors_preflight A req of
        Some resp \<Rightarrow> (Ok resp, st)
      | None \<Rightarrow>
         (case route L A M now app addr req bytes st of
            (Ok resp, st') \<Rightarrow> (Ok (cors_headers A req resp), st')
          | r \<Rightarrow> r))"

section \<open>Lemmas\<close>

text \<open>The refresh tokens that registration and login store are bound to the key they are called with.\<close>

definition bound_rows :: "string \<Rightarrow> refresh_token_row list \<Rightarrow> tables \<Rightarrow> bool" where
  "bound_rows jkt ts d \<longleftrightarrow> (\<forall>r\<in>set (refresh_tokens d). r \<in> set ts \<or> r_dpop_jkt r = jkt)"

lemma bound_statements:
  "act_keeps (safe (bound_rows jkt ts) c) (find_user_by_identifier L kind value)"
  "act_keeps (safe (bound_rows jkt ts) c) (record_login_attempt L t kind value ip b reason)"
  "act_keeps (safe (bound_rows jkt ts) c) (update_last_login_at L t uid)"
  "act_keeps (safe (bound_rows jkt ts) c) (create_identifier L t uid kind value prim ver)"
  "act_keeps (safe (bound_rows jkt ts) c) (create_user L t name h changed)"
  by (auto simp: find_user_by_identifier_def record_login_attempt_def update_last_login_at_def create_identifier_def
      create_user_def bound_rows_def Let_def keeps_def intro!: safe_query safe_read safe_exec)

lemma bound_create: "p_dpop_jkt p = jkt \<Longrightarrow> act_keeps (safe (bound_rows jkt ts) c) (create_refresh_token L t p)"
  unfolding create_refresh_token_def by (intro safe_query) (auto simp: keeps_def bound_rows_def Let_def)

lemma bound_new_family: "act_keeps (safe (bound_rows jkt ts) c) (new_family L now cfg uid jkt ua)"
  unfolding new_family_def by (intro safe_intros bound_create) simp

lemma bound_issue: "act_keeps (safe (bound_rows jkt ts) c) (issue_user_token L now cfg user jkt')"
  unfolding issue_user_token_def by (rule safe_pure)

lemma bound_login: "act_keeps (safe (bound_rows jkt ts) c) (login L now svc kind value pw jkt ip ua)"
  unfolding login_def issue_session_def authenticate_user_def Let_def
  by (auto intro!: safe_intros bound_statements bound_new_family bound_issue split: option.splits)

lemma bound_register:
  assumes "reg_jkt params = jkt"
  shows "act_keeps (safe (bound_rows jkt ts) c) (register L now svc params)"
  unfolding register_def register_tx_def Let_def assms
  by (auto intro!: safe_intros bound_statements bound_new_family bound_issue split: prod.splits)

lemma bound_end:
  assumes "act_keeps (safe (bound_rows jkt (refresh_tokens (db w))) (totp_replay_cache w)) m" and "tx w = Auto" and "m w = (r, w')"
  shows "bound_rows jkt (refresh_tokens (db w)) (db w')"
  using act_keepsD [OF assms(1) _ assms(3)] assms(2) by (simp add: safe_def bound_rows_def)

lemma proof_header_no_panic: "proof_header_of L req \<noteq> Panic"
  by (auto simp: proof_header_of_def split: list.splits)

text \<open>What \<open>with_proof\<close> guarantees to the rest of a handler.\<close>

lemma with_proof_cases:
  assumes "subtle_laws L" and "with_proof L M now app req k (s, w) = (r, (s', w'))"
  shows "(w' = w \<and> (r = Panic \<or> (\<exists>e. r = Ok (dpop_into_response L e)))) \<or>
    (\<exists>pf vp. proof_header_of L req = Ok pf \<and> rfc9449_proof L now (server_context (app_config app) pf (req_path req)) vp \<and>
       nonce_accepted M now (server_context (app_config app) pf (req_path req)) (vp_claims vp) (nonce_cache s) \<and> k vp w = (r, w'))"
proof (cases "proof_header_of L req")
  case (Ok pf)
  obtain v s1 where v: "validate_dpop_proof L M now (server_context (app_config app) pf (req_path req)) s = (v, s1)"
    by (cases "validate_dpop_proof L M now (server_context (app_config app) pf (req_path req)) s")
  show ?thesis
  proof (cases v)
    case ok: (Ok vp)
    with v have "rfc9449_proof L now (server_context (app_config app) pf (req_path req)) vp"
      "nonce_accepted M now (server_context (app_config app) pf (req_path req)) (vp_claims vp) (nonce_cache s)"
      by (auto simp: validate_Ok_iff [OF assms(1)])
    moreover have "k vp w = (r, w')"
      using assms(2) Ok ok v by (auto simp: with_proof_def split: prod.splits)
    ultimately show ?thesis using Ok by blast
  qed (use assms(2) Ok v in \<open>auto simp: with_proof_def\<close>)
qed (use assms(2) in \<open>auto simp: with_proof_def\<close>)

lemma register_handler_effect:
  assumes "subtle_laws L" and "tx w = Auto" and "register_handler L M now app addr rbody req (s, w) = (r, (s', w'))"
  shows "w' = w \<or> (\<exists>pf vp. proof_header_of L req = Ok pf \<and>
    rfc9449_proof L now (server_context (app_config app) pf (req_path req)) vp \<and>
    service_step L G R (app_auth_service app) w w' \<and> bound_rows (vp_thumbprint vp) (refresh_tokens (db w)) (db w'))"
proof -
  let ?p = "\<lambda>vp. \<lparr> reg_kind = rr_kind rbody, reg_value = rr_value rbody, reg_password = rr_password rbody,
      reg_name = rr_name rbody, reg_jkt = vp_thumbprint vp, reg_client_ip = addr,
      reg_user_agent = Option.bind (case get_all req ''user-agent'' of [] \<Rightarrow> None | h # _ \<Rightarrow> Some h) (header_to_str L) \<rparr>"
  from with_proof_cases [OF assms(1) assms(3) [unfolded register_handler_def]]
  consider "w' = w" | pf vp where "proof_header_of L req = Ok pf"
      "rfc9449_proof L now (server_context (app_config app) pf (req_path req)) vp"
      "snd (register L now (app_auth_service app) (?p vp) w) = w'"
    unfolding Let_def by (metis snd_apfst snd_conv)
  then show ?thesis
  proof cases
    case 2
    obtain out where out: "register L now (app_auth_service app) (?p vp) w = (out, w')" using 2(3) by (metis prod.collapse)
    then have "perform L G R (app_auth_service app) now (Register (?p vp)) w = (TokensOut out, w')" by simp
    then have "service_step L G R (app_auth_service app) w w'" by (rule service_step.step)
    moreover have "bound_rows (vp_thumbprint vp) (refresh_tokens (db w)) (db w')"
      by (rule bound_end [OF bound_register assms(2) out]) simp
    ultimately show ?thesis using 2(1,2) by blast
  qed simp
qed

lemma login_handler_effect:
  assumes "subtle_laws L" and "tx w = Auto" and "login_handler L M now app lbody req (s, w) = (r, (s', w'))"
  shows "w' = w \<or> (\<exists>pf vp. proof_header_of L req = Ok pf \<and>
    rfc9449_proof L now (server_context (app_config app) pf (req_path req)) vp \<and>
    service_step L G R (app_auth_service app) w w' \<and> bound_rows (vp_thumbprint vp) (refresh_tokens (db w)) (db w'))"
proof -
  let ?login = "\<lambda>vp. login L now (app_auth_service app) (lr_kind lbody) (lr_value lbody) (lr_password lbody)
      (vp_thumbprint vp) ''0.0.0.0'' None w"
  from with_proof_cases [OF assms(1) assms(3) [unfolded login_handler_def]]
  consider "w' = w" | pf vp where "proof_header_of L req = Ok pf"
      "rfc9449_proof L now (server_context (app_config app) pf (req_path req)) vp" "snd (?login vp) = w'"
    by (metis snd_apfst snd_conv)
  then show ?thesis
  proof cases
    case 2
    obtain out where out: "?login vp = (out, w')" using 2(3) by (metis prod.collapse)
    then have "perform L G R (app_auth_service app) now (Login (lr_kind lbody) (lr_value lbody) (lr_password lbody)
        (vp_thumbprint vp) ''0.0.0.0'' None) w = (LoginOut out, w')" by simp
    with 2 service_step.step bound_end [OF bound_login assms(2) out] show ?thesis by blast
  qed simp
qed

lemma me_route_state: "snd (me_route L A req w) = w"
  by (simp add: me_route_def)

lemma layer_keeps_world:
  assumes "\<And>req w. snd (inner req w) = w" and "dpop_service_call L M now cfg inner req (s, w) = (r, (s', w'))"
  shows "w' = w"
proof -
  have "inner req w = (resp, app') \<Longrightarrow> app' = w" for req resp app' using assms(1) by (metis snd_conv)
  with assms(2) show ?thesis
    by (auto simp: dpop_service_call_def Let_def split: res.splits prod.splits)
qed

section \<open>Properties\<close>

text \<open>C31. Only the holder of a key changes what the demo server stores. A request leaves the database and
  the caches of the service untouched unless it is a \<open>POST\<close> of a registration or a login with a
  \<open>DPoP\<close> proof that is valid for that very route; then it is one operation of the service, and
  every refresh token it stores is bound to the key of the proof.\<close>

theorem server_changes_need_proof:
  assumes "subtle_laws L" and "tx w = Auto" and "serve L A M now app addr req bytes (s, w) = (r, (s', w'))"
  shows "w' = w \<or>
    (req_method req = ''POST'' \<and> req_path req \<in> {''/api/auth/register'', ''/api/auth/login''} \<and>
     (\<exists>pf vp. proof_header_of L req = Ok pf \<and> rfc9449_proof L now (server_context (app_config app) pf (req_path req)) vp \<and>
        service_step L G R (app_auth_service app) w w' \<and>
        (\<forall>row\<in>set (refresh_tokens (db w')). row \<in> set (refresh_tokens (db w)) \<or> r_dpop_jkt row = vp_thumbprint vp)))"
proof -
  obtain r1 where "w' = w \<or> route L A M now app addr req bytes (s, w) = (r1, (s', w'))"
    using assms(3) by (auto simp: serve_def split: option.splits prod.splits res.splits)
  then show ?thesis
  proof
    assume run: "route L A M now app addr req bytes (s, w) = (r1, (s', w'))"
    show ?thesis
    proof (cases "req_path req \<in> {''/api/auth/register'', ''/api/auth/login''} \<and> req_method req = ''POST''")
      case True
      with run consider "w' = w"
        | rbody where "register_handler L M now app addr rbody req (s, w) = (r1, (s', w'))"
        | lbody where "login_handler L M now app lbody req (s, w) = (r1, (s', w'))"
        by (auto simp: route_def act_return_def split: sum.splits if_splits)
      then show ?thesis
      proof cases
        case 2
        from register_handler_effect [OF assms(1,2) this, of G R] True show ?thesis unfolding bound_rows_def by blast
      next
        case 3
        from login_handler_effect [OF assms(1,2) this, of G R] True show ?thesis unfolding bound_rows_def by blast
      qed simp
    next
      case False
      with run have "w' = w"
        using layer_keeps_world [OF me_route_state] by (auto simp: route_def act_return_def split: if_splits)
      then show ?thesis by simp
    qed
  qed simp
qed

text \<open>C32. A user gets from the password to the protected resource. With the right credentials of an account
  without a second factor and a valid proof, when the store answers, the login route returns a
  token pair; and a \<open>GET\<close> of \<open>/api/me\<close> with that access token and a valid proof of the same key,
  within the lifetime of the token, is answered with the public id of the user and the thumbprint
  of the key.\<close>

theorem login_opens_resource:
  assumes laws: "subtle_laws L" "jwt_laws L key_pair" "moka M entries ttl capacity" "hex_laws L" "reliable L"
    and app: "svc_config (app_auth_service app) = app_config app"
      "key_pair (signer_encoding_key (signer (app_config app))) (signer_decoding_key (signer (app_config app)))"
    and req: "req_method req = ''POST''" "req_path req = ''/api/auth/login''" "json_extract A de_login_request req bytes = Inr lbody"
      "proof_header_of L req = Ok pf" "rfc9449_proof L t0 (server_context (app_config app) pf ''/api/auth/login'') vp"
      "nonce_accepted M t0 (server_context (app_config app) pf ''/api/auth/login'') (vp_claims vp) (nonce_cache s)"
      "cache_get M t0 (jti (vp_claims vp)) (jti_cache s) = None"
    and user: "tx w = Auto" "pg_text (lr_kind lbody)" "pg_text (to_lowercase L (lr_value lbody))"
      "credentials_match L (lr_kind lbody) (lr_value lbody) (lr_password lbody) (db w) user" "\<not> u_totp_enabled user"
    and stored: "new_refresh_secret L (w_draws w + 1) = Ok secret"
      "hash_token L secret \<notin> r_token_hash ` set (refresh_tokens (db w))" "refresh_expiry L t0 (app_config app) = Some expires"
      "pg_text (vp_thumbprint vp)" "char_count (vp_thumbprint vp) \<le> 64"
      "\<And>n. pg_draws w \<le> n \<Longrightarrow> pg_uuid L n \<notin> r_id ` set (refresh_tokens (db w))"
    and access: "issue_access_token L t0 (w_draws w + 3) (signer (app_config app)) (issuer (app_config app)) (audience (app_config app))
        (access_token_ttl (app_config app)) (uuid_to_string L (u_public_id user)) (vp_thumbprint vp) [(''name'', JStr (u_name user))] = Ok access"
    and me: "extract_request L req' = Ok (access, pf', ''GET'', ''/api/me'')"
      "rfc9449_proof L now (resource_context (app_config app) access pf' ''GET'' ''/api/me'') vp'"
      "ath (vp_claims vp') = Some (compute_ath L access)" "vp_thumbprint vp' = vp_thumbprint vp"
      "nonce_accepted M now (resource_context (app_config app) access pf' ''GET'' ''/api/me'') (vp_claims vp') (nonce_cache s')"
      "cache_get M now (jti (vp_claims vp')) (jti_cache s') = None"
      "unat (as_secs now) \<le> min (unat (as_secs t0) + unat (as_secs (access_token_ttl (app_config app)))) (2 ^ 64 - 1)"
  shows "fst (route L A M t0 app addr req bytes (s, w)) =
      Ok (response_of 200 (JsonBody (token_response_json (token_response_of (token_pair_of (app_config app) access secret))))) \<and>
    fst (route L A M now app addr' req' bytes' (s', w')) =
      Ok (response_of 200 (JsonBody (JObj [(''jkt'', JStr (vp_thumbprint vp)), (''sub'', JStr (uuid_to_string L (u_public_id user)))])))"
proof
  let ?c = "issued_claims L t0 (w_draws w + 3) (issuer (app_config app)) (audience (app_config app))
      (access_token_ttl (app_config app)) (uuid_to_string L (u_public_id user)) (vp_thumbprint vp) [(''name'', JStr (u_name user))]"
  obtain s1 where v: "validate_dpop_proof L M t0 (server_context (app_config app) pf ''/api/auth/login'') s = (Ok vp, s1)"
    using req(5-7) by (simp add: validate_Ok_iff [OF laws(1)] moka.or_insert [OF laws(3)] bound_to_token_def server_context_def)
  have "\<exists>w'. login L t0 (app_auth_service app) (lr_kind lbody) (lr_value lbody) (lr_password lbody) (vp_thumbprint vp) ''0.0.0.0'' None w =
      (Ok (Success (token_pair_of (app_config app) access secret)), w')"
    using login_succeeds [OF laws(5) user(1-3), where user = user and svc = "app_auth_service app" and jkt = "vp_thumbprint vp" and
        password = "lr_password lbody" and secret = secret and expires = expires and access = access and now = t0 and ua = None and
        ip = "''0.0.0.0''"]
      user(4,5) stored access hash_token_text [OF laws(4)] app(1) by (simp add: credentials_match_def opt_text_def)
  with v req(1-4) show "fst (route L A M t0 app addr req bytes (s, w)) =
      Ok (response_of 200 (JsonBody (token_response_json (token_response_of (token_pair_of (app_config app) access secret)))))"
    by (auto simp: route_def login_handler_def with_proof_def login_response_def OK_STATUS_def)
  have ver: "verify_with_config L now (app_config app) access = Ok ?c"
    using verify_issued [OF laws(2) app(2) _ _ access, of now "clock_skew (app_config app)"]
      trans_le_add1 [OF me(7), of "unat (as_secs (clock_skew (app_config app)))"]
    by (simp add: verify_with_config_def RESERVED_def split: if_splits)
  have "req_method req' = ''GET''" "req_path req' = ''/api/me''"
    using me(1) by (auto simp: extract_request_Ok_iff)
  then have "\<exists>s2. (dpop_service_call L M now (app_config app) (me_route L A) req' (s', w') :: (unit, response) res \<times> _) =
     (Ok (response_of 200 (JsonBody (JObj [(''jkt'', JStr (vp_thumbprint vp)), (''sub'', JStr (uuid_to_string L (u_public_id user)))]))), (s2, w'))"
    by (intro layer_accepts [OF laws(1,3) ver me(1,2,3,5,6)])
      (simp_all add: issued_claims_def me(4) me_route_def me_handler_def session_from_request_def from_extra_unit_def OK_STATUS_def)
  with \<open>req_path req' = ''/api/me''\<close>
  show "fst (route L A M now app addr' req' bytes' (s', w')) =
      Ok (response_of 200 (JsonBody (JObj [(''jkt'', JStr (vp_thumbprint vp)), (''sub'', JStr (uuid_to_string L (u_public_id user)))])))"
    by (auto simp: route_def)
qed

text \<open>The responses of the demo server to errors of the service have the statuses of the library's own, but
  an internal error shows its details to the client.\<close>

theorem internal_detail_reaches_client:
  "status (service_error_response e) = status (service_into_response e) \<and>
   resp_body (service_error_response (ServiceInternal m)) = JsonBody (JObj [(''error'', JStr (''internal error: '' @ m))]) \<and>
   resp_body (service_into_response (ServiceInternal m)) = JsonBody (JObj [(''error'', JStr ''internal error'')])"
  by (cases e) (simp_all add: service_error_response_def service_into_response_def)

section \<open>A concrete server\<close>

definition demo_axum :: axum where
  "demo_axum =
     \<lparr> json_body = (\<lambda>req bytes. case ref_json_from_slice bytes of Some j \<Rightarrow> Inr j | None \<Rightarrow> Inl (response_of 400 EmptyBody)),
       json_data_error = (\<lambda>e. response_of 422 (Text e)), not_found = (\<lambda>req. response_of 404 EmptyBody),
       method_not_allowed = (\<lambda>req. response_of 405 EmptyBody), cors_preflight = (\<lambda>req. None), cors_headers = (\<lambda>req resp. resp) \<rparr>"

definition demo_app :: app_state where
  "demo_app = \<lparr> app_config = demo_service_config, app_auth_service = demo_service \<rparr>"

definition demo_login_body :: string where
  "demo_login_body =
     put_json (JObj [(''kind'', JStr ''email''), (''value'', JStr ''ann@x''), (''password'', JStr ''pw'')])"

definition demo_login_request :: "string \<Rightarrow> request" where
  "demo_login_request pf =
     \<lparr> req_method = ''POST'', req_path = ''/api/auth/login'', req_headers = [(''dpop'', pf)], req_session = None \<rparr>"

theorem server_changes_need_proof_witness:
  "snd (snd (serve ref_lib demo_axum ref_ops (from_secs 1000) demo_app ''ip'' ((demo_login_request [])\<lparr>req_headers := []\<rparr>)
     demo_login_body (demo_caches, demo_world demo_tables))) = demo_world demo_tables"
proof -
  obtain r s' w' where run: "serve ref_lib demo_axum ref_ops (from_secs 1000) demo_app ''ip''
      ((demo_login_request [])\<lparr>req_headers := []\<rparr>) demo_login_body (demo_caches, demo_world demo_tables) = (r, (s', w'))"
    by (metis prod.collapse)
  have "proof_header_of ref_lib ((demo_login_request [])\<lparr>req_headers := []\<rparr>) = Err MissingHeader"
    by (simp add: proof_header_of_def get_all_def)
  with server_changes_need_proof [OF ref_subtle.subtle_laws_axioms _ run, of ref_ops ref_ops] run
  show ?thesis by auto
qed

definition demo_login_pf :: string where
  "demo_login_pf = demo_client_pf (from_secs 1000) 0 ''POST'' ''https://api.test/api/auth/login'' None None"

definition demo_login_proof :: validated_proof where
  "demo_login_proof =
     \<lparr> vp_jwk = demo_jwk,
       vp_claims = client_claims ref_lib demo_browser (from_secs 1000) 0 ''POST'' ''https://api.test/api/auth/login'' None None,
       vp_thumbprint = demo_jkt \<rparr>"

definition demo_login_secret :: string where
  "demo_login_secret = ref_base64url_encode (replicate 32 (char_of (2 :: nat)))"

definition demo_login_access :: string where
  "demo_login_access =
     projr (ref_jwt_encode \<lparr> header_typ = Some ''JWT'', alg = HS256, jwk_member = None \<rparr>
       (claims_to_members (issued_claims ref_lib (from_secs 1000) 4 ''https://api.test'' ''https://api.test''
          (from_secs 900) (digits_of 101) demo_jkt [(''name'', JStr ''Ann'')]))
       (EncodingKey ''k''))"

definition demo_me_pf :: string where
  "demo_me_pf = demo_client_pf (from_secs 1010) 1 ''GET'' ''https://api.test/api/me'' (Some demo_login_access) None"

definition demo_me_proof :: validated_proof where
  "demo_me_proof =
     \<lparr> vp_jwk = demo_jwk,
       vp_claims = client_claims ref_lib demo_browser (from_secs 1010) 1 ''GET'' ''https://api.test/api/me'' (Some demo_login_access) None,
       vp_thumbprint = demo_jkt \<rparr>"

definition demo_me_request :: request where
  "demo_me_request =
     \<lparr> req_method = ''GET'', req_path = ''/api/me'',
       req_headers = [(''authorization'', ''DPoP '' @ demo_login_access), (''dpop'', demo_me_pf)], req_session = None \<rparr>"

lemma demo_thumbprint: "jwk_thumbprint ref_lib demo_jwk = Some demo_jkt"
  by (simp add: demo_jkt_def ref_jwk_thumbprint_def)

lemma demo_htu:
  "same_target ref_lib ''https://api.test/api/auth/login'' ''https://api.test/api/auth/login''"
  "same_target ref_lib ''https://api.test/api/me'' ''https://api.test/api/me''"
  by (rule same_target_self, simp add: normalize_htu_def ref_url_parse_def strip_prefix_def)+

lemma demo_login_valid:
  "rfc9449_proof ref_lib (from_secs 1000) (server_context demo_service_config demo_login_pf ''/api/auth/login'') demo_login_proof"
  unfolding demo_login_proof_def demo_login_pf_def
  by (rule demo_key.client_proof_valid [OF demo_generate_Ok demo_client_length [where v = "[]"] _ _ _ _ _ demo_thumbprint])
    (simp_all add: server_context_def demo_service_config_def fresh_at_def demo_htu trim_end_matches_def)

lemma demo_me_valid:
  "rfc9449_proof ref_lib (from_secs 1010) (resource_context demo_service_config demo_login_access demo_me_pf ''GET'' ''/api/me'') demo_me_proof"
  unfolding demo_me_proof_def demo_me_pf_def
  by (rule demo_key.client_proof_valid [OF demo_generate_Ok demo_client_length [where v = "[]"] _ _ _ _ _ demo_thumbprint])
    (simp_all add: resource_context_def build_htu_def demo_service_config_def fresh_at_def demo_htu trim_end_matches_def)

lemma demo_login_issued:
  "issue_access_token ref_lib (from_secs 1000) 4 (signer demo_service_config) (issuer demo_service_config)
     (audience demo_service_config) (access_token_ttl demo_service_config) (uuid_to_string ref_lib (u_public_id demo_user))
     demo_jkt [(''name'', JStr (u_name demo_user))] = Ok demo_login_access"
  by (simp add: issue_access_token_Ok_iff demo_service_config_def demo_login_access_def demo_user_def)

lemma demo_login_secret_fresh: "hash_token ref_lib demo_login_secret \<noteq> demo_hash"
proof -
  have "replicate 32 c = c # c # c # replicate 29 c" for c :: char
    using replicate_add [of 3 29 c] by (simp add: numeral_3_eq_3)
  then have "demo_login_secret \<noteq> [] \<and> hd demo_login_secret = sextet 0"
    by (simp add: demo_login_secret_def)
  moreover have "hex_digit (of_char (sextet 0) div 16) = CHR ''4''" by code_simp
  ultimately have "hd (hash_token ref_lib demo_login_secret) = CHR ''4''" by (simp add: hd_ref_hash)
  moreover have "hex_digit (of_char CHR ''s'' div 16) = CHR ''7''" by code_simp
  then have "hd demo_hash = CHR ''7''" by (simp add: demo_hash_def hd_ref_hash del: demo_hash_fold)
  ultimately show ?thesis by auto
qed

lemma demo_jkt_text: "pg_text demo_jkt" "char_count demo_jkt \<le> 64"
proof -
  have jkt: "demo_jkt = ref_base64url_encode (ref_sha256 ''key'')"
    by (simp add: demo_jkt_def ref_jwk_thumbprint_def demo_jwk_def)
  show "pg_text demo_jkt"
    unfolding jkt pg_text_def using base64url_visible by (fastforce simp: visible_ascii_def)
  have "length demo_jkt = 43" unfolding jkt by (simp add: ref_base64url_length ref_sha256_def)
  moreover have "char_count demo_jkt \<le> length demo_jkt" unfolding char_count_def by (rule length_filter_le)
  ultimately show "char_count demo_jkt \<le> 64" by simp
qed

lemma demo_login_visible: "c \<in> set demo_login_access \<Longrightarrow> visible_ascii c"
  unfolding demo_login_access_def ref_jwt_encode.simps sum.sel by (rule jwt_text_visible)

theorem login_opens_resource_witness:
  "fst (route ref_lib demo_axum ref_ops (from_secs 1000) demo_app ''ip'' (demo_login_request demo_login_pf) demo_login_body
      (demo_caches, demo_world demo_tables)) =
     Ok (response_of 200 (JsonBody (token_response_json (token_response_of
       (token_pair_of demo_service_config demo_login_access demo_login_secret))))) \<and>
   fst (route ref_lib demo_axum ref_ops (from_secs 1010) demo_app ''ip'' demo_me_request [] (demo_caches, demo_world demo_tables)) =
     Ok (response_of 200 (JsonBody (JObj [(''jkt'', JStr demo_jkt), (''sub'', JStr (digits_of 101))])))"
proof -
  let ?body = "\<lparr> lr_kind = ''email'', lr_value = ''ann@x'', lr_password = ''pw'' \<rparr>"
  have body: "json_extract demo_axum de_login_request (demo_login_request demo_login_pf) demo_login_body = Inr ?body"
    by (simp add: json_extract_def demo_axum_def demo_login_body_def json_round_trip sum_bind_def de_field_def del: put_json.simps)
  have header: "proof_header_of ref_lib (demo_login_request demo_login_pf) = Ok demo_login_pf"
    using demo_client_visible by (auto simp: proof_header_of_def demo_login_request_def get_all_def DPOP_HEADER_def demo_login_pf_def)
  have lower: "map ascii_lower ''ann@x'' = ''ann@x''" by code_simp
  have cred: "credentials_match ref_lib ''email'' ''ann@x'' ''pw'' demo_tables demo_user"
    using lower by (simp add: credentials_match_def user_by_identifier_def demo_identifier_def strip_prefix_def)
  have texts: "pg_text ''email''" "pg_text (to_lowercase ref_lib ''ann@x'')" using lower by (simp_all add: pg_text_def)
  have secret: "new_refresh_secret ref_lib (w_draws (demo_world demo_tables) + 1) = Ok demo_login_secret"
    by (simp add: new_refresh_secret_def REFRESH_SECRET_LEN_def demo_login_secret_def numeral_2_eq_2)
  have ext: "extract_request ref_lib demo_me_request = Ok (demo_login_access, demo_me_pf, ''GET'', ''/api/me'')"
    using demo_client_visible [of _ "from_secs 1010" 1 "''GET''" "''https://api.test/api/me''" "Some demo_login_access" None] demo_login_visible
    by (auto simp: extract_request_Ok_iff demo_me_request_def get_all_def DPOP_HEADER_def demo_me_pf_def visible_ascii_def)
  have alive: "unat (as_secs (from_secs 1010)) \<le>
      min (unat (as_secs (from_secs 1000)) + unat (as_secs (access_token_ttl (app_config demo_app)))) (2 ^ 64 - 1)"
    using as_secs_from_secs [of 1010] as_secs_from_secs [of 1000] as_secs_from_secs [of 900]
    by (simp add: demo_app_def demo_service_config_def)
  have "fst (route ref_lib demo_axum ref_ops (from_secs 1000) demo_app ''ip'' (demo_login_request demo_login_pf) demo_login_body
      (demo_caches, demo_world demo_tables)) =
     Ok (response_of 200 (JsonBody (token_response_json (token_response_of
       (token_pair_of (app_config demo_app) demo_login_access demo_login_secret))))) \<and>
   fst (route ref_lib demo_axum ref_ops (from_secs 1010) demo_app ''ip'' demo_me_request [] (demo_caches, demo_world demo_tables)) =
     Ok (response_of 200 (JsonBody (JObj [(''jkt'', JStr (vp_thumbprint demo_login_proof)),
       (''sub'', JStr (uuid_to_string ref_lib (u_public_id demo_user)))])))"
    by (rule login_opens_resource [OF ref_subtle.subtle_laws_axioms ref_jwt.jwt_laws_axioms ref_cache.moka_axioms
          ref_hex.hex_laws_axioms demo_reliable _ _ _ _ body header _ _ _ _ _ _ _ _ secret, where vp' = demo_me_proof and
          user = demo_user and access = demo_login_access])
      (use cred texts ext alive demo_month demo_login_valid demo_me_valid demo_login_issued demo_login_secret_fresh demo_jkt_text in
        \<open>simp_all add: demo_app_def demo_login_request_def demo_login_proof_def demo_me_proof_def client_claims_def
          demo_caches_simps nonce_accepted_def server_context_def resource_context_def demo_service_config_def\<close>)
  then show ?thesis by (simp add: demo_app_def demo_login_proof_def demo_user_def)
qed

end
