(* ===== verification/Server_Start.thy ===== *)
theory Server_Start
  imports Server_Example
begin

text \<open>
  The start of the demo server: \<open>store/pool.rs\<close> and \<open>examples/server/src/main.rs\<close>. The environment,
  the database driver with its migrator and the listener are parameters; their state is the
  argument \<open>'o\<close> that the steps hand on, so the order of the effects is the order of the steps.
\<close>

section \<open>The connection pool\<close>

definition MAX_CONNECTIONS :: "32 word" where
  "MAX_CONNECTIONS = 10"

record pool_options =
  max_connections :: "32 word"

record ('o, 'p) driver =
  connect :: "pool_options \<Rightarrow> string \<Rightarrow> ('o, sqlx_error, 'p) act"
  migrate :: "string list \<Rightarrow> 'p \<Rightarrow> ('o, string, unit) act"

definition create_pool :: "('o, 'p) driver \<Rightarrow> string \<Rightarrow> ('o, sqlx_error, 'p) act" where
  "create_pool V database_url = connect V \<lparr> max_connections = MAX_CONNECTIONS \<rparr> database_url"

text \<open>The files of \<open>migrations/\<close>, in the order of their versions, which \<open>migrate!\<close> embeds.\<close>

definition embedded_migrations :: "string list" where
  "embedded_migrations =
     [''20260827135827_create_users'', ''20260828052058_create_refresh_tokens'',
      ''20260828052113_create_login_attempts'', ''20260903100803_create_recovery_codes'',
      ''20260905083831_create_email_outbox'', ''20260905084315_create_email_tokens'']"

definition run_migrations :: "('o, 'p) driver \<Rightarrow> 'p \<Rightarrow> ('o, string, unit) act" where
  "run_migrations V pool = migrate V embedded_migrations pool"

section \<open>The process\<close>

text \<open>\<open>load_dotenv\<close> and \<open>load_file\<close> are \<open>dotenvy::dotenv\<close> and \<open>dotenvy::from_filename\<close>: whether they
  succeeded, and the environment they leave. \<open>listen\<close> binds an address, \<open>serve_on\<close> runs the
  application on the listener until it stops.\<close>

type_synonym environment = "string \<Rightarrow> string option"

record ('o, 'l, 'app) host =
  load_dotenv :: "environment \<Rightarrow> bool \<times> environment"
  load_file :: "string \<Rightarrow> environment \<Rightarrow> bool \<times> environment"
  listen :: "string \<Rightarrow> ('o, string, 'l) act"
  serve_on :: "'l \<Rightarrow> 'app \<Rightarrow> ('o, string, unit) act"

datatype start_error =
    BadConfig dpop_error | MissingVariable string | NoPool sqlx_error | NotMigrated string | HostFailure string

definition environment_of :: "('o, 'l, 'app) host \<Rightarrow> environment \<Rightarrow> environment" where
  "environment_of H env =
     (let (loaded, env') = load_dotenv H env
      in if loaded then env' else snd (load_file H ''examples/server/.env'' env'))"

definition main_process ::
    "lib \<Rightarrow> ('c, string, bool) cache_ops \<Rightarrow> 'g grace_ops \<Rightarrow> 'r replay_ops \<Rightarrow> nat \<Rightarrow> nat \<Rightarrow> ('o, 'p) driver \<Rightarrow>
     ('o, 'l, app_state \<times> 'c caches \<times> 'g \<times> 'r) host \<Rightarrow> environment \<Rightarrow> ('o, start_error, unit) act" where
  "main_process L M G R first_draw i V H env =
     (let env = environment_of H env in
      act_bind (act_lift (map_err BadConfig (config_from_env L env))) (\<lambda>cfg.
      act_bind (act_lift (ok_or (MissingVariable ''DATABASE_URL'') (env ''DATABASE_URL''))) (\<lambda>url.
      act_bind (act_map_err NoPool (create_pool V url)) (\<lambda>pool.
      act_bind (act_map_err NotMigrated (run_migrations V pool)) (\<lambda>_.
      act_bind (act_lift (create_app L M G R first_draw i cfg)) (\<lambda>app.
      act_bind (act_map_err HostFailure (listen H ''0.0.0.0:3000'')) (\<lambda>listener.
      act_map_err HostFailure (serve_on H listener app))))))))"

text \<open>The server answers only with a valid configuration, a pool of ten connections and the schema
  of all migrations; a failure of one of these stops it before it listens.\<close>

lemma main_process_Ok_iff:
  "main_process L M G R first_draw i V H env s = (Ok (), s') \<longleftrightarrow>
     (\<exists>cfg url pool s1 s2 app listener s3.
        config_from_env L (environment_of H env) = Ok cfg \<and>
        environment_of H env ''DATABASE_URL'' = Some url \<and>
        connect V \<lparr> max_connections = 10 \<rparr> url s = (Ok pool, s1) \<and>
        migrate V embedded_migrations pool s1 = (Ok (), s2) \<and>
        (create_app L M G R first_draw i cfg :: (start_error, _) res) = Ok app \<and>
        listen H ''0.0.0.0:3000'' s2 = (Ok listener, s3) \<and>
        serve_on H listener app s3 = (Ok (), s'))"
  by (auto simp: main_process_def Let_def act_bind_Ok_iff act_lift_def create_pool_def MAX_CONNECTIONS_def
      run_migrations_def)

lemma main_process_stops_before_listening:
  shows "config_from_env L (environment_of H env) = Err e \<Longrightarrow>
      main_process L M G R first_draw i V H env s = (Err (BadConfig e), s)"
    and "config_from_env L (environment_of H env) = Ok cfg \<Longrightarrow> environment_of H env ''DATABASE_URL'' = Some url \<Longrightarrow>
      create_pool V url s = (Ok pool, s1) \<Longrightarrow> run_migrations V pool s1 = (Err m, s2) \<Longrightarrow>
      main_process L M G R first_draw i V H env s = (Err (NotMigrated m), s2)"
  by (simp_all add: main_process_def Let_def act_bind_def act_lift_def act_map_err_def)

end
