(* ===== verification/Pool_Machine.thy ===== *)
theory Pool_Machine
  imports Server_Start Service_Machine "HOL-Library.Multiset"
begin

text \<open>
  The calls of the server on one connection pool. The operations of \<open>AuthService\<close> and the email
  worker take their connections from the pool and give them back when the value goes out of scope;
  two of them take a second connection while they hold the first. A step is one move of one call, in
  any interleaving. The pool is the driver's: it hands out at most \<open>max_connections\<close> connections,
  a call that finds none waits, and the driver ends a long wait with an error, which is the failure
  of \<open>acquire\<close> and \<open>begin_tx\<close> in \<open>Store\<close>.
\<close>

section \<open>What a call takes and gives back\<close>

datatype conn_act = Acquires | Releases

text \<open>The longest path of each operation; an early return gives back what is held. Most take one
  connection, \<open>conn\<close> or the one of \<open>tx\<close>, and keep it until they return. \<open>confirm_2fa\<close> and
  \<open>disable_2fa\<close> keep \<open>conn\<close>, too: the first begins its transaction on a second connection, the second
  runs \<open>verify_2fa_code\<close> on a second one and then its transaction.\<close>

abbreviation one_connection :: "conn_act list" where
  "one_connection \<equiv> [Acquires, Releases]"

definition verify_conns :: "conn_act list" where
  "verify_conns = one_connection"

definition confirm_conns :: "conn_act list" where
  "confirm_conns =
     Acquires      \<comment> \<open>\<open>conn\<close>\<close>
     # Acquires    \<comment> \<open>\<open>tx\<close>\<close>
     # Releases    \<comment> \<open>\<open>tx.commit()\<close>\<close>
     # [Releases]"

definition disable_conns :: "conn_act list" where
  "disable_conns =
     Acquires      \<comment> \<open>\<open>conn\<close>\<close>
     # verify_conns
     @ Acquires    \<comment> \<open>\<open>tx\<close>\<close>
     # Releases    \<comment> \<open>\<open>tx.commit()\<close>\<close>
     # [Releases]"

lemmas conns_defs = verify_conns_def confirm_conns_def disable_conns_def

fun conn_acts :: "service_op \<Rightarrow> conn_act list" where
  "conn_acts (Register params) = one_connection"
| "conn_acts (Login kind value password jkt ip ua) = one_connection"
| "conn_acts (Refresh token jkt ua) = one_connection"
| "conn_acts (Logout token) = one_connection"
| "conn_acts (Setup2fa uid issuer_name account_name) = one_connection"
| "conn_acts (Confirm2fa uid code) = confirm_conns"
| "conn_acts (Verify2fa uid code) = verify_conns"
| "conn_acts (Disable2fa uid code) = disable_conns"
| "conn_acts CleanupDrafts = one_connection"

text \<open>The tasks on the pool: an operation of the service, the claim of a batch by the email worker,
  the record of one delivery in its own task.\<close>

datatype pool_job = Serve service_op | ClaimBatch | RecordDelivery

fun job_acts :: "pool_job \<Rightarrow> conn_act list" where
  "job_acts (Serve op) = conn_acts op"
| "job_acts ClaimBatch = one_connection"
| "job_acts RecordDelivery = one_connection"

text \<open>A call runs, or waits for a connection; \<open>h\<close> are the connections it holds and the list is what
  it still does on its longest path.\<close>

datatype pool_call = Busy (call_job: pool_job) nat "conn_act list" | Waits (call_job: pool_job) nat "conn_act list"

fun held :: "pool_call \<Rightarrow> nat" where
  "held (Busy j h acts) = h"
| "held (Waits j h acts) = h"

fun waiting :: "pool_call \<Rightarrow> bool" where
  "waiting (Busy j h acts) = False"
| "waiting (Waits j h acts) = True"

definition in_use :: "pool_call multiset \<Rightarrow> nat" where
  "in_use M = (\<Sum>c\<in>#M. held c)"

lemma in_use_simps [simp]:
  "in_use {#} = 0" "in_use (add_mset c M) = held c + in_use M" "in_use (M + M') = in_use M + in_use M'"
  by (simp_all add: in_use_def)

section \<open>The machine\<close>

datatype pool_event = Starts pool_job | Moves | TimesOut

inductive pool_step :: "nat \<Rightarrow> pool_event \<Rightarrow> pool_call multiset \<Rightarrow> pool_call multiset \<Rightarrow> bool" for capacity where
  starts: "pool_step capacity (Starts j) M (add_mset (Busy j 0 (job_acts j)) M)"
| asks: "pool_step capacity Moves (add_mset (Busy j h (Acquires # acts)) M) (add_mset (Waits j h acts) M)"
| granted: "h + in_use M < capacity \<Longrightarrow>
    pool_step capacity Moves (add_mset (Waits j h acts) M) (add_mset (Busy j (Suc h) acts) M)"
| releases: "pool_step capacity Moves (add_mset (Busy j (Suc h) (Releases # acts)) M) (add_mset (Busy j h acts) M)"
| returns: "pool_step capacity Moves (add_mset (Busy j h acts) M) M"
| times_out: "pool_step capacity TimesOut (add_mset (Waits j h acts) M) M"

inductive_cases pool_startE: "pool_step capacity (Starts job) M M'"
inductive_cases pool_moveE: "pool_step capacity Moves M M'"
inductive_cases pool_timeoutE: "pool_step capacity TimesOut M M'"

definition any_pool_step :: "nat \<Rightarrow> pool_call multiset \<Rightarrow> pool_call multiset \<Rightarrow> bool" where
  "any_pool_step capacity M M' \<longleftrightarrow> (\<exists>ev. pool_step capacity ev M M')"

inductive pool_run :: "nat \<Rightarrow> pool_event list \<Rightarrow> pool_call multiset \<Rightarrow> pool_call multiset \<Rightarrow> bool" for capacity where
  done_running: "pool_run capacity [] M M"
| runs: "pool_step capacity ev M M' \<Longrightarrow> pool_run capacity evs M' M'' \<Longrightarrow> pool_run capacity (ev # evs) M M''"

inductive_simps pool_run_simps: "pool_run capacity [] M M'" "pool_run capacity (ev # evs) M M'"

lemma pool_run_append:
  "pool_run capacity evs M M' \<Longrightarrow> pool_run capacity evs' M' M'' \<Longrightarrow> pool_run capacity (evs @ evs') M M''"
  by (induction rule: pool_run.induct) (auto simp: pool_run_simps)

lemma pool_run_steps: "pool_run capacity evs M M' \<Longrightarrow> (any_pool_step capacity)\<^sup>*\<^sup>* M M'"
  by (induction rule: pool_run.induct) (auto simp: any_pool_step_def intro: converse_rtranclp_into_rtranclp)

section \<open>The invariant\<close>

text \<open>The calls that ask for a connection while they hold one.\<close>

fun nested_job :: "pool_job \<Rightarrow> bool" where
  "nested_job (Serve (Confirm2fa uid code)) = True"
| "nested_job (Serve (Disable2fa uid code)) = True"
| "nested_job _ = False"

definition max_held :: "pool_job \<Rightarrow> nat" where
  "max_held j = (if nested_job j then 1 else 0)"

text \<open>A path gives back only what it holds, and takes a connection while it holds at most \<open>m\<close>.\<close>

fun path_ok :: "nat \<Rightarrow> nat \<Rightarrow> conn_act list \<Rightarrow> bool" where
  "path_ok m h [] \<longleftrightarrow> True"
| "path_ok m h (Acquires # acts) \<longleftrightarrow> h \<le> m \<and> path_ok m (Suc h) acts"
| "path_ok m h (Releases # acts) \<longleftrightarrow> 0 < h \<and> path_ok m (h - 1) acts"

fun call_ok :: "pool_call \<Rightarrow> bool" where
  "call_ok (Busy j h acts) \<longleftrightarrow> path_ok (max_held j) h acts"
| "call_ok (Waits j h acts) \<longleftrightarrow> h \<le> max_held j \<and> path_ok (max_held j) (Suc h) acts"

definition pool_inv :: "nat \<Rightarrow> pool_call multiset \<Rightarrow> bool" where
  "pool_inv capacity M \<longleftrightarrow> in_use M \<le> capacity \<and> (\<forall>c\<in>#M. call_ok c)"

lemma job_cases:
  obtains (confirm) uid code where "j = Serve (Confirm2fa uid code)"
  | (disable) uid code where "j = Serve (Disable2fa uid code)"
  | (single) "\<not> nested_job j" "job_acts j = one_connection"
proof (cases j)
  case (Serve op)
  then show ?thesis by (cases op) (simp_all add: verify_conns_def confirm disable single)
qed (simp_all add: single)

lemma job_path_ok: "path_ok (max_held j) 0 (job_acts j)"
  by (cases j rule: job_cases) (simp_all add: max_held_def conns_defs)

lemma waiting_held: "call_ok c \<Longrightarrow> waiting c \<Longrightarrow> held c \<le> 1 \<and> (held c = 1 \<longrightarrow> nested_job (call_job c))"
  by (cases c) (auto simp: max_held_def split: if_splits)

lemma pool_step_inv: "pool_step capacity ev M M' \<Longrightarrow> pool_inv capacity M \<Longrightarrow> pool_inv capacity M'"
  by (induction rule: pool_step.induct) (auto simp: pool_inv_def job_path_ok)

interpretation pools: machine "\<lambda>M. M = {#}" "any_pool_step capacity" "pool_inv capacity" for capacity
  by unfold_locales (auto simp: pool_inv_def any_pool_step_def dest: pool_step_inv)

lemma pool_run_inv: "pool_run capacity evs {#} M \<Longrightarrow> pool_inv capacity M"
  by (rule pools.reachable_inv [OF refl pool_run_steps])

section \<open>When no call can move\<close>

lemma busy_moves: "c \<in># M \<Longrightarrow> \<not> waiting c \<Longrightarrow> \<exists>M'. pool_step capacity Moves M M'"
  by (cases c) (auto dest!: multi_member_split intro: pool_step.returns)

lemma waiting_moves:
  assumes "c \<in># M" "waiting c" "in_use M < capacity"
  shows "\<exists>M'. pool_step capacity Moves M M'"
proof -
  from assms(1) obtain A where M: "M = add_mset c A" by (metis multi_member_split)
  from assms(2) obtain j h acts where c: "c = Waits j h acts" by (cases c) auto
  show ?thesis unfolding M c by (rule exI, rule pool_step.granted) (use assms(3) in \<open>simp add: M c\<close>)
qed

lemma full_pool_waits:
  assumes "\<forall>c\<in>#M. waiting c" "capacity \<le> in_use M"
  shows "\<not> pool_step capacity Moves M M'"
  using assms by (auto elim!: pool_moveE)

lemma in_use_waiting:
  "\<forall>c\<in>#M. call_ok c \<and> waiting c \<Longrightarrow> in_use M = size (filter_mset (\<lambda>c. held c = 1) M)"
proof (induction M)
  case (add c M)
  then show ?case using waiting_held [of c] by (cases "held c") auto
qed simp

lemma stuck_iff:
  assumes "pool_inv capacity M"
  shows "(\<nexists>M'. pool_step capacity Moves M M') \<longleftrightarrow>
     (\<forall>c\<in>#M. waiting c) \<and> (M = {#} \<or> size (filter_mset (\<lambda>c. held c = 1) M) = capacity)"
    (is "?stuck \<longleftrightarrow> ?full")
proof
  assume stuck: ?stuck
  then have waits: "\<forall>c\<in>#M. waiting c" using busy_moves by blast
  have "in_use M = capacity" if "M \<noteq> {#}"
  proof -
    from that obtain c where "c \<in># M" by blast
    then have "capacity \<le> in_use M" using stuck waits waiting_moves not_le by blast
    then show ?thesis using assms by (simp add: pool_inv_def)
  qed
  then show ?full using waits assms in_use_waiting [of M] by (auto simp: pool_inv_def)
next
  assume full: ?full
  show ?stuck
  proof (cases "M = {#}")
    case True
    then show ?thesis by (auto elim: pool_moveE)
  next
    case False
    then have "in_use M = capacity" using full assms in_use_waiting [of M] by (simp add: pool_inv_def)
    then show ?thesis using full full_pool_waits [of M capacity] by simp
  qed
qed

lemma filter_mset_none: "(\<And>x. x \<in># M \<Longrightarrow> \<not> P x) \<Longrightarrow> filter_mset P M = {#}"
  by (induction M) auto

text \<open>Calls that take one connection at a time never starve each other.\<close>

lemma single_calls_move:
  assumes "pool_inv capacity M" "0 < capacity" "M \<noteq> {#}" "\<forall>c\<in>#M. waiting c \<longrightarrow> held c = 0"
  shows "\<exists>M'. pool_step capacity Moves M M'"
proof (rule ccontr)
  assume "\<nexists>M'. pool_step capacity Moves M M'"
  then have waits: "\<forall>c\<in>#M. waiting c" and full: "size (filter_mset (\<lambda>c. held c = 1) M) = capacity"
    using assms(3) stuck_iff [OF assms(1)] by blast+
  have "filter_mset (\<lambda>c. held c = 1) M = {#}"
    using assms(4) waits by (intro filter_mset_none) fastforce
  from full [unfolded this] show False using assms(2) by simp
qed

section \<open>A starved pool\<close>

text \<open>Calls that hold the whole pool and wait for more: until a wait times out, they stay, and no
  other call gets a connection.\<close>

definition starved :: "nat \<Rightarrow> pool_call multiset \<Rightarrow> pool_call multiset \<Rightarrow> bool" where
  "starved capacity S M \<longleftrightarrow> S \<subseteq># M \<and> (\<forall>c\<in>#S. waiting c) \<and> in_use S = capacity \<and> (\<forall>c\<in>#M - S. held c = 0)"

lemma starved_in_use: "starved capacity S M \<Longrightarrow> in_use M = capacity"
proof -
  assume s: "starved capacity S M"
  then have "in_use (M - S) = 0" by (simp add: starved_def in_use_def)
  moreover have "in_use M = in_use S + in_use (M - S)"
    using s by (metis starved_def in_use_simps(3) subset_mset.add_diff_inverse)
  ultimately show ?thesis using s by (simp add: starved_def)
qed

lemma add_outside: "S \<subseteq># M \<Longrightarrow> add_mset d M - S = add_mset d (M - S)"
  by (simp add: multiset_eq_iff subseteq_mset_def Suc_diff_le)

lemma starved_more: "starved capacity S M \<Longrightarrow> held d = 0 \<Longrightarrow> starved capacity S (add_mset d M)"
proof -
  assume s: "starved capacity S M" and d: "held d = 0"
  have "M \<subseteq># add_mset d M" by simp
  then have "S \<subseteq># add_mset d M" using s subset_mset.order_trans unfolding starved_def by blast
  then show ?thesis using s d by (simp add: starved_def add_outside)
qed

lemma subset_without:
  assumes "c \<notin># S" "S \<subseteq># add_mset c M"
  shows "S \<subseteq># M"
proof (rule mset_subset_eqI)
  fix a
  show "count S a \<le> count M a"
    using assms(1) mset_subset_eq_count [OF assms(2), of a] by (cases "a = c") (simp_all add: not_in_iff)
qed

lemma starved_other:
  assumes "starved capacity S (add_mset c M)" "\<not> waiting c"
  shows "held c = 0" "starved capacity S M"
proof -
  have "c \<notin># S" using assms by (auto simp: starved_def)
  moreover have "S \<subseteq># add_mset c M" using assms(1) by (simp add: starved_def)
  ultimately have "S \<subseteq># M" by (rule subset_without)
  then show "held c = 0" "starved capacity S M" using assms(1) by (simp_all add: starved_def add_outside)
qed

lemma starved_step:
  assumes "pool_step capacity ev M M'" "starved capacity S M" "ev \<noteq> TimesOut"
  shows "starved capacity S M'"
  using assms
proof (induction rule: pool_step.induct)
  case (granted h M j acts)
  then show ?case using starved_in_use [of capacity S "add_mset (Waits j h acts) M"] by simp
qed (auto dest: starved_other intro!: starved_more)

lemma starved_run:
  "pool_run capacity evs M M' \<Longrightarrow> starved capacity S M \<Longrightarrow> TimesOut \<notin> set evs \<Longrightarrow> starved capacity S M'"
  by (induction rule: pool_run.induct) (auto dest: starved_step)

text \<open>A nested call can come to hold one connection and to wait for the next; any other call, to wait
  for its first.\<close>

definition half_done :: "pool_job \<Rightarrow> pool_call" where
  "half_done j = Waits j 1 (drop 2 (job_acts j))"

definition asking :: "pool_job \<Rightarrow> pool_call" where
  "asking j = Waits j 0 (tl (job_acts j))"

lemma half_done_simps [simp]: "held (half_done j) = 1" "waiting (half_done j)" "call_job (half_done j) = j"
  and asking_simps [simp]: "held (asking j) = 0" "waiting (asking j)" "call_job (asking j) = j"
  by (simp_all add: half_done_def asking_def)

fun starts_in :: "pool_event list \<Rightarrow> nat" where
  "starts_in [] = 0"
| "starts_in (Starts j # evs) = Suc (starts_in evs)"
| "starts_in (Moves # evs) = starts_in evs"
| "starts_in (TimesOut # evs) = starts_in evs"

lemma starts_in_append [simp]: "starts_in (evs @ evs') = starts_in evs + starts_in evs'"
  by (induction evs rule: starts_in.induct) simp_all

lemma nested_acts: "nested_job j \<Longrightarrow> job_acts j = Acquires # Acquires # drop 2 (job_acts j)"
  by (cases j rule: job_cases) (simp_all add: conns_defs numeral_2_eq_2)

lemma first_act: "job_acts j = Acquires # tl (job_acts j)"
  by (cases j rule: job_cases) (simp_all add: conns_defs)

lemma asking_run: "pool_run capacity [Starts j, Moves] M (add_mset (asking j) M)"
  using pool_step.starts [of capacity j M] pool_step.asks [of capacity j 0 "tl (job_acts j)" M] first_act [of j]
  by (auto simp: pool_run_simps asking_def)

lemma half_done_run:
  assumes "nested_job j" and "in_use M < capacity"
  shows "pool_run capacity [Starts j, Moves, Moves, Moves] M (add_mset (half_done j) M)"
proof -
  let ?acts = "drop 2 (job_acts j)"
  have acts: "job_acts j = Acquires # Acquires # ?acts" by (rule nested_acts [OF assms(1)])
  have "pool_step capacity (Starts j) M (add_mset (Busy j 0 (Acquires # Acquires # ?acts)) M)"
    using pool_step.starts [of capacity j M] acts by simp
  moreover have "pool_step capacity Moves (add_mset (Busy j 0 (Acquires # Acquires # ?acts)) M) (add_mset (Waits j 0 (Acquires # ?acts)) M)"
    by (rule pool_step.asks)
  moreover have "pool_step capacity Moves (add_mset (Waits j 0 (Acquires # ?acts)) M) (add_mset (Busy j 1 (Acquires # ?acts)) M)"
    using pool_step.granted [of 0 M capacity j "Acquires # ?acts"] assms(2) by simp
  moreover have "pool_step capacity Moves (add_mset (Busy j 1 (Acquires # ?acts)) M) (add_mset (half_done j) M)"
    unfolding half_done_def by (rule pool_step.asks)
  ultimately show ?thesis by (auto simp: pool_run_simps)
qed

lemma in_use_half_done: "in_use (image_mset half_done J) = size J"
  by (induction J) simp_all

lemma in_use_asking: "in_use (image_mset asking J) = 0"
  by (induction J) simp_all

lemma half_done_runs:
  "\<forall>j\<in>#J. nested_job j \<Longrightarrow> size J \<le> capacity \<Longrightarrow>
     \<exists>evs. pool_run capacity evs {#} (image_mset half_done J) \<and> starts_in evs = size J \<and>
       set evs \<subseteq> Starts ` set_mset J \<union> {Moves}"
proof (induction J)
  case empty
  show ?case by (rule exI [of _ "[]"]) (simp add: pool_run_simps)
next
  case (add j J)
  then obtain evs where run: "pool_run capacity evs {#} (image_mset half_done J)" and n: "starts_in evs = size J"
    and only: "set evs \<subseteq> Starts ` set_mset J \<union> {Moves}" by auto
  let ?more = "[Starts j, Moves, Moves, Moves]"
  have "pool_run capacity ?more (image_mset half_done J) (image_mset half_done (add_mset j J))"
    using half_done_run [of j "image_mset half_done J" capacity] add.prems by (simp add: in_use_half_done)
  from pool_run_append [OF run this] show ?case
    by (intro exI [of _ "evs @ ?more"]) (use n only in auto)
qed

lemma asking_runs: "\<exists>evs. pool_run capacity evs M (image_mset asking J + M)"
proof (induction J)
  case empty
  show ?case by (rule exI [of _ "[]"]) (simp add: pool_run_simps)
next
  case (add j J)
  then obtain evs where "pool_run capacity evs M (image_mset asking J + M)" by blast
  from pool_run_append [OF this asking_run [of capacity j]] show ?case by auto
qed

lemma half_done_starved: "starved (size J) (image_mset half_done J) (image_mset half_done J)"
  by (auto simp: starved_def in_use_half_done)

lemma size_filter_le: "(\<And>x. x \<in># M \<Longrightarrow> P x \<longrightarrow> Q x) \<Longrightarrow> size (filter_mset P M) \<le> size (filter_mset Q M)"
  by (induction M) auto

lemma submset_of_size:
  assumes "k \<le> size M"
  obtains N where "N \<subseteq># M" "size N = k"
proof -
  obtain xs where M: "M = mset xs" by (metis ex_mset)
  have "mset (take k xs) \<subseteq># M" unfolding M by (metis append_take_drop_id mset_append mset_subset_eq_add_left)
  with assms show ?thesis by (intro that [of "mset (take k xs)"]) (simp_all add: M)
qed

text \<open>The calls that starve the pool: ten of them hold one connection, so they are nested.\<close>

lemma starving_jobs:
  assumes "pool_inv capacity M" and "M \<noteq> {#}" and "\<nexists>M'. pool_step capacity Moves M M'"
  shows "capacity \<le> size (filter_mset nested_job (image_mset call_job M))"
proof -
  have all: "\<forall>c\<in>#M. waiting c" and full: "size (filter_mset (\<lambda>c. held c = 1) M) = capacity"
    using stuck_iff [OF assms(1)] assms(2,3) by blast+
  have "held c = 1 \<longrightarrow> nested_job (call_job c)" if "c \<in># M" for c
    using waiting_held [of c] all that assms(1) by (simp add: pool_inv_def)
  then have "size (filter_mset (\<lambda>c. held c = 1) M) \<le> size (filter_mset (\<lambda>c. nested_job (call_job c)) M)"
    by (rule size_filter_le)
  then show ?thesis by (simp only: full filter_mset_image_mset comp_def size_image_mset)
qed

lemma jobs_starve:
  assumes "capacity \<le> size (filter_mset nested_job J)" and "0 < capacity"
  shows "\<exists>evs M. pool_run capacity evs {#} M \<and> M \<noteq> {#} \<and> (\<nexists>M'. pool_step capacity Moves M M') \<and> image_mset call_job M = J"
proof -
  obtain N where N: "N \<subseteq># filter_mset nested_job J" "size N = capacity"
    using assms(1) by (rule submset_of_size)
  then have nested: "\<forall>j\<in>#N. nested_job j" and sub: "N \<subseteq># J"
    by (auto dest: mset_subset_eqD intro: subset_mset.order_trans multiset_filter_subset)
  obtain evs where run: "pool_run capacity evs {#} (image_mset half_done N)"
    using half_done_runs [OF nested, of capacity] N(2) by auto
  obtain evs' where run': "pool_run capacity evs' (image_mset half_done N) (image_mset asking (J - N) + image_mset half_done N)"
    using asking_runs by blast
  let ?M = "image_mset asking (J - N) + image_mset half_done N"
  have "pool_run capacity (evs @ evs') {#} ?M" by (rule pool_run_append [OF run run'])
  moreover have "\<not> pool_step capacity Moves ?M M'" for M'
    by (rule full_pool_waits) (auto simp: in_use_half_done in_use_asking N(2))
  moreover have "image_mset call_job ?M = J" using sub by (simp add: multiset.map_comp comp_def)
  moreover have "?M \<noteq> {#}" using N(2) assms(2) by auto
  ultimately show ?thesis by blast
qed

section \<open>Every call ends\<close>

fun call_weight :: "pool_call \<Rightarrow> nat" where
  "call_weight (Busy j h acts) = 2 * length acts + 1"
| "call_weight (Waits j h acts) = 2 * length acts + 2"

definition weight :: "pool_call multiset \<Rightarrow> nat" where
  "weight M = (\<Sum>c\<in>#M. call_weight c)"

lemma weight_simps [simp]: "weight {#} = 0" "weight (add_mset c M) = call_weight c + weight M"
  by (simp_all add: weight_def)

lemma job_acts_length: "length (job_acts j) \<le> 6"
  by (cases j rule: job_cases) (simp_all add: conns_defs)

lemma step_weight: "pool_step capacity ev M M' \<Longrightarrow> Suc (weight M') \<le> weight M + 14 * starts_in [ev]"
proof (induction rule: pool_step.induct)
  case (starts j M)
  show ?case using job_acts_length [of j] by simp
qed simp_all

lemma run_weight: "pool_run capacity evs M M' \<Longrightarrow> length evs + weight M' \<le> weight M + 14 * starts_in evs"
proof (induction rule: pool_run.induct)
  case (runs ev M M' evs M'')
  then show ?case using step_weight [OF runs.hyps(1)] starts_in_append [of "[ev]" evs] by simp
qed simp

lemma timeout_ends: "M \<noteq> {#} \<Longrightarrow> \<exists>ev M'. ev \<in> {Moves, TimesOut} \<and> pool_step capacity ev M M'"
proof -
  assume "M \<noteq> {#}"
  then obtain c A where "M = add_mset c A" by (metis multiset_cases)
  then show ?thesis by (cases c) (auto intro: pool_step.returns pool_step.times_out)
qed

section \<open>What the pool promises\<close>

text \<open>C22. Which calls can starve the pool: calls in flight can reach a state in which, until a wait
  times out, none of them can move, exactly when at least ten of them are \<open>confirm_2fa\<close> or
  \<open>disable_2fa\<close>. All other operations and the email worker, in any number, never do it alone.\<close>

theorem pool_starvable_iff:
  "(\<exists>evs M. pool_run (unat MAX_CONNECTIONS) evs {#} M \<and> M \<noteq> {#} \<and>
      (\<nexists>M'. pool_step (unat MAX_CONNECTIONS) Moves M M') \<and> image_mset call_job M = J) \<longleftrightarrow>
   10 \<le> size (filter_mset nested_job J)"
proof -
  have ten: "unat MAX_CONNECTIONS = 10" by (simp add: MAX_CONNECTIONS_def)
  show ?thesis
    unfolding ten
    using starving_jobs [OF pool_run_inv [of 10]] jobs_starve [of 10 J] by auto
qed

text \<open>C21. Ten calls of \<open>confirm_2fa\<close> can take the whole pool: each holds its connection while it
  asks for the one of its transaction. From there on, whatever other calls start, the ten stay and no
  call gets a connection, until a wait times out.\<close>

theorem confirms_starve_pool:
  "\<exists>evs M. pool_run (unat MAX_CONNECTIONS) evs {#} M \<and> set evs \<subseteq> {Starts (Serve (Confirm2fa uid code)), Moves} \<and>
     starts_in evs = 10 \<and> size M = 10 \<and>
     (\<forall>evs' M'. pool_run (unat MAX_CONNECTIONS) evs' M M' \<longrightarrow> TimesOut \<notin> set evs' \<longrightarrow>
        M \<subseteq># M' \<and> (\<forall>c\<in>#M' - M. held c = 0))"
proof -
  let ?J = "replicate_mset 10 (Serve (Confirm2fa uid code))"
  let ?M = "image_mset half_done ?J"
  obtain evs where "pool_run 10 evs {#} ?M" "starts_in evs = 10" "set evs \<subseteq> {Starts (Serve (Confirm2fa uid code)), Moves}"
    using half_done_runs [of ?J 10] by (auto split: if_splits)
  moreover have "?M \<subseteq># M' \<and> (\<forall>c\<in>#M' - ?M. held c = 0)" if "pool_run 10 evs' ?M M'" "TimesOut \<notin> set evs'" for evs' M'
  proof -
    have "starved 10 ?M ?M" using half_done_starved [of ?J] by (simp only: size_replicate_mset)
    from starved_run [OF that(1) this that(2)] show ?thesis unfolding starved_def by blast
  qed
  ultimately show ?thesis
    by (intro exI [of _ evs] exI [of _ ?M]) (simp add: MAX_CONNECTIONS_def)
qed

theorem confirms_starve_pool_witness:
  "\<exists>M M'. size M = 10 \<and> pool_run (unat MAX_CONNECTIONS) [Starts (Serve (Logout ''t'')), Moves] M M' \<and> M \<subseteq># M' \<and>
     (\<forall>c\<in>#M' - M. held c = 0)"
proof -
  obtain M where size: "size M = 10"
    and kept: "\<And>evs' M'. pool_run (unat MAX_CONNECTIONS) evs' M M' \<Longrightarrow> TimesOut \<notin> set evs' \<Longrightarrow>
      M \<subseteq># M' \<and> (\<forall>c\<in>#M' - M. held c = 0)"
    using confirms_starve_pool [of 1 "''123456''"] by blast
  note run = asking_run [of "unat MAX_CONNECTIONS" "Serve (Logout ''t'')" M]
  let ?M' = "add_mset (asking (Serve (Logout ''t''))) M"
  have "M \<subseteq># ?M' \<and> (\<forall>c\<in>#?M' - M. held c = 0)" by (rule kept [OF run]) simp
  then show ?thesis by (intro exI [of _ M] exI [of _ ?M'] conjI size run) blast+
qed

text \<open>Every call ends: in every run of the pool each started call accounts for at most fourteen
  steps, and while a call is left, one of them can move or its wait can time out.\<close>

theorem pool_calls_end:
  assumes "pool_run capacity evs {#} M"
  shows "length evs + weight M \<le> 14 * starts_in evs \<and>
     ((\<exists>ev M'. ev \<in> {Moves, TimesOut} \<and> pool_step capacity ev M M') \<longleftrightarrow> M \<noteq> {#})"
  using run_weight [OF assms] timeout_ends [of M capacity] by (auto elim: pool_moveE pool_timeoutE)

theorem pool_calls_end_witness:
  "pool_run 1 [Starts ClaimBatch, Moves] {#} {#asking ClaimBatch#} \<and>
   (\<exists>ev M'. ev \<in> {Moves, TimesOut} \<and> pool_step 1 ev {#asking ClaimBatch#} M')"
  using pool_calls_end [OF asking_run [of 1 ClaimBatch "{#}"]] asking_run [of 1 ClaimBatch "{#}"] by simp

end
