(* ===== verification/Web_App.thy ===== *)
theory Web_App
  imports Web_Client
begin

text \<open>
  The rest of the browser client: \<open>storage.rs\<close> (the key pair in IndexedDB), the key operations of
  \<open>crypto.rs\<close> and the pages of \<open>app.rs\<close>. Markup is not part of the model. IndexedDB and WebCrypto are
  parameters; a call that waits for an event that is never fired does not return (\<open>Never\<close>). A form
  submits a request and handles the reply whenever it arrives, so replies and clicks interleave.
\<close>

section \<open>Key storage\<close>

record key_pair =
  kp_private :: string
  kp_public :: string

datatype js_value = JsNull | JsUndefined | JsKeyPair key_pair

datatype 'a eventual = Ready "(js_error, 'a) res" | Never

fun then_await :: "'a eventual \<Rightarrow> ('a \<Rightarrow> 'b eventual) \<Rightarrow> 'b eventual" where
  "then_await (Ready (Ok a)) f = f a"
| "then_await (Ready (Err e)) f = Ready (Err e)"
| "then_await (Ready Panic) f = Ready Panic"
| "then_await Never f = Never"

text \<open>IndexedDB during one load of the page: what the calls raise, whether the success events are fired,
  and whether the transaction of a \<open>put\<close> that nobody awaits commits.\<close>

record idb_env =
  idb_factory :: "js_error + bool"
  idb_open_fault :: "js_error option"
  idb_open_succeeds :: bool
  idb_load_fault :: "js_error option"
  idb_get_succeeds :: bool
  idb_save_fault :: "js_error option"
  idb_put_commits :: bool

record idb_database =
  idb_version :: nat
  idb_stores :: "string \<Rightarrow> (string \<Rightarrow> js_value option) option"

definition DB_NAME :: string where "DB_NAME = ''dpop-keys''"
definition STORE :: string where "STORE = ''keys''"

type_synonym idb_origin = "string \<Rightarrow> idb_database option"

text \<open>The upgrade handler runs when the database is older than version 1.\<close>

definition on_upgrade :: "idb_database \<Rightarrow> idb_database" where
  "on_upgrade d =
     (if idb_stores d STORE = None then d\<lparr>idb_stores := (idb_stores d)(STORE \<mapsto> Map.empty)\<rparr> else d)"

definition opened :: "idb_origin \<Rightarrow> idb_database" where
  "opened st =
     (let d = (case st DB_NAME of None \<Rightarrow> \<lparr> idb_version = 0, idb_stores = Map.empty \<rparr> | Some d \<Rightarrow> d)
      in if idb_version d < 1 then (on_upgrade d)\<lparr>idb_version := 1\<rparr> else d)"

definition storage_open :: "browser \<Rightarrow> idb_env \<Rightarrow> idb_origin \<Rightarrow> unit eventual \<times> idb_origin" where
  "storage_open B E st =
     (if \<not> has_window B then (Ready (Err ''no window''), st)
      else case idb_factory E of
        Inl e \<Rightarrow> (Ready (Err e), st)
      | Inr False \<Rightarrow> (Ready (Err ''indexed_db_unavailable''), st)
      | Inr True \<Rightarrow>
          (case idb_open_fault E of
             Some e \<Rightarrow> (Ready (Err e), st)
           | None \<Rightarrow> if idb_open_succeeds E then (Ready (Ok ()), st(DB_NAME \<mapsto> opened st)) else (Never, st)))"

text \<open>The object store of the open database; \<open>transaction\<close> raises when there is none.\<close>

definition key_store :: "idb_origin \<Rightarrow> (string \<Rightarrow> js_value option) option" where
  "key_store st = Option.bind (st DB_NAME) (\<lambda>d. idb_stores d STORE)"

definition save_key_pair :: "idb_env \<Rightarrow> key_pair \<Rightarrow> idb_origin \<Rightarrow> unit eventual \<times> idb_origin" where
  "save_key_pair E kp st =
     (case (idb_save_fault E, st DB_NAME, key_store st) of
        (Some e, _, _) \<Rightarrow> (Ready (Err e), st)
      | (None, Some d, Some store) \<Rightarrow>
          (Ready (Ok ()),
           if idb_put_commits E
           then st(DB_NAME \<mapsto> d\<lparr>idb_stores := (idb_stores d)(STORE \<mapsto> store(''keypair'' \<mapsto> JsKeyPair kp))\<rparr>)
           else st)
      | _ \<Rightarrow> (Ready (Err ''NotFoundError''), st))"

fun as_key_pair :: "js_value \<Rightarrow> key_pair option" where
  "as_key_pair (JsKeyPair kp) = Some kp"
| "as_key_pair JsNull = None"
| "as_key_pair JsUndefined = None"

definition load_key_pair :: "idb_env \<Rightarrow> idb_origin \<Rightarrow> key_pair option eventual" where
  "load_key_pair E st =
     (case (idb_load_fault E, key_store st) of
        (Some e, _) \<Rightarrow> Ready (Err e)
      | (None, None) \<Rightarrow> Ready (Err ''NotFoundError'')
      | (None, Some store) \<Rightarrow>
          if \<not> idb_get_succeeds E then Never
          else let v = (case store ''keypair'' of Some v \<Rightarrow> v | None \<Rightarrow> JsUndefined)
               in Ready (Ok (as_key_pair v)))"

section \<open>Keys\<close>

record web_crypto =
  subtle_generate :: "nat \<Rightarrow> js_error + key_pair"
  subtle_export :: "string \<Rightarrow> js_error + string"

definition subtle :: "browser \<Rightarrow> (js_error, unit) res" where
  "subtle B = (if has_window B then Ok () else Err ''not window'')"

definition generate_key_pair :: "browser \<Rightarrow> web_crypto \<Rightarrow> nat \<Rightarrow> (js_error, key_pair) res" where
  "generate_key_pair B W i = res_bind (subtle B) (\<lambda>_. of_sum (subtle_generate W i))"

definition export_public_jwk :: "browser \<Rightarrow> web_crypto \<Rightarrow> string \<Rightarrow> (js_error, string) res" where
  "export_public_jwk B W pub = res_bind (subtle B) (\<lambda>_. of_sum (subtle_export W pub))"

record web_state =
  ws_key_pair :: key_pair
  ws_jwk :: json

text \<open>Every error of the initialisation is unwrapped.\<close>

fun unwrap :: "'a eventual \<Rightarrow> 'a eventual" where
  "unwrap (Ready (Err e)) = Ready Panic"
| "unwrap r = r"

definition load_or_generate ::
    "browser \<Rightarrow> web_crypto \<Rightarrow> idb_env \<Rightarrow> nat \<Rightarrow> idb_origin \<Rightarrow> key_pair eventual \<times> idb_origin" where
  "load_or_generate B W E i st =
     (case unwrap (load_key_pair E st) of
        Ready (Ok (Some kp)) \<Rightarrow> (Ready (Ok kp), st)
      | Ready (Ok None) \<Rightarrow>
          (case generate_key_pair B W i of
             Ok kp \<Rightarrow> (case save_key_pair E kp st of (saved, st') \<Rightarrow> (then_await (unwrap saved) (\<lambda>_. Ready (Ok kp)), st'))
           | _ \<Rightarrow> (Ready Panic, st))
      | Never \<Rightarrow> (Never, st)
      | _ \<Rightarrow> (Ready Panic, st))"

definition public_state :: "lib \<Rightarrow> browser \<Rightarrow> web_crypto \<Rightarrow> key_pair \<Rightarrow> web_state eventual" where
  "public_state L B W kp =
     then_await (unwrap (Ready (export_public_jwk B W (kp_public kp)))) (\<lambda>jwk_str.
       case json_from_slice L jwk_str of
         None \<Rightarrow> Ready Panic
       | Some jwk \<Rightarrow> Ready (Ok \<lparr> ws_key_pair = kp, ws_jwk = jwk \<rparr>))"

definition init_state ::
    "lib \<Rightarrow> browser \<Rightarrow> web_crypto \<Rightarrow> idb_env \<Rightarrow> nat \<Rightarrow> idb_origin \<Rightarrow> web_state eventual \<times> idb_origin" where
  "init_state L B W E i st =
     (case storage_open B E st of
        (Ready (Ok _), st1) \<Rightarrow>
          (case load_or_generate B W E i st1 of (kp, st2) \<Rightarrow> (then_await kp (public_state L B W), st2))
      | (Never, st1) \<Rightarrow> (Never, st1)
      | (_, st1) \<Rightarrow> (Ready Panic, st1))"

section \<open>Pages\<close>

datatype current_page = LoginPage | RegisterPage | DashboardPage

text \<open>The two signals of \<open>App\<close>. The status lines of the forms are what the handlers return beside them;
  \<open>js_debug\<close> is the \<open>Debug\<close> text of a JavaScript error.\<close>

record web_ui =
  ui_page :: current_page
  ui_access_token :: "string option"

definition app_start :: web_ui where
  "app_start = \<lparr> ui_page = LoginPage, ui_access_token = None \<rparr>"

text \<open>The view: a dashboard without a token sends the user back to the login.\<close>

definition render :: "web_ui \<Rightarrow> web_ui" where
  "render ui =
     (case ui_page ui of
        DashboardPage \<Rightarrow> (case ui_access_token ui of Some tok \<Rightarrow> ui | None \<Rightarrow> ui\<lparr>ui_page := LoginPage\<rparr>)
      | _ \<Rightarrow> ui)"

definition token_of_text :: "lib \<Rightarrow> string \<Rightarrow> string option" where
  "token_of_text L body_str =
     Option.bind (json_from_slice L body_str) (\<lambda>v.
       case json_get v ''access_token'' of Some (JStr token) \<Rightarrow> Some token | _ \<Rightarrow> None)"

definition signed_in :: "string \<Rightarrow> web_ui \<Rightarrow> web_ui" where
  "signed_in token ui = ui\<lparr>ui_access_token := Some token, ui_page := DashboardPage\<rparr>"

definition register_payload :: "string \<Rightarrow> string \<Rightarrow> string \<Rightarrow> json" where
  "register_payload n em pw =
     JObj [(''kind'', JStr ''email''), (''name'', JStr n), (''password'', JStr pw), (''value'', JStr em)]"

definition login_payload :: "string \<Rightarrow> string \<Rightarrow> json" where
  "login_payload em pw = JObj [(''kind'', JStr ''email''), (''password'', JStr pw), (''value'', JStr em)]"

definition submit_register ::
    "lib \<Rightarrow> browser \<Rightarrow> (nat \<Rightarrow> instant) \<Rightarrow> 's network \<Rightarrow> web_state \<Rightarrow> string \<Rightarrow> string \<Rightarrow> string \<Rightarrow> nat \<times> 's \<Rightarrow>
     (js_error, dpop_response) res \<times> nat \<times> 's" where
  "submit_register L B clock fetch app n em pw =
     dpop_requests L B clock fetch (kp_private (ws_key_pair app)) (ws_jwk app) ''POST''
       ''http://localhost:3000/api/auth/register'' None (Some (json_text B (register_payload n em pw)))"

definition submit_login ::
    "lib \<Rightarrow> browser \<Rightarrow> (nat \<Rightarrow> instant) \<Rightarrow> 's network \<Rightarrow> web_state \<Rightarrow> string \<Rightarrow> string \<Rightarrow> nat \<times> 's \<Rightarrow>
     (js_error, dpop_response) res \<times> nat \<times> 's" where
  "submit_login L B clock fetch app em pw =
     dpop_requests L B clock fetch (kp_private (ws_key_pair app)) (ws_jwk app) ''POST''
       ''http://localhost:3000/api/auth/login'' None (Some (json_text B (login_payload em pw)))"

definition fetch_profile ::
    "lib \<Rightarrow> browser \<Rightarrow> (nat \<Rightarrow> instant) \<Rightarrow> 's network \<Rightarrow> web_state \<Rightarrow> string \<Rightarrow> nat \<times> 's \<Rightarrow>
     (js_error, dpop_response) res \<times> nat \<times> 's" where
  "fetch_profile L B clock fetch app token =
     dpop_requests L B clock fetch (kp_private (ws_key_pair app)) (ws_jwk app) ''GET''
       ''http://localhost:3000/api/me'' (Some token) None"

text \<open>What the forms do with a reply: the new signals and the status line; a task that panics is dropped.\<close>

definition register_reply ::
    "lib \<Rightarrow> (js_error \<Rightarrow> string) \<Rightarrow> (js_error, dpop_response) res \<Rightarrow> web_ui \<Rightarrow> web_ui \<times> string option" where
  "register_reply L js_debug reply ui =
     (case reply of
        Ok resp \<Rightarrow>
          if dr_status resp = 201 then
            (case token_of_text L (dr_text resp) of
               Some token \<Rightarrow> (signed_in token ui, None)
             | None \<Rightarrow> (ui\<lparr>ui_page := LoginPage\<rparr>, None))
          else (ui, Some (''Error ('' @ digits_of (dr_status resp) @ ''): '' @ dr_text resp))
      | Err err \<Rightarrow> (ui, Some (''Request error: '' @ js_debug err))
      | Panic \<Rightarrow> (ui, None))"

definition login_reply ::
    "lib \<Rightarrow> (js_error \<Rightarrow> string) \<Rightarrow> (js_error, dpop_response) res \<Rightarrow> web_ui \<Rightarrow> web_ui \<times> string option" where
  "login_reply L js_debug reply ui =
     (case reply of
        Ok resp \<Rightarrow>
          (case if dr_status resp = 200 then token_of_text L (dr_text resp) else None of
             Some token \<Rightarrow> (signed_in token ui, None)
           | None \<Rightarrow> (ui, Some (''Login failed: '' @ dr_text resp)))
      | Err err \<Rightarrow> (ui, Some (''Network error: '' @ js_debug err))
      | Panic \<Rightarrow> (ui, None))"

definition profile_reply :: "(js_error \<Rightarrow> string) \<Rightarrow> (js_error, dpop_response) res \<Rightarrow> string option" where
  "profile_reply js_debug reply =
     (case reply of
        Ok resp \<Rightarrow> Some (''HTTP '' @ digits_of (dr_status resp) @ [CHR 0x0A] @ dr_text resp)
      | Err e \<Rightarrow> Some (''Fetch error: '' @ js_debug e)
      | Panic \<Rightarrow> None)"

definition on_logout :: "web_ui \<Rightarrow> web_ui" where
  "on_logout ui = ui\<lparr>ui_access_token := None, ui_page := LoginPage\<rparr>"

section \<open>Runs of the page\<close>

text \<open>A form is submitted only while it is shown; its reply may come at any later time, on any page.
  The state is the signals, the forms whose replies are outstanding, and the replies handled so
  far.\<close>

datatype form = RegisterForm | LoginForm

record web_run =
  run_ui :: web_ui
  pending :: "form list"
  answered :: "(form \<times> (js_error, dpop_response) res) list"

definition reply_to ::
    "lib \<Rightarrow> (js_error \<Rightarrow> string) \<Rightarrow> form \<Rightarrow> (js_error, dpop_response) res \<Rightarrow> web_ui \<Rightarrow> web_ui \<times> string option" where
  "reply_to L js_debug f = (case f of RegisterForm \<Rightarrow> register_reply L js_debug | LoginForm \<Rightarrow> login_reply L js_debug)"

inductive web_step :: "lib \<Rightarrow> (js_error \<Rightarrow> string) \<Rightarrow> web_run \<Rightarrow> web_run \<Rightarrow> bool" for L js_debug where
  show_login: "ui_page (run_ui s) = RegisterPage \<Longrightarrow>
    web_step L js_debug s (s\<lparr>run_ui := render ((run_ui s)\<lparr>ui_page := LoginPage\<rparr>)\<rparr>)"
| show_register: "ui_page (run_ui s) = LoginPage \<Longrightarrow>
    web_step L js_debug s (s\<lparr>run_ui := render ((run_ui s)\<lparr>ui_page := RegisterPage\<rparr>)\<rparr>)"
| logout: "ui_page (run_ui s) = DashboardPage \<Longrightarrow> web_step L js_debug s (s\<lparr>run_ui := render (on_logout (run_ui s))\<rparr>)"
| submit: "ui_page (run_ui s) = (case f of RegisterForm \<Rightarrow> RegisterPage | LoginForm \<Rightarrow> LoginPage) \<Longrightarrow>
    web_step L js_debug s (s\<lparr>pending := f # pending s\<rparr>)"
| reply: "f \<in> set (pending s) \<Longrightarrow> reply_to L js_debug f r (run_ui s) = (ui, msg) \<Longrightarrow>
    web_step L js_debug s (s\<lparr>run_ui := render ui, pending := remove1 f (pending s), answered := (f, r) # answered s\<rparr>)"

inductive_cases web_stepE: "web_step L js_debug s s'"

definition web_start :: web_run where
  "web_start = \<lparr> run_ui = app_start, pending = [], answered = [] \<rparr>"

text \<open>The token a reply of the server carries, if the form accepts it.\<close>

definition token_granted :: "lib \<Rightarrow> form \<times> (js_error, dpop_response) res \<Rightarrow> string \<Rightarrow> bool" where
  "token_granted L fr token \<longleftrightarrow>
     (\<exists>resp. snd fr = Ok resp \<and> dr_status resp = (case fst fr of RegisterForm \<Rightarrow> 201 | LoginForm \<Rightarrow> 200) \<and>
        token_of_text L (dr_text resp) = Some token)"

definition web_ok :: "lib \<Rightarrow> web_run \<Rightarrow> bool" where
  "web_ok L s \<longleftrightarrow>
     (case ui_access_token (run_ui s) of
        None \<Rightarrow> ui_page (run_ui s) \<noteq> DashboardPage
      | Some token \<Rightarrow> \<exists>fr\<in>set (answered s). token_granted L fr token)"

lemma render_simps [simp]:
  "ui_access_token (render ui) = ui_access_token ui"
  "ui_page (render ui) = (if ui_page ui = DashboardPage \<and> ui_access_token ui = None then LoginPage else ui_page ui)"
  by (cases "ui_page ui"; simp add: render_def split: option.splits)+

lemma reply_outcome:
  assumes "reply_to L js_debug f r ui = (ui', msg)"
  shows "(ui_access_token ui' = ui_access_token ui) \<or> (\<exists>token. ui' = signed_in token ui \<and> token_granted L (f, r) token)"
  using assms
  by (auto simp: reply_to_def register_reply_def login_reply_def token_granted_def split: form.splits res.splits if_splits option.splits)

lemma web_ok_step:
  assumes "web_step L js_debug s s'" and "web_ok L s"
  shows "web_ok L s'"
  using assms(1)
proof cases
  case (reply f r ui msg)
  from reply_outcome [OF reply(3)] show ?thesis
    using assms(2) reply(1) by (auto simp: web_ok_def signed_in_def split: option.splits)
qed (use assms(2) in \<open>auto simp: web_ok_def on_logout_def split: option.splits\<close>)

interpretation pages: machine "\<lambda>s. s = web_start" "web_step L js_debug" "web_ok L" for L js_debug
proof
  show "s = web_start \<Longrightarrow> web_ok L s" for s by (simp add: web_ok_def web_start_def app_start_def)
qed (rule web_ok_step)

section \<open>Properties\<close>

text \<open>C40. The pages stay well-formed: however clicks, submissions and late replies interleave, the dashboard
  is shown only with an access token, and a token the page holds is one that the server granted in
  answer to a registration (201) or a login (200).\<close>

theorem dashboard_needs_granted_token:
  assumes "(web_step L js_debug)\<^sup>*\<^sup>* web_start s"
  shows "(ui_page (run_ui s) = DashboardPage \<longrightarrow> ui_access_token (run_ui s) \<noteq> None) \<and>
    (\<forall>token. ui_access_token (run_ui s) = Some token \<longrightarrow> (\<exists>fr\<in>set (answered s). token_granted L fr token))"
  using pages.reachable_inv [OF refl assms] by (auto simp: web_ok_def split: option.splits)

definition demo_reply :: dpop_response where
  "demo_reply = \<lparr> dr_status = 200, dr_headers = [], dr_text = put_json (JObj [(''access_token'', JStr ''t'')]) \<rparr>"

definition demo_run :: web_run where
  "demo_run =
     \<lparr> run_ui = \<lparr> ui_page = DashboardPage, ui_access_token = Some ''t'' \<rparr>, pending = [], answered = [(LoginForm, Ok demo_reply)] \<rparr>"

lemma demo_run_reached: "(web_step ref_lib id)\<^sup>*\<^sup>* web_start demo_run"
proof -
  let ?s = "web_start\<lparr>pending := [LoginForm]\<rparr>"
  have "web_step ref_lib id web_start ?s"
    using web_step.submit [of web_start LoginForm ref_lib id] by (simp add: web_start_def app_start_def)
  moreover have "token_of_text ref_lib (dr_text demo_reply) = Some ''t''"
    by (simp add: token_of_text_def demo_reply_def json_round_trip del: put_json.simps)
  then have "reply_to ref_lib id LoginForm (Ok demo_reply) (run_ui ?s) = (signed_in ''t'' app_start, None)"
    by (simp add: reply_to_def login_reply_def web_start_def) (simp add: demo_reply_def)
  then have "web_step ref_lib id ?s (?s\<lparr>run_ui := render (signed_in ''t'' app_start), pending := remove1 LoginForm (pending ?s),
      answered := (LoginForm, Ok demo_reply) # answered ?s\<rparr>)"
    by (intro web_step.reply) simp_all
  then have "web_step ref_lib id ?s demo_run"
    by (simp add: demo_run_def web_start_def signed_in_def app_start_def render_def)
  ultimately show ?thesis by (meson converse_rtranclp_into_rtranclp rtranclp.rtrancl_refl)
qed

theorem dashboard_needs_granted_token_witness:
  "ui_page (run_ui demo_run) = DashboardPage \<and> (\<exists>fr\<in>set (answered demo_run). token_granted ref_lib fr ''t'')"
  using dashboard_needs_granted_token [OF demo_run_reached] by (simp add: demo_run_def)

text \<open>What an initialisation leaves in the database.\<close>

lemma opened_again: "opened (st(DB_NAME \<mapsto> opened st)) = opened st"
  by (simp add: opened_def on_upgrade_def Let_def split: option.splits)

lemma opened_saved:
  "st DB_NAME = Some d \<Longrightarrow> 1 \<le> idb_version d \<Longrightarrow> opened (st(DB_NAME \<mapsto> d\<lparr>idb_stores := x\<rparr>)) = d\<lparr>idb_stores := x\<rparr>"
  by (simp add: opened_def)

lemma opened_version: "1 \<le> idb_version (opened st)"
  by (simp add: opened_def Let_def)

text \<open>A database that holds the key pair.\<close>

definition holds_key :: "idb_origin \<Rightarrow> key_pair \<Rightarrow> bool" where
  "holds_key st kp \<longleftrightarrow>
     (\<exists>d store. st DB_NAME = Some d \<and> 1 \<le> idb_version d \<and> idb_stores d STORE = Some store \<and> store ''keypair'' = Some (JsKeyPair kp))"

definition idb_answers :: "idb_env \<Rightarrow> bool" where
  "idb_answers E \<longleftrightarrow>
     idb_factory E = Inr True \<and> idb_open_fault E = None \<and> idb_open_succeeds E \<and> idb_load_fault E = None \<and> idb_get_succeeds E"

lemma init_reload:
  assumes "holds_key st kp" and "idb_answers E" and "has_window B" and "subtle_export W (kp_public kp) = Inr t"
    and "json_from_slice L t = Some jwk"
  shows "init_state L B W E i st = (Ready (Ok \<lparr> ws_key_pair = kp, ws_jwk = jwk \<rparr>), st)"
proof -
  obtain d store where d: "st DB_NAME = Some d" "1 \<le> idb_version d" "idb_stores d STORE = Some store" "store ''keypair'' = Some (JsKeyPair kp)"
    using assms(1) by (auto simp: holds_key_def)
  then have "storage_open B E st = (Ready (Ok ()), st)"
    using assms(2,3) by (auto simp: storage_open_def idb_answers_def opened_def)
  moreover have "load_key_pair E st = Ready (Ok (Some kp))"
    using d assms(2) by (simp add: load_key_pair_def idb_answers_def key_store_def)
  ultimately show ?thesis
    using assms(3-5) by (simp add: init_state_def load_or_generate_def public_state_def export_public_jwk_def subtle_def)
qed

lemma then_await_Ok: "then_await m f = Ready (Ok b) \<longleftrightarrow> (\<exists>a. m = Ready (Ok a) \<and> f a = Ready (Ok b))"
  by (cases "(m, f)" rule: then_await.cases) auto

lemma unwrap_Ok [simp]: "unwrap m = Ready (Ok a) \<longleftrightarrow> m = Ready (Ok a)"
  by (cases m rule: unwrap.cases) auto

lemma as_key_pair_Some [simp]: "as_key_pair v = Some kp \<longleftrightarrow> v = JsKeyPair kp"
  by (cases v) auto

lemma storage_open_Ok:
  assumes "storage_open B E st = (Ready (Ok u), st')"
  shows "has_window B \<and> st' = st(DB_NAME \<mapsto> opened st)"
  using assms by (auto simp: storage_open_def split: if_splits sum.splits bool.splits option.splits)

lemma load_or_generate_holds:
  assumes "load_or_generate B W E i st = (Ready (Ok kp), st')" and "idb_put_commits E"
    and d: "st DB_NAME = Some d" "1 \<le> idb_version d"
  shows "holds_key st' kp"
proof -
  obtain k where load: "load_key_pair E st = Ready (Ok k)"
    using assms(1) by (auto simp: load_or_generate_def split: eventual.splits res.splits elim: unwrap.elims)
  then obtain store where store: "idb_stores d STORE = Some store"
    "k = as_key_pair (case store ''keypair'' of Some v \<Rightarrow> v | None \<Rightarrow> JsUndefined)"
    using d by (auto simp: load_key_pair_def key_store_def Let_def split: option.splits if_splits)
  show ?thesis
  proof (cases k)
    case None
    obtain kp' where "generate_key_pair B W i = Ok kp'"
      using assms(1) load None by (cases "generate_key_pair B W i") (auto simp: load_or_generate_def)
    moreover obtain saved where "save_key_pair E kp' st = (saved, st')"
      using assms(1) load None calculation by (auto simp: load_or_generate_def split: prod.splits)
    ultimately show ?thesis
      using assms load None store(1)
      by (auto simp: load_or_generate_def then_await_Ok save_key_pair_def key_store_def holds_key_def split: option.splits)
  next
    case (Some kp')
    with store(2) have "(case store ''keypair'' of Some v \<Rightarrow> v | None \<Rightarrow> JsUndefined) = JsKeyPair kp'"
      using as_key_pair_Some by metis
    then have "store ''keypair'' = Some (JsKeyPair kp')" by (simp split: option.splits)
    with assms(1) load Some d store(1) show ?thesis
      by (auto simp: load_or_generate_def holds_key_def)
  qed
qed

lemma init_keeps_key:
  assumes "init_state L B W E i st = (Ready (Ok app), st')" and "idb_put_commits E"
  shows "holds_key st' (ws_key_pair app) \<and> has_window B \<and>
    (\<exists>t. subtle_export W (kp_public (ws_key_pair app)) = Inr t \<and> json_from_slice L t = Some (ws_jwk app))"
proof -
  obtain u st1 where o: "storage_open B E st = (Ready (Ok u), st1)"
    using assms(1) by (auto simp: init_state_def split: prod.splits eventual.splits res.splits)
  obtain kp where kp: "load_or_generate B W E i st1 = (Ready (Ok kp), st')" "public_state L B W kp = Ready (Ok app)"
    using assms(1) o by (auto simp: init_state_def then_await_Ok split: prod.splits)
  have "holds_key st' kp"
    using load_or_generate_holds [OF kp(1) assms(2)] storage_open_Ok [OF o] opened_version by simp
  with kp(2) storage_open_Ok [OF o] show ?thesis
    by (auto simp: public_state_def then_await_Ok export_public_jwk_def subtle_def split: option.splits)
qed

text \<open>The key of the client survives a reload of the page: after an initialisation that stored its key
  pair, an initialisation in which the database answers returns the same key pair and public key,
  generates none and leaves the database as it is, so tokens bound to the key stay usable.\<close>

theorem key_survives_reload:
  assumes "init_state L B W E i st = (Ready (Ok app), st')" and "idb_put_commits E" and "idb_answers E'"
  shows "init_state L B W E' j st' = (Ready (Ok app), st')"
proof -
  obtain t where "holds_key st' (ws_key_pair app)" "has_window B" "subtle_export W (kp_public (ws_key_pair app)) = Inr t"
    "json_from_slice L t = Some (ws_jwk app)"
    using init_keeps_key [OF assms(1,2)] by blast
  from init_reload [OF this(1) assms(3) this(2-4)] show ?thesis by simp
qed

definition demo_env :: idb_env where
  "demo_env =
     \<lparr> idb_factory = Inr True, idb_open_fault = None, idb_open_succeeds = True, idb_load_fault = None, idb_get_succeeds = True,
       idb_save_fault = None, idb_put_commits = True \<rparr>"

definition demo_crypto :: web_crypto where
  "demo_crypto =
     \<lparr> subtle_generate = (\<lambda>i. Inr \<lparr> kp_private = ''sk'' @ digits_of i, kp_public = ''pk'' @ digits_of i \<rparr>),
       subtle_export = (\<lambda>pub. Inr (put_json (JObj [(''x'', JStr pub)]))) \<rparr>"

theorem key_survives_reload_witness:
  "\<exists>app st. init_state ref_lib demo_browser demo_crypto demo_env 0 Map.empty = (Ready (Ok app), st) \<and>
     init_state ref_lib demo_browser demo_crypto demo_env 1 st = (Ready (Ok app), st) \<and> kp_private (ws_key_pair app) = ''sk0''"
proof -
  obtain app st where first: "init_state ref_lib demo_browser demo_crypto demo_env 0 Map.empty = (Ready (Ok app), st)"
    "kp_private (ws_key_pair app) = ''sk0''"
    by (simp add: init_state_def storage_open_def demo_env_def opened_def on_upgrade_def load_or_generate_def load_key_pair_def
        key_store_def generate_key_pair_def subtle_def demo_crypto_def save_key_pair_def public_state_def export_public_jwk_def
        json_round_trip digits_0 del: put_json.simps)
  moreover have "init_state ref_lib demo_browser demo_crypto demo_env 1 st = (Ready (Ok app), st)"
    by (rule key_survives_reload [OF first(1)]) (simp_all add: demo_env_def idb_answers_def)
  ultimately show ?thesis by blast
qed

end
