(* ===== verification/Spec2Isabelle.thy ===== *)
theory Spec2Isabelle
  imports Totp_Properties Race_Properties Outbox_Properties Tenant Pool_Machine Web_App
begin

text \<open>
  A model of \<open>dpop-auth\<close>, a Rust library for sender-constrained authentication (DPoP, RFC 9449), and of
  its two example programs. A client holds a key pair and signs a proof for every request; the library
  validates proofs, issues access and refresh tokens bound to the key, keeps accounts, sessions, second
  factors and outgoing mail in PostgreSQL, and protects the handlers of an axum server.

  \<^bold>\<open>How the parts interact.\<close> A browser client (\<open>examples/web\<close>) makes a proof and sends it with a request.
  The demo server (\<open>examples/server\<close>) routes registrations and logins to the authentication service,
  after validating the proof, and puts the DPoP layer in front of the protected resource. The layer
  extracts token and proof, verifies the token, validates the proof with the replay and nonce caches
  and compares the keys. The service works on the tables of the store through transactions that can
  abort, with caches for retries of a rotation and for used one-time passwords. Mail is queued in the
  store and delivered by workers that run beside each other.

  \<^bold>\<open>Conventions.\<close> Strings are the bytes of a Rust string; time is in nanoseconds since the epoch;
  durations of tokens are 64-bit words where the code computes with \<open>u64\<close>. A call returns \<open>Ok\<close>, \<open>Err\<close> or
  \<open>Panic\<close> (\<open>res\<close>), and stateful code is an action from a state to a result and a state (\<open>act\<close>). Third-party
  code is a parameter: the record \<open>lib\<close> (hashes, base64, JSON, JWT, URLs, argon2, totp, chrono, uuid,
  random bytes, faults of the database), the record \<open>cache_ops\<close> (moka), \<open>lettre\<close> (SMTP), \<open>browser\<close>,
  \<open>web_crypto\<close> and \<open>idb_env\<close> (the browser) and \<open>axum\<close>. What the code relies on is a locale for each of
  them; the locales are interpreted on executable reference functions, which the concrete examples
  run on.

  \<^bold>\<open>Theories, sources and what is shown.\<close>

  \<^item> \<open>Prelude\<close>: results, actions and their Hoare rules, words, strings, time, tables, state machines.
  \<^item> \<open>Libraries\<close>, \<open>Reference_Libs\<close>: the interface to third-party code, its laws, and functions that satisfy
    them, with the round trips of base64 and of the text of JSON values.
  \<^item> \<open>Errors\<close> (\<open>error.rs\<close>, \<open>store/error.rs\<close>): both error types, conversions and responses.
  \<^item> \<open>Config\<close> (\<open>config.rs\<close>, \<open>axum/cookie.rs\<close>): builder, environment, signer, refresh-token cookie; what a
    configuration read from the environment satisfies, and the bounds of the cookie lifetime.
  \<^item> \<open>Cache\<close> (\<open>cache/\<close>): the laws of the cache crate and the three caches.
  \<^item> \<open>Crypto\<close> (\<open>crypto/dpop.rs\<close>, \<open>crypto/entropy.rs\<close>, \<open>crypto/password.rs\<close>): hashes, secrets, passwords.
  \<^item> \<open>Token\<close> (\<open>token.rs\<close>): claims, issuing and verifying; a token verifies exactly until it expires, and
    application claims cannot replace reserved ones.
  \<^item> \<open>Dpop\<close> (\<open>dpop.rs\<close>, \<open>state.rs\<close>): validation of a proof, equivalent to the requirements of RFC 9449; no
    proof is accepted twice over any sequence of requests; what a rejection leaves behind.
  \<^item> \<open>Middleware\<close> (\<open>axum/middleware.rs\<close>, \<open>axum/extractor.rs\<close>, \<open>dpop-auth-macros\<close>): the layer and the
    extractor; handlers run only for authenticated requests, tokens are worthless without their key,
    and the legitimate client gets in.
  \<^item> \<open>Store\<close>, \<open>Refresh_Tokens\<close> (\<open>store/models\<close>, \<open>store/repo\<close>): rows, connections with transactions, every
    statement with its constraints, and families of refresh tokens as an abstract machine.
  \<^item> \<open>Auth_Service\<close>, \<open>Auth_Properties\<close> (\<open>service/mod.rs\<close>, \<open>service/auth.rs\<close>): registration, login, rotation
    with reuse detection and grace period, logout; what each may do, when it
    succeeds, and that whoever registers can log in.
  \<^item> \<open>Refresh_Race\<close>, \<open>Race_Alone\<close>, \<open>Race_Properties\<close> (\<open>service/auth.rs\<close>): any number of refreshes, sign-ins
    and logouts whose statements interleave, under the row locks of PostgreSQL; every interleaving is a
    run of the machine of the families, a request that nobody hinders ends exactly as \<open>refresh\<close> does, a
    token is rotated once, a late retry gets the pair of the winner (whatever key it presents), and a
    detected reuse revokes the tokens its statement saw, but not a successor that is committed meanwhile.
  \<^item> \<open>Totp\<close>, \<open>Totp_Service\<close>, \<open>Totp_Properties\<close> (\<open>crypto/totp.rs\<close>, \<open>store/repo/totp.rs\<close>, \<open>service/totp.rs\<close>): the
    second factor, its enrolment, recovery codes and cleanup.
  \<^item> \<open>Accounts\<close>, \<open>Service_Machine\<close>: the invariant of accounts, and the service as a step relation whose
    steps are its operations at any time and with any failure.
  \<^item> \<open>Email\<close>, \<open>Email_Outbox\<close> (\<open>email.rs\<close>, \<open>store/repo/email.rs\<close>, \<open>service/email.rs\<close>): senders, the outbox and
    one batch of a worker, with the exact backoff.
  \<^item> \<open>Outbox_Machine\<close>, \<open>Outbox_Properties\<close>: several workers that interleave claim, send and record; a mail is
    not sent twice while its lease lasts, recorded mails are final, queued mail is delivered, failures
    are retried, and a batch is a run of the machine.
  \<^item> \<open>Tenant\<close> (\<open>store/tenant.rs\<close>): the tenant guard over the settings of session and transaction; its work
    is atomic and sees the rows of the tenant, unless a statement on the guarded connection sets the
    tenant itself, and no row is seen once the guard is gone.
  \<^item> \<open>Web_Client\<close> (\<open>examples/web/src/crypto.rs\<close>, \<open>client.rs\<close>): proofs of the browser and the request loop;
    the library accepts the proofs, the loop ends, and it gets through a layer that requires nonces.
  \<^item> \<open>Web_App\<close> (\<open>examples/web/src/app.rs\<close>, \<open>storage.rs\<close>): key storage, forms and pages as a step relation.
  \<^item> \<open>Server_Example\<close> (\<open>examples/server/src/lib.rs\<close>): the handlers and routes of the demo server, over all of
    the above.
  \<^item> \<open>Server_Start\<close> (\<open>store/pool.rs\<close>, \<open>examples/server/src/main.rs\<close>): the pool, the embedded migrations and
    the start of the demo server, which listens only when all steps before have succeeded.
  \<^item> \<open>Pool_Machine\<close> (\<open>acquire\<close> and \<open>begin\<close> in \<open>service/\<close>): the calls of the server on the ten connections of
    the pool; calls can starve it exactly when ten of them are \<open>confirm_2fa\<close> or \<open>disable_2fa\<close>, how calls of
    \<open>confirm_2fa\<close> get there, and that every call ends once waits time out.
  \<^item> This theory: the properties of the whole service, over all sequences of operations.

  \<^bold>\<open>Abstract specifications.\<close> \<open>rfc9449_proof\<close> (what a valid proof is), \<open>token_step\<close> (how sessions may
  change; every operation of the service, and every statement of interleaved refreshes, is one such step), \<open>account_inv\<close>, the outbox machine
  \<open>outbox_step\<close> (a batch is a run of it), and the RFC-style contracts \<open>rotated\<close>, \<open>repeated\<close> and \<open>reused\<close> of a
  refresh.

  \<^bold>\<open>Bounds and termination.\<close> The request loop of the client has its two rounds by structural recursion.
  Rendering of numbers, trimming and splitting terminate by measures. No definition uses fuel except
  the reader of the reference JSON text, whose fuel is the length of the text and is proved enough.
  \<open>no_proof_accepted_twice\<close> assumes no more requests than the replay cache holds entries
  (\<open>CACHE_CAPACITY\<close>), because a full cache may evict; \<open>totp_code_accepted_once\<close> likewise.

  \<^bold>\<open>Interleaving.\<close> The operations of \<open>Auth_Service\<close> and \<open>Totp_Service\<close> run one at a time. \<open>Refresh_Race\<close> splits
  a refresh into its statements, and \<open>alone_refresh_agrees\<close> ties the two models together: without
  interference both give the same answer, tables and cache. What the
  operations guarantee one at a time, \<open>reuse_ends_session\<close> in particular, does not all hold under
  interleaving: \<open>rotation_escapes_revocation\<close> is the exception. The workers of the outbox interleave, too. \<open>Pool_Machine\<close> interleaves all calls, but sees only the
  connections that they hold; a wait that times out there is a failing \<open>acquire\<close> or \<open>begin_tx\<close> in the models
  of the operations.

  \<^bold>\<open>Not modelled, and why.\<close> Tracing spans and log output. The crate roots, which only declare modules and
  mount the page. Markup and styles of the pages. The tests. Interleavings between the statements of
  enrolments and of second-factor checks. Transactions of refreshes are modelled at READ COMMITTED, with
  the locks of rows; a deadlock of two revocations is one of them being dropped.
  Column lengths are enforced by an error, without PostgreSQL's exception for trailing blanks. The
  rows a concurrent transaction has locked, the order and the times of a batch's tasks, and the outcome
  of every database call are parameters. Row-level security is modelled as the policy that the tests
  of \<open>store/tenant.rs\<close> install. Rejections that axum itself answers and the CORS layer are parameters.
\<close>

section \<open>Sessions\<close>

text \<open>C1. Sessions stay consistent. From an empty store, after any operations of the service at any
  times, with any failures of the database: no two refresh tokens have the same hash, a family has
  at most one active token, and the tokens of a family belong to one user and one key and end at
  the same time (the invariant \<open>family_inv\<close>, which also says that families are drawn from the
  random identifiers used so far).\<close>

theorem sessions_consistent:
  assumes "uuid_laws L" and "service_init w0" and "(service_step L G R svc)\<^sup>*\<^sup>* w0 w"
  shows "family_inv L (w_draws w, refresh_tokens (db w)) \<and> distinct (map r_token_hash (refresh_tokens (db w))) \<and>
    (\<forall>fam. length (active_in fam (refresh_tokens (db w))) \<le> 1) \<and>
    (\<forall>r s. r \<in> set (refresh_tokens (db w)) \<and> s \<in> set (refresh_tokens (db w)) \<and> r_fam r = r_fam s \<longrightarrow>
       r_user_id r = r_user_id s \<and> r_dpop_jkt r = r_dpop_jkt s \<and> r_expires_at r = r_expires_at s)"
proof -
  have inv: "family_inv L (w_draws w, refresh_tokens (db w))"
    using families.reachable_inv [OF assms(2,3)] assms(1) by (simp add: families_ok_def view_def)
  moreover have "r_user_id r = r_user_id s \<and> r_dpop_jkt r = r_dpop_jkt s \<and> r_expires_at r = r_expires_at s"
    if "r \<in> set (refresh_tokens (db w)) \<and> s \<in> set (refresh_tokens (db w)) \<and> r_fam r = r_fam s" for r s
    using family_invD(3) [OF inv, of r s] that by (simp add: same_session_def)
  ultimately show ?thesis using family_invD(1,4) [OF inv] by blast
qed

text \<open>A service that has just started, and one that has handled a registration.\<close>

lemma demo_start: "service_init (demo_world empty_tables)"
  by (simp add: service_init_def)

lemma demo_registered:
  "(service_step ref_lib ref_ops ref_ops demo_service)\<^sup>*\<^sup>* (demo_world empty_tables)
     (snd (perform ref_lib ref_ops ref_ops demo_service (from_secs 1000) (Register demo_registration) (demo_world empty_tables)))"
  by (rule r_into_rtranclp, rule service_step.step) (rule prod.collapse [symmetric])

theorem sessions_consistent_witness:
  "let w = snd (perform ref_lib ref_ops ref_ops demo_service (from_secs 1000) (Register demo_registration) (demo_world empty_tables))
   in distinct (map r_token_hash (refresh_tokens (db w))) \<and> (\<forall>fam. length (active_in fam (refresh_tokens (db w))) \<le> 1)"
  unfolding Let_def
  using sessions_consistent [OF ref_uuid.uuid_laws_axioms demo_start demo_registered] by blast

text \<open>C16. Every operation of the service is, for the refresh tokens, one step of an abstract session
  store: nothing, a revocation, a new session under a fresh family, or the replacement of an
  active token by a successor of the same session. No operation leaves a transaction open.\<close>

theorem service_refines_sessions:
  assumes "tx w = Auto" and "perform L G R svc now op w = (out, w')"
  shows "tx w' = Auto \<and> token_step L (w_draws w, refresh_tokens (db w)) (w_draws w', refresh_tokens (db w'))"
  using perform_moved [OF assms] by (simp add: tokens_moved_def view_def)

theorem service_refines_sessions_witness:
  "let w' = snd (perform ref_lib ref_ops ref_ops demo_service (from_secs 1000) (Refresh ''s1'' ''jkt1'' None) (demo_world demo_tables))
   in tx w' = Auto \<and> token_step ref_lib (1, [demo_row]) (w_draws w', refresh_tokens (db w'))"
  unfolding Let_def
  using service_refines_sessions [of "demo_world demo_tables" ref_lib ref_ops ref_ops demo_service "from_secs 1000"
      "Refresh ''s1'' ''jkt1'' None"]
  by (metis demo_tables_simps(3) demo_world_simps(1,2,5) prod.collapse)






text \<open>C26. Logging out ends the session: a logout with the active token of a session, which the store
  carries out, leaves the family without an active token, now and in every later state.\<close>

theorem logout_ends_session:
  assumes "uuid_laws L" and "tx w = Auto" and inv: "family_inv L (w_draws w, refresh_tokens (db w))"
    and row: "row \<in> set (refresh_tokens (db w))" "r_token_hash row = hash_token L token" "active row"
    and out: "logout L now token w = (Ok (), w1)" and later: "(service_step L G R svc)\<^sup>*\<^sup>* w1 w'"
  shows "active_in (r_fam row) (refresh_tokens (db w')) = []"
proof -
  have db: "refresh_tokens (db w1) = revoke_rows (int now) (\<lambda>r. r_token_hash r = hash_token L token) (refresh_tokens (db w))"
    using out by (auto simp: logout_def act_bind_def act_map_err_def acquire_def db_read_def revoke_refresh_token_by_hash_def db_exec_def db_query_Ok_iff
        split: prod.splits res.splits)
  have "row \<in> set (active_in (r_fam row) (refresh_tokens (db w)))" using row by (simp add: active_in_def)
  then have "active_in (r_fam row) (refresh_tokens (db w)) = [row]"
    using family_invD(4) [OF inv, of "r_fam row"] by (cases "active_in (r_fam row) (refresh_tokens (db w))") auto
  then have "active_in (r_fam row) (refresh_tokens (db w1)) = []"
    using row(2) by (simp add: db active_in_revoke)
  then have "dead (r_fam row) (view w1)"
    using row(1) by (simp add: dead_def view_def db families_revoke_rows)
  moreover have "families_ok L w1"
  proof -
    have "perform L G R svc now (Logout token) w = (DoneOut (Ok ()), w1)" by (simp add: out)
    then have "service_step L G R svc w w1" by (rule service_step.step)
    moreover have "families_ok L w" using assms(2) inv by (simp add: families_ok_def view_def)
    ultimately show ?thesis using families.step_inv by blast
  qed
  ultimately show ?thesis
    using dead_steps [OF assms(1) later] by (simp add: dead_def view_def)
qed

theorem logout_ends_session_witness:
  "\<exists>w1. logout ref_lib (from_secs 1000) ''s1'' (demo_world demo_tables) = (Ok (), w1) \<and>
     active_in 0 (refresh_tokens (db (snd (refresh ref_lib ref_ops (from_secs 2000) demo_service ''s1'' ''jkt1'' None w1)))) = []"
proof -
  let ?w = "demo_world demo_tables"
  let ?w1 = "snd (logout ref_lib (from_secs 1000) ''s1'' ?w)"
  let ?w2 = "snd (refresh ref_lib ref_ops (from_secs 2000) demo_service ''s1'' ''jkt1'' None ?w1)"
  have "fst (logout ref_lib (from_secs 1000) ''s1'' ?w) = Ok ()"
    using hash_token_text [OF ref_hex.hex_laws_axioms, of "''s1''"]
    by (simp add: logout_def act_bind_def act_map_err_def reliable_acquire [OF demo_reliable] revoke_refresh_token_by_hash_def
        reliable_exec [OF demo_reliable])
  then have out: "logout ref_lib (from_secs 1000) ''s1'' ?w = (Ok (), ?w1)" by (metis prod.collapse)
  have inv: "family_inv ref_lib (w_draws ?w, refresh_tokens (db ?w))" by (simp add: family_inv_def active_in_def)
  have "perform ref_lib ref_ops ref_ops demo_service (from_secs 2000) (Refresh ''s1'' ''jkt1'' None) ?w1 =
      (TokensOut (fst (refresh ref_lib ref_ops (from_secs 2000) demo_service ''s1'' ''jkt1'' None ?w1)), ?w2)"
    by (simp add: apfst_def map_prod_def split: prod.splits)
  then have "(service_step ref_lib ref_ops ref_ops demo_service)\<^sup>*\<^sup>* ?w1 ?w2"
    by (intro r_into_rtranclp) (rule service_step.step)
  then show ?thesis
    using logout_ends_session [OF ref_uuid.uuid_laws_axioms _ inv, of demo_row "''s1''" "from_secs 1000" ?w1] out
    by (intro exI [of _ ?w1]) simp
qed

section \<open>Accounts\<close>

text \<open>C7. The second factor of an account is consistent in every reachable state: identifiers of users
  are distinct, a factor is on exactly when there is a secret, an account with a factor has no
  draft, a draft has a date, only accounts with a factor have open recovery codes, and nobody has
  more than ten.\<close>

theorem accounts_consistent:
  assumes "getrandom_laws L" and "service_init w0" and "(service_step L G R svc)\<^sup>*\<^sup>* w0 w"
  shows "account_inv (db w)"
  using accounts.reachable_inv [OF assms(2,3)] assms(1) by (simp add: accounts_ok_def)

theorem accounts_consistent_witness:
  "account_inv (db (snd (perform ref_lib ref_ops ref_ops demo_service (from_secs 1000) (Register demo_registration)
     (demo_world empty_tables))))"
  using accounts_consistent [OF ref_getrandom.getrandom_laws_axioms demo_start demo_registered] .

text \<open>C6. A one-time password works once. In any sequence of requests in the order of their times, no
  longer than what the replay cache holds: after a code was accepted for a user as a second factor,
  the same code (up to blanks around it) is not accepted for that user again as long as any time
  step is within the tolerance of both times.\<close>

theorem totp_code_accepted_once:
  assumes "getrandom_laws L" and moka: "moka R entries ttl capacity"
    and "tx w = Auto" and "account_inv (db w)" and "totp_replay_cache w = create_totp_replay_cache R"
    and "length reqs \<le> CACHE_CAPACITY" and "sorted (map fst reqs)"
    and "service_run L G R svc reqs w = (outs, w')"
    and "i < j" and "j < length reqs"
    and "snd (reqs ! i) = Verify2fa uid code" and "outs ! i = FactorOut (Ok Totp)"
    and "snd (reqs ! j) = Verify2fa uid code'" and "trim code' = trim code"
    and window: "fst (reqs ! j) div NANOS_PER_SEC div TOTP_STEP \<le> fst (reqs ! i) div NANOS_PER_SEC div TOTP_STEP + 2 * TOTP_SKEW"
  shows "outs ! j \<noteq> FactorOut (Ok Totp)"
proof
  assume again: "outs ! j = FactorOut (Ok Totp)"
  have "replay_room entries ttl capacity (length reqs) (totp_replay_cache w)"
    using assms(5,6) by (simp add: replay_room_def create_totp_replay_cache_def moka.entries_build [OF moka]
        moka.ttl_build [OF moka] moka.capacity_build [OF moka])
  then have "fst (reqs ! i) + TOTP_REPLAY_TTL \<le> fst (reqs ! j)"
    using claims_apart [OF assms(1) moka assms(3,4) _ assms(7-10), of "(uid, trim code)"] assms(11-14) again
    by (simp add: same_factor_def)
  moreover have "TOTP_REPLAY_TTL = 3 * TOTP_STEP * NANOS_PER_SEC"
    by (simp add: TOTP_REPLAY_TTL_def from_secs_def TOTP_STEP_def)
  ultimately have "(fst (reqs ! i) + 3 * TOTP_STEP * NANOS_PER_SEC) div NANOS_PER_SEC div TOTP_STEP \<le>
      fst (reqs ! j) div NANOS_PER_SEC div TOTP_STEP"
    by (intro div_le_mono) simp
  with window show False
    by (simp add: TOTP_STEP_def TOTP_SKEW_def NANOS_PER_SEC_def)
qed

theorem totp_code_accepted_once_witness:
  "let (outs, w') = service_run ref_lib ref_ops ref_ops demo_service
         [(from_secs 1000, Verify2fa 100 ''KEY33''), (from_secs 1040, Verify2fa 100 '' KEY33'')] (demo_world demo_2fa_tables)
   in outs ! 0 = FactorOut (Ok Totp) \<and> outs ! 1 \<noteq> FactorOut (Ok Totp)"
proof -
  let ?reqs = "[(from_secs 1000, Verify2fa 100 ''KEY33''), (from_secs 1040, Verify2fa 100 '' KEY33'')]"
  let ?w = "demo_world demo_2fa_tables"
  obtain outs w' where run: "service_run ref_lib ref_ops ref_ops demo_service ?reqs ?w = (outs, w')"
    by (cases "service_run ref_lib ref_ops ref_ops demo_service ?reqs ?w")
  have "fst (verify_2fa_code ref_lib ref_ops (from_secs 1000) 100 ''KEY33'' ?w) = Ok Totp"
    using demo_verifies demo_code_recognised(3) demo_unclaimed
    by (intro verify_totp_succeeds [OF demo_reliable, where user = demo_2fa_user and secret = "''KEY''"]) simp_all
  then have first: "outs ! 0 = FactorOut (Ok Totp)"
    using run by (auto simp: apfst_def map_prod_def split: prod.splits)
  have "account_inv demo_2fa_tables"
    by (simp add: account_inv_def user_ok_def has_factor_def open_codes_def demo_2fa_user_def demo_user_def demo_code_row_def)
  moreover have "trim '' KEY33'' = trim ''KEY33''" by code_simp
  ultimately have "outs ! 1 \<noteq> FactorOut (Ok Totp)"
    using first run
    by (intro totp_code_accepted_once [OF ref_getrandom.getrandom_laws_axioms ref_cache.moka_axioms, of ?w ?reqs ref_ops
          demo_service outs w' 0 1 100 "''KEY33''" "'' KEY33''"])
       (simp_all add: CACHE_CAPACITY_def from_secs_def NANOS_PER_SEC_def TOTP_STEP_def TOTP_SKEW_def)
  with first run show ?thesis by simp
qed

end
